(* ===== verification/C_Prelude.thy ===== *)
theory C_Prelude
  imports Main "HOL-Library.Word"
begin

text \<open>
  What the components share: the machine of the programs (the Makefile of the malloc lab builds
  with \<^verbatim>\<open>-m32\<close>: pointers, \<open>size_t\<close> and \<open>int\<close> are 32 bits, words are stored with the low
  byte first), a byte-addressed memory with word reads and writes, the ways a C function can fail
  to return, and the generic lemmas on words and lists that the component proofs use.
\<close>

unbundle bit_operations_syntax

type_synonym u8 = "8 word"
type_synonym u32 = "32 word"
type_synonym memory = "u32 \<Rightarrow> u8"

named_theorems layout \<open>equations of the heap layout: positions, sizes, tags and links\<close>
named_theorems wordnat \<open>32-bit arithmetic on the images of natural numbers\<close>

section \<open>How a C function stops without returning\<close>

text \<open>
  \<open>Exits n\<close>: it called \<open>exit(n)\<close>; \<open>Diverges\<close>: a loop of it does not end; \<open>Undefined w\<close>: it ran
  into behaviour that C leaves undefined, \<open>w\<close> naming the call; \<open>Aborts w\<close>: an assertion in \<open>w\<close> failed.
\<close>

datatype c_stop = Diverges | Exits int | Undefined string | Aborts string

section \<open>Word access to a byte memory\<close>

text \<open>\<open>load32 m p\<close> is \<open>*(size_t *)p\<close>, \<open>store32 m p v\<close> is \<open>*(size_t *)p = v\<close>.\<close>

definition load32 :: "memory \<Rightarrow> u32 \<Rightarrow> u32" where
  "load32 m p = ucast (m p) OR push_bit 8 (ucast (m (p + 1)))
     OR push_bit 16 (ucast (m (p + 2))) OR push_bit 24 (ucast (m (p + 3)))"

definition store32 :: "memory \<Rightarrow> u32 \<Rightarrow> u32 \<Rightarrow> memory" where
  "store32 m p v = m(p := ucast v, p + 1 := ucast (drop_bit 8 v),
     p + 2 := ucast (drop_bit 16 v), p + 3 := ucast (drop_bit 24 v))"

text \<open>
  \<open>memcpy\<close> on ranges that do not overlap, and \<open>memset\<close>. \<open>regions_overlap\<close> is the condition under
  which C leaves \<open>memcpy\<close> undefined.
\<close>

definition regions_overlap :: "u32 \<Rightarrow> u32 \<Rightarrow> u32 \<Rightarrow> bool" where
  "regions_overlap dst src n \<longleftrightarrow> n \<noteq> 0 \<and> (dst - src < n \<or> src - dst < n)"

definition mem_copy :: "memory \<Rightarrow> u32 \<Rightarrow> u32 \<Rightarrow> u32 \<Rightarrow> memory" where
  "mem_copy m dst src n = (\<lambda>a. if a - dst < n then m (src + (a - dst)) else m a)"

definition mem_set :: "memory \<Rightarrow> u32 \<Rightarrow> u8 \<Rightarrow> u32 \<Rightarrow> memory" where
  "mem_set m dst c n = (\<lambda>a. if a - dst < n then c else m a)"

lemma option_eqI: "(\<And>k. a = Some k \<longleftrightarrow> b = Some k) \<Longrightarrow> a = b"
  by (metis not_None_eq)

lemma unat_of_nat_u32 [wordnat]: "a < 2 ^ 32 \<Longrightarrow> unat (of_nat a :: u32) = a"
  by (simp add: unat_of_nat)

lemma unat_less_u32: "unat (w :: u32) < 2 ^ 32"
  using unsigned_less[of w, where ?'a = nat] by simp

lemma word32_nat_cases:
  fixes w :: u32
  obtains n where "w = of_nat n" "n < 2 ^ 32"
  using that[of "unat w"] unat_less_u32[of w] by simp

lemma of_nat_eq_iff_u32 [wordnat]:
  "a < 2 ^ 32 \<Longrightarrow> b < 2 ^ 32 \<Longrightarrow> (of_nat a = (of_nat b :: u32)) \<longleftrightarrow> a = b"
  by (metis unat_of_nat_u32)

lemma of_nat_le_iff_u32 [wordnat]:
  "a < 2 ^ 32 \<Longrightarrow> b < 2 ^ 32 \<Longrightarrow> (of_nat a \<le> (of_nat b :: u32)) \<longleftrightarrow> a \<le> b"
  by (simp add: word_le_nat_alt unat_of_nat_u32 del: unat_of_nat)

lemma of_nat_less_iff_u32 [wordnat]:
  "a < 2 ^ 32 \<Longrightarrow> b < 2 ^ 32 \<Longrightarrow> (of_nat a < (of_nat b :: u32)) \<longleftrightarrow> a < b"
  by (simp add: word_less_nat_alt unat_of_nat_u32 del: unat_of_nat)

lemma of_nat_eq_0_iff_u32 [wordnat]: "a < 2 ^ 32 \<Longrightarrow> (of_nat a = (0 :: u32)) \<longleftrightarrow> a = 0"
  using of_nat_eq_iff_u32[of a 0] by simp

lemma of_nat_sub_u32 [wordnat]:
  "b \<le> a \<Longrightarrow> of_nat a - (of_nat b :: u32) = of_nat (a - b)"
  by simp

lemma of_nat_sub_numeral_u32 [wordnat]:
  "numeral k \<le> a \<Longrightarrow> of_nat a - (numeral k :: u32) = of_nat (a - numeral k)"
  by simp

lemma of_nat_add_u32 [wordnat]:
  "of_nat a + (of_nat b :: u32) = of_nat (a + b)"
  by simp

lemma of_nat_add_numeral_u32 [wordnat]:
  "of_nat a + (numeral k :: u32) = of_nat (a + numeral k)"
  "of_nat a + (1 :: u32) = of_nat (a + 1)" "(1 :: u32) + of_nat a = of_nat (a + 1)"
  "(numeral k :: u32) + of_nat a = of_nat (numeral k + a)" "of_nat (Suc 0) = (1 :: u32)"
  by simp_all

text \<open>Reading a word back: the four bytes of a stored word make the word again.\<close>

lemma word32_bytes:
  fixes v :: u32
  shows "ucast (ucast v :: u8) OR push_bit 8 (ucast (ucast (drop_bit 8 v) :: u8))
     OR push_bit 16 (ucast (ucast (drop_bit 16 v) :: u8))
     OR push_bit 24 (ucast (ucast (drop_bit 24 v) :: u8)) = v"
proof (rule bit_word_eqI)
  fix n assume "n < LENGTH(32)"
  then show "bit (ucast (ucast v :: u8) OR push_bit 8 (ucast (ucast (drop_bit 8 v) :: u8))
     OR push_bit 16 (ucast (ucast (drop_bit 16 v) :: u8))
     OR push_bit 24 (ucast (ucast (drop_bit 24 v) :: u8)) :: u32) n = bit v n"
    by (cases "n < 8"; cases "n < 16"; cases "n < 24")
       (auto simp: bit_or_iff bit_push_bit_iff bit_unsigned_iff bit_drop_bit_eq)
qed

lemma load32_store32_same [simp]: "load32 (store32 m p v) p = v"
  by (simp add: load32_def store32_def word32_bytes)

text \<open>A word write changes the four bytes of its word and no other byte.\<close>

lemma store32_byte_other:
  assumes "a + 3 < 2 ^ 32" "b < 2 ^ 32" "b < a \<or> a + 3 < b"
  shows "store32 m (of_nat a) v (of_nat b) = m (of_nat b)"
proof -
  have "(of_nat b :: u32) \<noteq> of_nat (a + k)" if "k \<le> 3" for k
    using assms that by (subst of_nat_eq_iff_u32) auto
  from this[of 0] this[of 1] this[of 2] this[of 3] show ?thesis
    by (simp add: store32_def add.commute)
qed

lemma load32_cong:
  assumes "b + 3 < 2 ^ 32" "\<And>c. b \<le> c \<Longrightarrow> c \<le> b + 3 \<Longrightarrow> m' (of_nat c) = m (of_nat c)"
  shows "load32 m' (of_nat b) = load32 m (of_nat b)"
  using assms(2)[of b] assms(2)[of "b + 1"] assms(2)[of "b + 2"] assms(2)[of "b + 3"]
  by (simp add: load32_def add.commute)

lemma dvd_8_imp_4: "8 dvd (n :: nat) \<Longrightarrow> 4 dvd n"
  using dvd_trans[of 4 8 n] by simp

lemma dvd_8_diff_4: "8 dvd (n :: nat) \<Longrightarrow> 4 dvd n - 4"
  using dvd_8_imp_4[of n] by (auto intro: dvd_diff_nat)

lemma aligned_word_end:
  assumes "4 dvd (a :: nat)" "a < 2 ^ 32" shows "a + 3 < 2 ^ 32"
proof -
  from assms(1) obtain k where "a = 4 * k" by (rule dvdE)
  with assms(2) show ?thesis by simp
qed

lemma load32_store32:
  assumes "4 dvd a" "4 dvd b" "a < 2 ^ 32" "b < 2 ^ 32"
  shows "load32 (store32 m (of_nat a) v) (of_nat b) = (if a = b then v else load32 m (of_nat b))"
proof (cases "a = b")
  case False
  obtain j k where jk: "a = 4 * j" "b = 4 * k" using assms(1,2) unfolding dvd_def by auto
  with False have ne: "j < k \<or> k < j" by auto
  have "a + 3 < 2 ^ 32" "b + 3 < 2 ^ 32" using assms aligned_word_end by auto
  then have "load32 (store32 m (of_nat a) v) (of_nat b) = load32 m (of_nat b)"
    by (intro load32_cong store32_byte_other) (use jk ne in auto)
  with False show ?thesis by simp
qed simp

text \<open>\<open>x & ~0x7\<close> clears the low three bits, \<open>x & 0x1\<close> is the lowest.\<close>

lemma and_not_mask_word:
  fixes x :: u32 shows "x AND NOT (mask k) = push_bit k (drop_bit k x)"
  by (rule bit_word_eqI)
    (auto simp: bit_and_iff bit_not_iff bit_mask_iff bit_push_bit_iff bit_drop_bit_eq not_less)

lemma and_not_7_of_nat:
  assumes "n < 2 ^ 32" shows "(of_nat n :: u32) AND NOT 7 = of_nat (8 * (n div 8))"
proof -
  have "(7 :: u32) = mask 3" by (simp add: mask_eq_exp_minus_1)
  then have "(of_nat n :: u32) AND NOT 7 = push_bit 3 (drop_bit 3 (of_nat n))"
    by (simp only: and_not_mask_word)
  also have "drop_bit 3 (of_nat n :: u32) = of_nat (n div 8)"
    using assms by (simp add: word_unat_eq_iff drop_bit_eq_div unat_div_distrib unat_of_nat div_less_dividend order.strict_trans1[OF div_le_dividend])
  finally show ?thesis by (simp add: push_bit_eq_mult mult.commute)
qed

lemma and_1_of_nat: "(of_nat n :: u32) AND 1 = of_nat (n mod 2)"
proof -
  have "(of_nat n :: u32) AND 1 = of_bool (odd (of_nat n :: u32))"
    by (simp add: and_one_eq mod_2_eq_odd)
  also have "odd (of_nat n :: u32) = odd n"
    by transfer (simp add: even_take_bit_eq)
  finally show ?thesis by (simp add: mod_2_eq_odd)
qed

text \<open>
  From here on the simplifier computes with the images of natural numbers by folding: a sum or a
  difference of 32-bit words \<open>of_nat a\<close>, \<open>of_nat b\<close> becomes the image of a natural number, about
  which the arithmetic methods can reason.
\<close>

declare of_nat_add [simp del] of_nat_diff [simp del] of_nat_Suc [simp del]

lemmas fold_words = of_nat_add_u32 of_nat_add_numeral_u32 of_nat_sub_u32 of_nat_sub_numeral_u32

declare fold_words [simp]

lemma word_mod_8:
  assumes "p < 2 ^ 32" "8 dvd p" shows "(of_nat p :: u32) mod 8 = 0"
proof -
  have "unat ((of_nat p :: u32) mod 8) = unat (of_nat p :: u32) mod unat (8 :: u32)" by (rule unat_mod_distrib)
  also have "\<dots> = 0" unfolding unat_of_nat_u32[OF assms(1)] using assms(2) by simp
  finally show ?thesis by (simp only: unat_eq_zero)
qed

end
