(* ===== verification/Memlib.thy ===== *)
theory Memlib
  imports C_Prelude
begin

text \<open>
  The simulated memory system of \<^verbatim>\<open>malloclab-handout2/memlib.c\<close>: one region of \<open>MAX_HEAP\<close>
  bytes obtained from the C library, whose used part \<open>[mem_start_brk, mem_brk)\<close> only grows, by
  \<open>mem_sbrk\<close>. The record holds the module's three static pointers, the memory they point into,
  and what a failed \<open>mem_sbrk\<close> leaves behind (\<open>errno\<close> and a line on \<open>stderr\<close>).
\<close>

record memsys =
  mem :: memory
  mem_start_brk :: u32
  mem_brk :: u32
  mem_max_addr :: u32
  mem_errno :: int
  mem_stderr :: "string list"

definition MAX_HEAP :: u32 where "MAX_HEAP = 20 * push_bit 20 1"

definition ENOMEM :: int where "ENOMEM = 12"

definition sbrk_failed_msg :: string where
  "sbrk_failed_msg = ''ERROR: mem_sbrk failed. Ran out of memory...''"

text \<open>
  \<open>mem_init\<close> takes what \<open>malloc(MAX_HEAP)\<close> returned, 0 for \<open>NULL\<close>: then it prints and exits.
\<close>

definition mem_init :: "u32 \<Rightarrow> 'a memsys_scheme \<Rightarrow> c_stop + 'a memsys_scheme" where
  "mem_init block s =
     (if block = 0 then Inl (Exits 1)
      else Inr (s\<lparr>mem_start_brk := block, mem_max_addr := block + MAX_HEAP, mem_brk := block\<rparr>))"

definition mem_reset_brk :: "'a memsys_scheme \<Rightarrow> 'a memsys_scheme" where
  "mem_reset_brk s = s\<lparr>mem_brk := mem_start_brk s\<rparr>"

text \<open>
  The parameter is an \<open>int\<close>: the callers' \<open>size_t\<close> is reread as a signed number. The sum of a
  pointer and an \<open>int\<close> is a 32-bit address. The result \<open>(void *)-1\<close> is the all-ones word.
\<close>

definition mem_sbrk :: "u32 \<Rightarrow> 'a memsys_scheme \<Rightarrow> u32 \<times> 'a memsys_scheme" where
  "mem_sbrk incr s =
     (let old_brk = mem_brk s in
      if sint incr < 0 \<or> mem_brk s + incr > mem_max_addr s
      then (- 1, s\<lparr>mem_errno := ENOMEM, mem_stderr := mem_stderr s @ [sbrk_failed_msg]\<rparr>)
      else (old_brk, s\<lparr>mem_brk := mem_brk s + incr\<rparr>))"

definition mem_heap_lo :: "'a memsys_scheme \<Rightarrow> u32" where
  "mem_heap_lo s = mem_start_brk s"

definition mem_heap_hi :: "'a memsys_scheme \<Rightarrow> u32" where
  "mem_heap_hi s = mem_brk s - 1"

definition mem_heapsize :: "'a memsys_scheme \<Rightarrow> u32" where
  "mem_heapsize s = mem_brk s - mem_start_brk s"

section \<open>The region as natural numbers\<close>

text \<open>
  \<open>arena s lo u\<close>: the region starts at \<open>lo\<close>, a multiple of 8 as the C library's \<open>malloc\<close>
  returns, \<open>u\<close> bytes of it are in use, and it ends before the end of the address space, so that no
  pointer into it or just past it wraps around.
\<close>

definition heap_limit :: nat where "heap_limit = 20971520"

definition arena :: "'a memsys_scheme \<Rightarrow> nat \<Rightarrow> nat \<Rightarrow> bool" where
  "arena s lo u \<longleftrightarrow> 0 < lo \<and> 8 dvd lo \<and> lo + heap_limit < 2 ^ 32 \<and> u \<le> heap_limit
     \<and> mem_start_brk s = of_nat lo \<and> mem_brk s = of_nat (lo + u)
     \<and> mem_max_addr s = of_nat (lo + heap_limit)"

lemma MAX_HEAP_eq: "MAX_HEAP = of_nat heap_limit"
  by (simp add: MAX_HEAP_def heap_limit_def push_bit_eq_mult)

lemma arenaD:
  assumes "arena s lo u"
  shows "0 < lo" "8 dvd lo" "lo + heap_limit < 2 ^ 32" "u \<le> heap_limit"
    "mem_start_brk s = of_nat lo" "mem_brk s = of_nat (lo + u)"
    "mem_max_addr s = of_nat (lo + heap_limit)"
  using assms by (auto simp: arena_def)

lemma arena_reset_brk:
  assumes "arena s lo u" shows "arena (mem_reset_brk s) lo 0"
proof -
  have f: "mem_start_brk (mem_reset_brk s) = mem_start_brk s" "mem_brk (mem_reset_brk s) = mem_start_brk s"
    "mem_max_addr (mem_reset_brk s) = mem_max_addr s"
    by (simp_all add: mem_reset_brk_def)
  show ?thesis unfolding arena_def f using arenaD[OF assms] by simp
qed

lemma heapsize_arena:
  assumes "arena s lo u" shows "unat (mem_heapsize s) = u"
proof -
  have "mem_heapsize s = of_nat u" using arenaD(5,6)[OF assms] by (simp add: mem_heapsize_def)
  then show ?thesis using arenaD(3,4)[OF assms] by (simp add: unat_of_nat_u32)
qed

lemma sint_of_nat_u32:
  assumes "n < 2 ^ 32"
  shows "sint (of_nat n :: u32) = (if n < 2 ^ 31 then int n else int n - 2 ^ 32)"
proof -
  have "sint (of_nat n :: u32) = signed_take_bit 31 (int n)"
    by (simp add: signed_of_nat)
  also have "\<dots> = (int n + 2 ^ 31) mod 2 ^ 32 - 2 ^ 31"
    by (simp add: signed_take_bit_eq_take_bit_shift take_bit_eq_mod)
  also have "\<dots> = (if n < 2 ^ 31 then int n else int n - 2 ^ 32)"
  proof (cases "n < 2 ^ 31")
    case False
    have "(int n + 2 ^ 31) mod 2 ^ 32 = (int n + 2 ^ 31 - 2 ^ 32) mod 2 ^ 32"
      by (rule minus_mod_self2 [symmetric])
    also have "\<dots> = int n + 2 ^ 31 - 2 ^ 32"
      using assms False by (intro mod_pos_pos_trivial) auto
    finally show ?thesis using False by simp
  qed simp
  finally show ?thesis .
qed

lemma mem_sbrk_arena_ok:
  assumes a: "arena s lo u" and n: "u + n \<le> heap_limit"
  shows "mem_sbrk (of_nat n) s = (of_nat (lo + u), s\<lparr>mem_brk := of_nat (lo + u + n)\<rparr>)"
    and "arena (s\<lparr>mem_brk := of_nat (lo + u + n)\<rparr>) lo (u + n)"
proof -
  note d = arenaD[OF a]
  have small: "n < 2 ^ 31" "lo + u + n < 2 ^ 32" "lo + heap_limit < 2 ^ 32"
    using d(3,4) n by (auto simp: heap_limit_def)
  have "\<not> sint (of_nat n :: u32) < 0"
    using small by (subst sint_of_nat_u32) auto
  moreover have "\<not> mem_brk s + of_nat n > mem_max_addr s"
    using small n d(6,7) of_nat_less_iff_u32[of "lo + heap_limit" "lo + u + n"] by simp
  ultimately show "mem_sbrk (of_nat n) s = (of_nat (lo + u), s\<lparr>mem_brk := of_nat (lo + u + n)\<rparr>)"
    by (simp add: mem_sbrk_def d(6) Let_def)
  show "arena (s\<lparr>mem_brk := of_nat (lo + u + n)\<rparr>) lo (u + n)"
    using a n by (simp add: arena_def add.assoc)
qed

lemma mem_sbrk_arena_fail:
  assumes a: "arena s lo u" and n: "heap_limit < u + n" "lo + u + n < 2 ^ 32"
  shows "mem_sbrk (of_nat n) s
    = (- 1, s\<lparr>mem_errno := ENOMEM, mem_stderr := mem_stderr s @ [sbrk_failed_msg]\<rparr>)"
proof -
  note d = arenaD[OF a]
  have "mem_brk s + of_nat n > mem_max_addr s"
    using n d(3,6,7) of_nat_less_iff_u32[of "lo + heap_limit" "lo + u + n"] by simp
  then show ?thesis by (simp add: mem_sbrk_def Let_def)
qed

end
