(* ===== verification/Mm_Macros.thy ===== *)
theory Mm_Macros
  imports Memlib
begin

text \<open>
  The constants and macros that \<^verbatim>\<open>mm.c\<close> and \<^verbatim>\<open>mm-firstfit.c\<close> both define: block sizes, the packing of
  a size and an allocated bit into a word, and the addresses of the tags and of the neighbours of a
  block. \<open>GET(p)\<close> is \<^const>\<open>load32\<close>; \<open>PUT\<close> stores a word into the memory of the state.
\<close>

definition WSIZE :: u32 where "WSIZE = 4"
definition DSIZE :: u32 where "DSIZE = 8"
definition CHUNKSIZE :: u32 where "CHUNKSIZE = push_bit 12 1"
definition OVERHEAD :: u32 where "OVERHEAD = 8"
definition MINIMUM :: u32 where "MINIMUM = 16"

definition MAX_c :: "u32 \<Rightarrow> u32 \<Rightarrow> u32" where
  "MAX_c x y = (if x > y then x else y)"

definition PACK :: "u32 \<Rightarrow> u32 \<Rightarrow> u32" where
  "PACK sz alloc = sz OR alloc"

definition GET :: "memory \<Rightarrow> u32 \<Rightarrow> u32" where
  "GET m p = load32 m p"

definition PUT :: "u32 \<Rightarrow> u32 \<Rightarrow> 'a memsys_scheme \<Rightarrow> 'a memsys_scheme" where
  "PUT p val s = s\<lparr>mem := store32 (mem s) p val\<rparr>"

definition GET_SIZE :: "memory \<Rightarrow> u32 \<Rightarrow> u32" where
  "GET_SIZE m p = GET m p AND NOT 7"

definition GET_ALLOC :: "memory \<Rightarrow> u32 \<Rightarrow> u32" where
  "GET_ALLOC m p = GET m p AND 1"

definition HDRP :: "u32 \<Rightarrow> u32" where
  "HDRP bp = bp - WSIZE"

definition FTRP :: "memory \<Rightarrow> u32 \<Rightarrow> u32" where
  "FTRP m bp = bp + GET_SIZE m (HDRP bp) - DSIZE"

definition NEXT_BLKP :: "memory \<Rightarrow> u32 \<Rightarrow> u32" where
  "NEXT_BLKP m bp = bp + GET_SIZE m (bp - WSIZE)"

definition PREV_BLKP :: "memory \<Rightarrow> u32 \<Rightarrow> u32" where
  "PREV_BLKP m bp = bp - GET_SIZE m (bp - DSIZE)"

text \<open>
  The block size for a request, as \<open>mm_malloc\<close> of both files and \<open>mm_realloc\<close> of \<^verbatim>\<open>mm.c\<close> compute
  it: the sum is a \<open>size_t\<close> and wraps around.
\<close>

definition adjusted_size :: "u32 \<Rightarrow> u32" where
  "adjusted_size sz =
     (if sz \<le> DSIZE then DSIZE + OVERHEAD
      else DSIZE * ((sz + OVERHEAD + (DSIZE - 1)) div DSIZE))"

lemmas mm_constants = WSIZE_def DSIZE_def OVERHEAD_def MINIMUM_def

lemma CHUNKSIZE_eq: "CHUNKSIZE = 4096"
  by (simp add: CHUNKSIZE_def push_bit_eq_mult)

lemma PUT_fields [simp]:
  "mem (PUT p v s) = store32 (mem s) p v"
  "mem_start_brk (PUT p v s) = mem_start_brk s" "mem_brk (PUT p v s) = mem_brk s"
  "mem_max_addr (PUT p v s) = mem_max_addr s" "mem_errno (PUT p v s) = mem_errno s"
  "mem_stderr (PUT p v s) = mem_stderr s"
  by (simp_all add: PUT_def)

lemma arena_PUT [simp]: "arena (PUT p v s) lo u = arena s lo u"
  by (simp add: arena_def)

end
