(* ===== verification/Mm.thy ===== *)
theory Mm
  imports Mm_Macros
begin

text \<open>
  The allocator of \<^verbatim>\<open>malloclab-handout2/mm.c\<close>: an explicit free list, first fit, boundary tag
  coalescing. The state is that of the memory system with the file's two static pointers. A block
  is named by its block pointer, the address after its header. Each function is a definition of
  the same name on this state, its stores in the order of the code; a pointer result is a 32-bit
  address, 0 for \<open>NULL\<close>.
\<close>

record mm = memsys +
  heap_listp :: u32
  free_listp :: u32

section \<open>The free list\<close>

text \<open>The fields of \<open>struct pointers\<close>, overlaid on the first two words of a free block.\<close>

definition prev_of :: "memory \<Rightarrow> u32 \<Rightarrow> u32" where "prev_of m p = GET m p"
definition next_of :: "memory \<Rightarrow> u32 \<Rightarrow> u32" where "next_of m p = GET m (p + WSIZE)"
definition set_prev :: "u32 \<Rightarrow> u32 \<Rightarrow> mm \<Rightarrow> mm" where "set_prev p v s = PUT p v s"
definition set_next :: "u32 \<Rightarrow> u32 \<Rightarrow> mm \<Rightarrow> mm" where "set_next p v s = PUT (p + WSIZE) v s"

definition insertBlock :: "u32 \<Rightarrow> mm \<Rightarrow> mm" where
  "insertBlock bp s =
     (if free_listp s = 0 then
        let s1 = s\<lparr>free_listp := bp\<rparr>;
            p = free_listp s1;
            s2 = set_prev p 0 s1
        in set_next p 0 s2
      else
        let p = free_listp s;
            s1 = set_prev p bp s;
            s2 = set_prev bp 0 s1;
            s3 = set_next bp p s2
        in s3\<lparr>free_listp := bp\<rparr>)"

definition removeBlock :: "u32 \<Rightarrow> mm \<Rightarrow> mm" where
  "removeBlock p s =
     (let s1 = (if next_of (mem s) p \<noteq> 0
                then set_prev (next_of (mem s) p) (prev_of (mem s) p) s else s)
      in if prev_of (mem s1) p \<noteq> 0
         then set_next (prev_of (mem s1) p) (next_of (mem s1) p) s1
         else let s2 = s1\<lparr>free_listp := next_of (mem s1) p\<rparr>
              in if next_of (mem s2) p \<noteq> 0 then set_prev (next_of (mem s2) p) 0 s2 else s2)"

section \<open>Coalescing and growing the heap\<close>

definition coalesce :: "u32 \<Rightarrow> mm \<Rightarrow> u32 \<times> mm" where
  "coalesce bp s =
     (let prev_alloc = GET_ALLOC (mem s) (FTRP (mem s) (PREV_BLKP (mem s) bp));
          next_alloc = GET_ALLOC (mem s) (HDRP (NEXT_BLKP (mem s) bp));
          sz = GET_SIZE (mem s) (HDRP bp)
      in if prev_alloc \<noteq> 0 \<and> next_alloc \<noteq> 0 then (bp, insertBlock bp s)
         else if prev_alloc \<noteq> 0 \<and> next_alloc = 0 then
           let s1 = removeBlock (NEXT_BLKP (mem s) bp) s;
               sz = sz + GET_SIZE (mem s1) (HDRP (NEXT_BLKP (mem s1) bp));
               s2 = PUT (HDRP bp) (PACK sz 0) s1;
               s3 = PUT (FTRP (mem s2) bp) (PACK sz 0) s2
           in (bp, insertBlock bp s3)
         else if prev_alloc = 0 \<and> next_alloc \<noteq> 0 then
           let s1 = removeBlock (PREV_BLKP (mem s) bp) s;
               sz = sz + GET_SIZE (mem s1) (HDRP (PREV_BLKP (mem s1) bp));
               s2 = PUT (FTRP (mem s1) bp) (PACK sz 0) s1;
               s3 = PUT (HDRP (PREV_BLKP (mem s2) bp)) (PACK sz 0) s2;
               bp' = PREV_BLKP (mem s3) bp
           in (bp', insertBlock bp' s3)
         else
           let s1 = removeBlock (NEXT_BLKP (mem s) bp) s;
               s2 = removeBlock (PREV_BLKP (mem s1) bp) s1;
               sz = sz + (GET_SIZE (mem s2) (HDRP (PREV_BLKP (mem s2) bp)) +
                              GET_SIZE (mem s2) (FTRP (mem s2) (NEXT_BLKP (mem s2) bp)));
               s3 = PUT (HDRP (PREV_BLKP (mem s2) bp)) (PACK sz 0) s2;
               s4 = PUT (FTRP (mem s3) (NEXT_BLKP (mem s3) bp)) (PACK sz 0) s3;
               bp' = PREV_BLKP (mem s4) bp
           in (bp', insertBlock bp' s4))"

definition extend_heap :: "u32 \<Rightarrow> mm \<Rightarrow> u32 \<times> mm" where
  "extend_heap words s =
     (let sz = (if words mod 2 \<noteq> 0 then (words + 1) * WSIZE else words * WSIZE);
          (bp, s1) = mem_sbrk sz s
      in if bp = - 1 then (0, s1)
         else
           let s2 = PUT (HDRP bp) (PACK sz 0) s1;
               s3 = PUT (FTRP (mem s2) bp) (PACK sz 0) s2;
               s4 = PUT (HDRP (NEXT_BLKP (mem s3) bp)) (PACK 0 1) s3
           in coalesce bp s4)"

text \<open>
  \<open>mm_init\<close> compares the result of \<open>mem_sbrk\<close> with \<open>NULL\<close>, although a failed \<open>mem_sbrk\<close> returns -1.
\<close>

definition mm_init :: "mm \<Rightarrow> int \<times> mm" where
  "mm_init s =
     (let (p, s1) = mem_sbrk (4 * WSIZE) s;
          s2 = s1\<lparr>heap_listp := p\<rparr>
      in if p = 0 then (- 1, s2)
         else
           let s3 = PUT (heap_listp s2) 0 s2;
               s4 = PUT (heap_listp s3 + WSIZE) (PACK OVERHEAD 1) s3;
               s5 = PUT (heap_listp s4 + DSIZE) (PACK OVERHEAD 1) s4;
               s6 = PUT (heap_listp s5 + WSIZE + DSIZE) (PACK 0 1) s5;
               s7 = s6\<lparr>heap_listp := heap_listp s6 + DSIZE, free_listp := 0\<rparr>;
               (bp, s8) = extend_heap (CHUNKSIZE div WSIZE) s7
           in (if bp = 0 then - 1 else 0, s8))"

section \<open>Allocating and freeing\<close>

definition place :: "u32 \<Rightarrow> u32 \<Rightarrow> mm \<Rightarrow> mm" where
  "place bp asize s =
     (let csize = GET_SIZE (mem s) (HDRP bp)
      in if csize - asize \<ge> DSIZE + OVERHEAD then
           let s1 = PUT (HDRP bp) (PACK asize 1) s;
               s2 = PUT (FTRP (mem s1) bp) (PACK asize 1) s1;
               s3 = removeBlock bp s2;
               bp' = NEXT_BLKP (mem s3) bp;
               s4 = PUT (HDRP bp') (PACK (csize - asize) 0) s3;
               s5 = PUT (FTRP (mem s4) bp') (PACK (csize - asize) 0) s4
           in snd (coalesce bp' s5)
         else
           let s1 = PUT (HDRP bp) (PACK csize 1) s;
               s2 = PUT (FTRP (mem s1) bp) (PACK csize 1) s1
           in removeBlock bp s2)"

text \<open>The loop of \<open>find_fit\<close> from the node \<open>p\<close>; \<open>None\<close>: the list is cyclic and nothing on it fits.\<close>

partial_function (option) find_fit_from :: "memory \<Rightarrow> u32 \<Rightarrow> u32 \<Rightarrow> u32 option" where
  "find_fit_from m asize p =
     (if p = 0 then Some 0
      else if GET_ALLOC m (HDRP p) = 0 \<and> asize \<le> GET_SIZE m (HDRP p) then Some p
      else find_fit_from m asize (next_of m p))"

definition find_fit :: "u32 \<Rightarrow> mm \<Rightarrow> u32 option" where
  "find_fit asize s = find_fit_from (mem s) asize (free_listp s)"

definition mm_malloc :: "u32 \<Rightarrow> mm \<Rightarrow> c_stop + (u32 \<times> mm)" where
  "mm_malloc sz s =
     (if sz \<le> 0 then Inr (0, s)
      else
        let asize = adjusted_size sz
        in case find_fit asize s of
             None \<Rightarrow> Inl Diverges
           | Some bp \<Rightarrow>
               if bp \<noteq> 0 then Inr (bp, place bp asize s)
               else
                 let extendsize = MAX_c asize CHUNKSIZE;
                     (bp', s1) = extend_heap (extendsize div WSIZE) s
                 in if bp' = 0 then Inr (0, s1)
                    else Inr (bp', place bp' asize s1))"

definition mm_free :: "u32 \<Rightarrow> mm \<Rightarrow> mm" where
  "mm_free bp s =
     (let sz = GET_SIZE (mem s) (HDRP bp);
          s1 = PUT (HDRP bp) (PACK sz 0) s;
          s2 = PUT (FTRP (mem s1) bp) (PACK sz 0) s1
      in snd (coalesce bp s2))"

end
