(* ===== verification/Mm_Layout.thy ===== *)
theory Mm_Layout
  imports Mm_Macros
begin

text \<open>
  The heap of both allocators as a list of blocks: the abstract state that the pointer code
  maintains. A block is its size in bytes (with the two tags) and its allocated bit; the blocks of
  a heap lie one after the other from the block pointer \<open>base\<close>, and each has its size and bit in
  the word before its block pointer (the header) and in its last word (the footer).
\<close>

type_synonym block = "nat \<times> bool"

definition total :: "block list \<Rightarrow> nat" where
  "total bs = sum_list (map fst bs)"

text \<open>The block pointers of a heap: position, size and allocated bit of each block.\<close>

fun places :: "nat \<Rightarrow> block list \<Rightarrow> (nat \<times> nat \<times> bool) list" where
  "places p [] = []"
| "places p ((n, al) # bs) = (p, n, al) # places (p + n) bs"

definition tag :: "nat \<Rightarrow> bool \<Rightarrow> u32" where
  "tag n al = of_nat (n + of_bool al)"

definition sized :: "block list \<Rightarrow> bool" where
  "sized bs \<longleftrightarrow> (\<forall>(n, al) \<in> set bs. 8 dvd n \<and> 8 \<le> n \<and> (\<not> al \<longrightarrow> 16 \<le> n))"

fun tagged :: "memory \<Rightarrow> nat \<Rightarrow> block list \<Rightarrow> bool" where
  "tagged m p [] \<longleftrightarrow> True"
| "tagged m p ((n, al) # bs) \<longleftrightarrow> load32 m (of_nat (p - 4)) = tag n al
     \<and> load32 m (of_nat (p + n - 8)) = tag n al \<and> tagged m (p + n) bs"

definition free_at :: "nat \<Rightarrow> block list \<Rightarrow> nat set" where
  "free_at base bs = {p. \<exists>n. (p, n, False) \<in> set (places base bs)}"

text \<open>The bytes of a block with its tags.\<close>

definition region :: "nat \<Rightarrow> nat \<Rightarrow> nat set" where
  "region p n = {p - 4..<p + n - 4}"

text \<open>\<open>changes m m' W\<close>: the two memories agree on every byte outside \<open>W\<close>.\<close>

definition changes :: "memory \<Rightarrow> memory \<Rightarrow> nat set \<Rightarrow> bool" where
  "changes m m' W \<longleftrightarrow> (\<forall>b < 2 ^ 32. b \<notin> W \<longrightarrow> m' (of_nat b) = m (of_nat b))"

section \<open>Positions and sizes\<close>

lemma total_simps [simp, layout]:
  "total [] = 0" "total (b # bs) = fst b + total bs" "total (xs @ ys) = total xs + total ys"
  by (simp_all add: total_def)

lemma places_append [simp, layout]:
  "places p (xs @ ys) = places p xs @ places (p + total xs) ys"
  by (induction xs arbitrary: p) (auto simp: add.assoc)

lemma sized_simps [simp, layout]:
  "sized []" "sized (xs @ ys) \<longleftrightarrow> sized xs \<and> sized ys"
  "sized ((n, al) # bs) \<longleftrightarrow> 8 dvd n \<and> 8 \<le> n \<and> (\<not> al \<longrightarrow> 16 \<le> n) \<and> sized bs"
  by (auto simp: sized_def)

lemma tagged_append [simp, layout]:
  "tagged m p (xs @ ys) \<longleftrightarrow> tagged m p xs \<and> tagged m (p + total xs) ys"
  by (induction xs arbitrary: p) (auto simp: add.assoc)

lemma tagged_places:
  "tagged m b bs \<longleftrightarrow> (\<forall>(p, n, al) \<in> set (places b bs).
     load32 m (of_nat (p - 4)) = tag n al \<and> load32 m (of_nat (p + n - 8)) = tag n al)"
  by (induction bs arbitrary: b) (auto split: prod.splits)

lemma free_at_simps [simp, layout]:
  "free_at p [] = {}" "free_at p (xs @ ys) = free_at p xs \<union> free_at (p + total xs) ys"
  "free_at p ((n, al) # bs) = (if al then {} else {p}) \<union> free_at (p + n) bs"
  by (auto simp: free_at_def)

lemma places_range:
  assumes "(p, n, al) \<in> set (places b bs)"
  shows "b \<le> p" "p + n \<le> b + total bs" "(n, al) \<in> set bs"
  using assms by (induction bs arbitrary: b) fastforce+

lemma free_at_range:
  assumes "sized bs" "p \<in> free_at b bs" shows "b \<le> p" "p + 16 \<le> b + total bs"
proof -
  obtain n where "(p, n, False) \<in> set (places b bs)" using assms(2) by (auto simp: free_at_def)
  from places_range[OF this] assms(1) show "b \<le> p" "p + 16 \<le> b + total bs"
    by (auto simp: sized_def)
qed

lemma places_sized:
  assumes "sized bs" "(p, n, al) \<in> set (places b bs)"
  shows "8 dvd n" "8 \<le> n" "\<not> al \<longrightarrow> 16 \<le> n"
  using bspec[OF assms(1)[unfolded sized_def] places_range(3)[OF assms(2)]] by simp_all

lemma total_dvd: "sized bs \<Longrightarrow> 8 dvd total bs"
  by (induction bs) auto

lemma places_dvd:
  assumes "sized bs" "8 dvd b" "(p, n, al) \<in> set (places b bs)" shows "8 dvd p"
  using assms
proof (induction bs arbitrary: b)
  case (Cons x xs)
  obtain k al' where x: "x = (k, al')" by (cases x)
  with Cons.prems have "8 dvd b + k" by (auto intro: dvd_add)
  with Cons.prems Cons.IH[of "b + k"] x show ?case by auto
qed simp

lemma free_at_dvd: "sized bs \<Longrightarrow> 8 dvd b \<Longrightarrow> p \<in> free_at b bs \<Longrightarrow> 8 dvd p"
  using places_dvd by (auto simp: free_at_def)

lemma places_split:
  assumes "(p, c, al) \<in> set (places b bs)" shows "\<exists>xs ys. bs = xs @ (c, al) # ys \<and> p = b + total xs"
  using assms
proof (induction bs arbitrary: b)
  case (Cons u bs)
  obtain k al' where u: "u = (k, al')" by (cases u)
  from Cons.prems u consider "p = b" "u = (c, al)" | "(p, c, al) \<in> set (places (b + k) bs)" by auto
  then show ?case
  proof cases
    case 2
    from Cons.IH[OF this] obtain xs ys where "bs = xs @ (c, al) # ys" "p = b + k + total xs" by blast
    then have "u # bs = (u # xs) @ (c, al) # ys" "p = b + total (u # xs)" using u by simp_all
    then show ?thesis by blast
  qed force
qed simp

text \<open>Two blocks of a heap are the same block or apart.\<close>

lemma places_apart:
  assumes "sized bs" "(p, n, a) \<in> set (places b bs)" "(q, m, c) \<in> set (places b bs)"
  shows "(p = q \<and> n = m \<and> a = c) \<or> p + n \<le> q \<or> q + m \<le> p"
  using assms
proof (induction bs arbitrary: b)
  case (Cons x xs)
  obtain k al where x: "x = (k, al)" by (cases x)
  from Cons.prems x have "sized xs" by simp
  then show ?case using Cons.prems x Cons.IH[of "b + k"] places_range(1)[of _ _ _ "b + k" xs]
    by (auto dest: places_range(1))
qed simp

section \<open>Tags\<close>

lemma PACK_tag [layout]:
  assumes "8 dvd n" shows "PACK (of_nat n) 1 = tag n True" "PACK (of_nat n) 0 = tag n False"
proof -
  have "even (of_nat n :: u32)"
  proof -
    from assms have "even n" using dvd_trans[of 2 8 n] by simp
    then obtain k where "n = 2 * k" by (rule evenE)
    then show ?thesis by simp
  qed
  then have "(of_nat n :: u32) OR 1 = of_nat n + 1" by (simp add: or_one_eq)
  then show "PACK (of_nat n) 1 = tag n True" by (simp add: PACK_def tag_def add.commute)
  show "PACK (of_nat n) 0 = tag n False" by (simp add: PACK_def tag_def)
qed

lemma GET_SIZE_tag [layout]:
  assumes "load32 m a = tag n al" "8 dvd n" "n < 2 ^ 32 - 1"
  shows "GET_SIZE m a = of_nat n"
proof -
  have "(n + of_bool al) div 8 = n div 8" using assms(2) by auto
  moreover have "n + of_bool al < 2 ^ 32" using assms(3) by (cases al) auto
  ultimately show ?thesis
    using assms and_not_7_of_nat[of "n + of_bool al"] unfolding GET_SIZE_def GET_def tag_def
    by (simp only:) (simp add: assms(2))
qed

lemma GET_ALLOC_tag [layout]:
  assumes "load32 m a = tag n al" "8 dvd n"
  shows "GET_ALLOC m a = of_bool al"
proof -
  have "(n + of_bool al) mod 2 = of_bool al"
    using assms(2) dvd_trans[of 2 8 n] by (cases al) (auto simp: mod_2_eq_odd)
  then show ?thesis
    using assms and_1_of_nat[of "n + of_bool al"] unfolding GET_ALLOC_def GET_def tag_def
    by (simp only:) (cases al; simp)
qed

section \<open>Memory changes\<close>

lemma changes_refl [simp, intro]: "changes m m W"
  by (simp add: changes_def)

lemma changes_trans: "changes m m' W \<Longrightarrow> changes m' m'' W' \<Longrightarrow> changes m m'' (W \<union> W')"
  by (auto simp: changes_def)

lemma changes_mono: "changes m m' W \<Longrightarrow> W \<subseteq> W' \<Longrightarrow> changes m m' W'"
  by (auto simp: changes_def)

lemma changes_store32:
  assumes "4 dvd a" "a < 2 ^ 32" shows "changes m (store32 m (of_nat a) v) {a..<a + 4}"
  unfolding changes_def
proof (intro allI impI)
  fix b :: nat assume "b < 2 ^ 32" "b \<notin> {a..<a + 4}"
  moreover from this have "b < a \<or> a + 3 < b" by auto
  ultimately show "store32 m (of_nat a) v (of_nat b) = m (of_nat b)"
    using aligned_word_end[OF assms] by (intro store32_byte_other) auto
qed

lemma changes_load32:
  assumes "changes m m' W" "4 dvd a" "a < 2 ^ 32" "{a..<a + 4} \<inter> W = {}"
  shows "load32 m' (of_nat a) = load32 m (of_nat a)"
proof (rule load32_cong)
  show e: "a + 3 < 2 ^ 32" using assms aligned_word_end by blast
  fix c assume "a \<le> c" "c \<le> a + 3"
  then show "m' (of_nat c) = m (of_nat c)" using assms(1,4) e
    by (auto simp: changes_def disjoint_iff)
qed

lemma changes_tagged:
  assumes "changes m m' W" "tagged m b bs" "sized bs" "8 dvd b" "4 \<le> b" "b + total bs < 2 ^ 32"
    and "\<And>p n al. (p, n, al) \<in> set (places b bs) \<Longrightarrow>
      {p - 4..<p} \<inter> W = {} \<and> {p + n - 8..<p + n - 4} \<inter> W = {}"
  shows "tagged m' b bs"
  unfolding tagged_places
proof (intro ballI, clarify)
  fix p n al assume x: "(p, n, al) \<in> set (places b bs)"
  note r = places_range[OF x] and z = places_sized[OF assms(3) x]
  have p: "8 dvd p" using places_dvd[OF assms(3,4) x] .
  have "8 dvd p + n - 8" using p z(1) by (intro dvd_diff_nat dvd_add) auto
  with p have d: "4 dvd (p - 4)" "4 dvd (p + n - 8)" by (auto intro: dvd_8_diff_4 dvd_8_imp_4)
  have w: "{p - 4..<p - 4 + 4} = {p - 4..<p}" "{p + n - 8..<p + n - 8 + 4} = {p + n - 8..<p + n - 4}"
    using r(1) z(2) assms(5) by auto
  have "load32 m' (of_nat (p - 4)) = load32 m (of_nat (p - 4))"
    "load32 m' (of_nat (p + n - 8)) = load32 m (of_nat (p + n - 8))"
    using changes_load32[OF assms(1) d(1)] changes_load32[OF assms(1) d(2)] assms(6) r
      assms(7)[OF x] w by simp_all
  with x assms(2) show "load32 m' (of_nat (p - 4)) = tag n al \<and> load32 m' (of_nat (p + n - 8)) = tag n al"
    by (auto simp: tagged_places)
qed

definition same_bytes :: "memory \<Rightarrow> memory \<Rightarrow> nat set \<Rightarrow> bool" where
  "same_bytes m m' B \<longleftrightarrow> (\<forall>b \<in> B. m' (of_nat b) = m (of_nat b))"

lemma same_bytes_trans:
  "same_bytes m m' B \<Longrightarrow> same_bytes m' m'' C \<Longrightarrow> B \<subseteq> C \<Longrightarrow> same_bytes m m'' B"
  by (auto simp: same_bytes_def)

lemma same_bytes_mono: "same_bytes m m' C \<Longrightarrow> B \<subseteq> C \<Longrightarrow> same_bytes m m' B"
  by (auto simp: same_bytes_def)

lemma changes_same_bytes:
  "changes m m' W \<Longrightarrow> B \<inter> W = {} \<Longrightarrow> \<forall>b \<in> B. b < 2 ^ 32 \<Longrightarrow> same_bytes m m' B"
  by (auto simp: changes_def same_bytes_def)

end
