(* ===== verification/Mm_Links.thy ===== *)
theory Mm_Links
  imports Mm Mm_Layout
begin

text \<open>
  The doubly linked free list of \<^verbatim>\<open>mm.c\<close> as a list of block pointers: \<open>links m pv fl nx\<close> says that
  the nodes \<open>fl\<close> are linked in this order in the memory, the first one's \<open>prev\<close> being \<open>pv\<close> and the
  last one's \<open>next\<close> being \<open>nx\<close>; the whole list has both \<open>NULL\<close>. The lemmas say what \<open>insertBlock\<close>
  and \<open>removeBlock\<close> do to the list and which bytes they change.
\<close>

definition first_or :: "nat list \<Rightarrow> nat \<Rightarrow> nat" where
  "first_or xs d = (case xs of [] \<Rightarrow> d | x # _ \<Rightarrow> x)"

definition last_or :: "nat list \<Rightarrow> nat \<Rightarrow> nat" where
  "last_or xs d = (if xs = [] then d else last xs)"

fun links :: "memory \<Rightarrow> nat \<Rightarrow> nat list \<Rightarrow> nat \<Rightarrow> bool" where
  "links m pv [] nx \<longleftrightarrow> True"
| "links m pv (x # xs) nx \<longleftrightarrow> load32 m (of_nat x) = of_nat pv
     \<and> load32 m (of_nat (x + 4)) = of_nat (first_or xs nx) \<and> links m x xs nx"

lemma first_or_simps [simp]: "first_or [] d = d" "first_or (x # xs) d = x"
  by (simp_all add: first_or_def)

lemma last_or_simps [simp]: "last_or [] d = d" "last_or (xs @ [x]) d = x" "last_or (x # xs) d = last_or xs x"
  by (simp_all add: last_or_def)

lemma links_append [simp]:
  "links m pv (xs @ ys) nx \<longleftrightarrow> links m pv xs (first_or ys nx) \<and> links m (last_or xs pv) ys nx"
  by (induction xs arbitrary: pv) (auto split: list.splits simp: first_or_def)

text \<open>A node's pointer is not \<open>NULL\<close>, aligned, and its two words are inside the address space.\<close>

definition node :: "nat \<Rightarrow> bool" where
  "node x \<longleftrightarrow> 0 < x \<and> 8 dvd x \<and> x + 8 \<le> 2 ^ 32"

definition link_bytes :: "nat list \<Rightarrow> nat set" where
  "link_bytes fl = (\<Union>x \<in> set fl. {x..<x + 8})"

lemma link_bytes_simps [simp]:
  "link_bytes [] = {}" "link_bytes (x # xs) = {x..<x + 8} \<union> link_bytes xs"
  "link_bytes (xs @ ys) = link_bytes xs \<union> link_bytes ys"
  by (auto simp: link_bytes_def)

lemma nodeD:
  assumes "node x" shows "0 < x" "x < 2 ^ 32" "x + 4 < 2 ^ 32" "4 dvd x" "4 dvd x + 4" "8 dvd x"
  using assms dvd_8_imp_4[of x] by (auto simp: node_def)

lemma node_of_nat_neq_0: "node x \<Longrightarrow> (of_nat x :: u32) \<noteq> 0"
  using nodeD of_nat_eq_0_iff_u32 by simp

lemma node_apart:
  assumes "node x" "node y" "x \<noteq> y" shows "x + 8 \<le> y \<or> y + 8 \<le> x"
proof -
  obtain j k where jk: "x = 8 * j" "y = 8 * k" using assms(1,2) unfolding node_def dvd_def by auto
  with assms(3) have "j < k \<or> k < j" by auto
  with jk show ?thesis by auto
qed

lemma links_changes:
  assumes "links m pv xs nx" "changes m m' W" "W \<inter> link_bytes xs = {}" "\<forall>x \<in> set xs. node x"
  shows "links m' pv xs nx"
  using assms
proof (induction xs arbitrary: pv)
  case (Cons x xs)
  then have "node x" and d: "W \<inter> {x..<x + 8} = {}" by auto
  note n = nodeD[OF this(1)]
  have "load32 m' (of_nat x) = load32 m (of_nat x)"
    "load32 m' (of_nat (x + 4)) = load32 m (of_nat (x + 4))"
    using d n by (auto intro!: changes_load32[OF Cons.prems(2)])
  with Cons show ?case by auto
qed simp

lemma link_bytes_disjoint:
  assumes "\<forall>x \<in> set xs. node x" "node y" "y \<notin> set xs" "A \<subseteq> {y..<y + 8}"
  shows "A \<inter> link_bytes xs = {}"
proof -
  have "x + 8 \<le> y \<or> y + 8 \<le> x" if "x \<in> set xs" for x
    using node_apart[of x y] assms that by auto
  with assms(4) show ?thesis by (fastforce simp: link_bytes_def)
qed

lemma link_bytes_apart:
  assumes "\<forall>x \<in> set xs \<union> set ys. node x" "set xs \<inter> set ys = {}"
  shows "link_bytes xs \<inter> link_bytes ys = {}"
proof -
  have "{x..<x + 8} \<inter> link_bytes ys = {}" if "x \<in> set xs" for x
    using assms that by (intro link_bytes_disjoint) auto
  then show ?thesis by (auto simp: link_bytes_def)
qed

lemma changes_store_prev: "node x \<Longrightarrow> changes m (store32 m (of_nat x) v) {x..<x + 4}"
  using nodeD[of x] by (intro changes_store32) auto

lemma changes_store_next: "node x \<Longrightarrow> changes m (store32 m (of_nat (x + 4)) v) {x + 4..<x + 8}"
  using nodeD[of x] changes_store32[of "x + 4" m v] by (simp add: add.commute)

lemma links_store_prev:
  assumes "links m pv (x # xs) nx" "\<forall>y \<in> set (x # xs). node y" "distinct (x # xs)"
  shows "links (store32 m (of_nat x) (of_nat pv')) pv' (x # xs) nx"
proof -
  let ?m = "store32 m (of_nat x) (of_nat pv')"
  have n: "node x" using assms(2) by simp
  have "links ?m x xs nx"
    using assms n by (intro links_changes[OF _ changes_store_prev[OF n]] link_bytes_disjoint) auto
  moreover have "load32 ?m (of_nat (x + 4)) = load32 m (of_nat (x + 4))"
    using nodeD[OF n] by (subst load32_store32) auto
  ultimately show ?thesis using assms(1) by simp
qed

lemma links_store_next:
  assumes "links m pv (xs @ [x]) nx" "\<forall>y \<in> set (xs @ [x]). node y" "distinct (xs @ [x])"
  shows "links (store32 m (of_nat (x + 4)) (of_nat nx')) pv (xs @ [x]) nx'"
proof -
  let ?m = "store32 m (of_nat (x + 4)) (of_nat nx')"
  have n: "node x" using assms(2) by simp
  have "links ?m pv xs x"
    using assms n by (intro links_changes[OF _ changes_store_next[OF n]] link_bytes_disjoint) auto
  moreover have "load32 ?m (of_nat x) = load32 m (of_nat x)"
    using nodeD[OF n] by (subst load32_store32) auto
  ultimately show ?thesis using assms(1) by simp
qed

section \<open>Frames of the list operations\<close>

lemma set_link_fields [simp]:
  "mem (set_prev p v s) = store32 (mem s) p v" "mem (set_next p v s) = store32 (mem s) (p + 4) v"
  "mem_start_brk (set_prev p v s) = mem_start_brk s" "mem_start_brk (set_next p v s) = mem_start_brk s"
  "mem_brk (set_prev p v s) = mem_brk s" "mem_brk (set_next p v s) = mem_brk s"
  "mem_max_addr (set_prev p v s) = mem_max_addr s" "mem_max_addr (set_next p v s) = mem_max_addr s"
  "heap_listp (set_prev p v s) = heap_listp s" "heap_listp (set_next p v s) = heap_listp s"
  "free_listp (set_prev p v s) = free_listp s" "free_listp (set_next p v s) = free_listp s"
  by (simp_all add: set_prev_def set_next_def PUT_def WSIZE_def)

lemma PUT_list_fields [simp]:
  "heap_listp (PUT p v s) = heap_listp s" "free_listp (PUT p v s) = free_listp s"
  by (simp_all add: PUT_def)

lemma next_of_eq: "next_of m (of_nat p) = load32 m (of_nat (p + 4))"
  by (simp add: next_of_def GET_def WSIZE_def)

lemma prev_of_eq: "prev_of m p = load32 m p"
  by (simp add: prev_of_def GET_def)

lemma list_op_fields [simp]:
  "mem_start_brk (insertBlock p s) = mem_start_brk s" "mem_start_brk (removeBlock p s) = mem_start_brk s"
  "mem_brk (insertBlock p s) = mem_brk s" "mem_brk (removeBlock p s) = mem_brk s"
  "mem_max_addr (insertBlock p s) = mem_max_addr s" "mem_max_addr (removeBlock p s) = mem_max_addr s"
  "heap_listp (insertBlock p s) = heap_listp s" "heap_listp (removeBlock p s) = heap_listp s"
  by (simp_all add: insertBlock_def removeBlock_def Let_def)

section \<open>Inserting and removing a node\<close>

definition free_list :: "mm \<Rightarrow> nat list \<Rightarrow> bool" where
  "free_list s fl \<longleftrightarrow> (\<forall>x \<in> set fl. node x) \<and> distinct fl \<and> links (mem s) 0 fl 0
     \<and> free_listp s = of_nat (first_or fl 0)"

lemma insertBlock_links:
  assumes fl: "free_list s fl" and p: "node p" "p \<notin> set fl"
  shows "free_list (insertBlock (of_nat p) s) (p # fl)"
    and "changes (mem s) (mem (insertBlock (of_nat p) s)) (link_bytes (p # fl))"
proof -
  show "free_list (insertBlock (of_nat p) s) (p # fl)"
  proof (cases fl)
    case Nil
    then show ?thesis using fl p nodeD[OF p(1)]
      by (simp add: free_list_def insertBlock_def Let_def load32_store32)
  next
    case (Cons x xs)
    then have x: "node x" "x \<noteq> p" using fl p by (auto simp: free_list_def)
    let ?m1 = "store32 (mem s) (of_nat x) (of_nat p)"
    let ?m3 = "store32 (store32 ?m1 (of_nat p) 0) (of_nat (p + 4)) (of_nat x)"
    have "links ?m1 p (x # xs) 0"
      using fl Cons by (intro links_store_prev[where pv = 0]) (auto simp: free_list_def)
    with Cons have "links ?m1 p fl 0" by simp
    then have "links ?m3 p fl 0" using fl p
      by (intro links_changes[OF _ changes_trans[OF changes_store_prev changes_store_next]]
          link_bytes_disjoint[of _ p]) (auto simp: free_list_def)
    moreover have "load32 ?m3 (of_nat p) = 0" "load32 ?m3 (of_nat (p + 4)) = of_nat x"
      using nodeD[OF p(1)] by (simp_all add: load32_store32)
    ultimately show ?thesis using fl p Cons node_of_nat_neq_0[OF x(1)]
      by (simp add: free_list_def insertBlock_def Let_def)
  qed
  show "changes (mem s) (mem (insertBlock (of_nat p) s)) (link_bytes (p # fl))"
  proof (cases fl)
    case Nil
    then show ?thesis using fl p
      by (auto simp: free_list_def insertBlock_def Let_def
          intro!: changes_mono[OF changes_trans[OF changes_store_prev changes_store_next]])
  next
    case (Cons x xs)
    then have x: "node x" using fl by (simp add: free_list_def)
    then show ?thesis using fl p Cons node_of_nat_neq_0[OF x]
      by (auto simp: free_list_def insertBlock_def Let_def intro!: changes_mono[OF
          changes_trans[OF changes_trans[OF changes_store_prev changes_store_prev] changes_store_next]])
  qed
qed

text \<open>
  The memory after the removal of the node between \<open>us\<close> and \<open>vs\<close>: the successor's \<open>prev\<close> and then
  the predecessor's \<open>next\<close>, or the list's head, are redirected.
\<close>

definition unlinked :: "memory \<Rightarrow> nat list \<Rightarrow> nat list \<Rightarrow> memory" where
  "unlinked m us vs =
     (let m1 = (if vs = [] then m else store32 m (of_nat (hd vs)) (of_nat (last_or us 0)))
      in if us = [] then m1 else store32 m1 (of_nat (last us + 4)) (of_nat (first_or vs 0)))"

lemma unlinked_links:
  assumes n: "\<forall>x \<in> set (us @ p # vs). node x" and d: "distinct (us @ p # vs)"
    and l: "links m 0 (us @ p # vs) 0"
  shows "links (unlinked m us vs) 0 (us @ vs) 0"
    and "changes m (unlinked m us vs) (link_bytes (us @ vs))"
proof -
  define m1 where "m1 = (if vs = [] then m else store32 m (of_nat (hd vs)) (of_nat (last_or us 0)))"
  have c1: "changes m m1 (link_bytes vs)"
  proof (cases vs)
    case (Cons v ws)
    with n have "node v" by simp
    with Cons show ?thesis
      by (auto simp: m1_def intro!: changes_mono[OF changes_store_prev])
  qed (simp add: m1_def)
  have l1: "links m1 0 us p"
    using n d l link_bytes_apart[of vs us] by (intro links_changes[OF _ c1]) auto
  have l2: "links m1 (last_or us 0) vs 0"
  proof (cases vs)
    case (Cons v ws)
    have "links (store32 m (of_nat v) (of_nat (last_or us 0))) (last_or us 0) (v # ws) 0"
      using n d l Cons by (intro links_store_prev[where pv = p]) auto
    with Cons show ?thesis by (simp add: m1_def)
  qed simp
  have "links (unlinked m us vs) 0 (us @ vs) 0 \<and> changes m (unlinked m us vs) (link_bytes (us @ vs))"
  proof (cases us rule: rev_cases)
    case Nil
    with l2 c1 show ?thesis by (cases vs) (simp_all add: unlinked_def m1_def)
  next
    case (snoc ws u)
    let ?m2 = "store32 m1 (of_nat (u + 4)) (of_nat (first_or vs 0))"
    have m2: "unlinked m us vs = ?m2" using snoc by (simp add: unlinked_def m1_def)
    have u: "node u" using n snoc by simp
    have "links ?m2 0 us (first_or vs 0)" unfolding snoc
      using n d l1 snoc by (intro links_store_next[where nx = p]) auto
    moreover have "links ?m2 (last_or us 0) vs 0"
      using n d snoc by (intro links_changes[OF l2 changes_store_next[OF u]] link_bytes_disjoint) auto
    moreover have "changes m ?m2 (link_bytes (us @ vs))"
      using snoc by (auto intro!: changes_mono[OF changes_trans[OF c1 changes_store_next[OF u]]])
    ultimately show ?thesis using m2 by simp
  qed
  then show "links (unlinked m us vs) 0 (us @ vs) 0"
    "changes m (unlinked m us vs) (link_bytes (us @ vs))" by auto
qed

lemma removeBlock_mem:
  assumes fl: "free_list s (us @ p # vs)"
  shows "mem (removeBlock (of_nat p) s) = unlinked (mem s) us vs"
    and "free_listp (removeBlock (of_nat p) s) = of_nat (first_or (us @ vs) 0)"
proof -
  from fl have n: "\<forall>x \<in> set (us @ p # vs). node x" and d: "distinct (us @ p # vs)"
    and lp: "load32 (mem s) (of_nat p) = of_nat (last_or us 0)"
    and ln: "load32 (mem s) (of_nat (p + 4)) = of_nat (first_or vs 0)"
    and h: "free_listp s = of_nat (first_or (us @ p # vs) 0)"
    by (auto simp: free_list_def)
  have keep: "load32 (store32 m (of_nat v) w) (of_nat p) = load32 m (of_nat p)"
    "load32 (store32 m (of_nat v) w) (of_nat (p + 4)) = load32 m (of_nat (p + 4))"
    if "v \<in> set vs" for m v w
    using that n d nodeD[of p] nodeD[of v] node_apart[of p v] by (auto simp: load32_store32)
  have nz: "(of_nat x :: u32) \<noteq> 0" if "x \<in> set us \<union> set vs" for x
    using that n node_of_nat_neq_0 by auto
  have twice: "store32 (store32 m a w) a w = store32 m a w" for m a w
    by (auto simp: store32_def fun_eq_iff)
  note defs = removeBlock_def Let_def next_of_eq prev_of_eq unlinked_def
  have "mem (removeBlock (of_nat p) s) = unlinked (mem s) us vs
    \<and> free_listp (removeBlock (of_nat p) s) = of_nat (first_or (us @ vs) 0)"
  proof (cases us rule: rev_cases)
    case Nil
    with lp ln show ?thesis by (cases vs) (simp_all add: defs keep nz twice)
  next
    case (snoc ws u)
    moreover have "first_or (ws @ u # xs) 0 = first_or ws u" for xs by (cases ws) simp_all
    ultimately show ?thesis using lp ln h by (cases vs) (simp_all add: defs keep nz)
  qed
  then show "mem (removeBlock (of_nat p) s) = unlinked (mem s) us vs"
    "free_listp (removeBlock (of_nat p) s) = of_nat (first_or (us @ vs) 0)" by auto
qed

lemma removeBlock_links:
  assumes fl: "free_list s (us @ p # vs)"
  shows "free_list (removeBlock (of_nat p) s) (us @ vs)"
    and "changes (mem s) (mem (removeBlock (of_nat p) s)) (link_bytes (us @ vs))"
  using fl unlinked_links[of us p vs "mem s"] removeBlock_mem[OF fl]
  by (auto simp: free_list_def)

end
