(* ===== verification/Mm_Heap.thy ===== *)
theory Mm_Heap
  imports Mm_Links
begin

text \<open>
  The heap of \<^verbatim>\<open>mm.c\<close> as blocks and free list together. \<open>heap_raw m0 K s base hi bs fl\<close>: in state
  \<open>s\<close> the blocks \<open>bs\<close> are laid out from \<open>base\<close>, followed by the epilogue header, the nodes \<open>fl\<close> are
  linked as the free list and are blocks of at least 16 bytes, and every byte of \<open>K\<close> still has its
  value in \<open>m0\<close>. \<open>K\<close> stands for the bytes the allocator must not write: payloads of allocated
  blocks and whatever lies outside the region, which ends at \<open>hi\<close>.
\<close>

definition cell :: "nat set \<Rightarrow> nat \<Rightarrow> nat \<Rightarrow> bool \<Rightarrow> nat set" where
  "cell L p n al = {p - 4..<p} \<union> {p + n - 8..<p + n - 4} \<union> (if al \<and> p \<notin> L then {} else region p n)"

definition writable :: "nat \<Rightarrow> nat \<Rightarrow> block list \<Rightarrow> nat set \<Rightarrow> nat set" where
  "writable base hi bs L = {base + total bs - 4..<hi} \<union> (\<Union>(p, n, al) \<in> set (places base bs). cell L p n al)"

definition kept :: "memory \<Rightarrow> nat set \<Rightarrow> memory \<Rightarrow> nat set \<Rightarrow> bool" where
  "kept m0 K m W \<longleftrightarrow> K \<inter> W = {} \<and> (\<forall>b \<in> K. b < 2 ^ 32 \<and> m (of_nat b) = m0 (of_nat b))"

definition linkable :: "nat \<Rightarrow> block list \<Rightarrow> nat set" where
  "linkable base bs = {p. \<exists>n al. (p, n, al) \<in> set (places base bs) \<and> 16 \<le> n}"

lemma linkableE:
  assumes "p \<in> linkable base bs"
  obtains n al where "(p, n, al) \<in> set (places base bs)" "16 \<le> n"
  using assms by (auto simp: linkable_def)

definition heap_raw :: "memory \<Rightarrow> nat set \<Rightarrow> mm \<Rightarrow> nat \<Rightarrow> nat \<Rightarrow> block list \<Rightarrow> nat list \<Rightarrow> bool" where
  "heap_raw m0 K s base hi bs fl \<longleftrightarrow>
     8 dvd base \<and> 16 \<le> base \<and> base + total bs \<le> hi \<and> hi < 2 ^ 32 \<and> sized bs
     \<and> tagged (mem s) base bs \<and> load32 (mem s) (of_nat (base + total bs - 4)) = tag 0 True
     \<and> free_list s fl \<and> set fl \<subseteq> linkable base bs
     \<and> kept m0 K (mem s) (writable base hi bs (set fl))"

lemma heap_rawD:
  assumes "heap_raw m0 K s base hi bs fl"
  shows "8 dvd base" "16 \<le> base" "base + total bs \<le> hi" "hi < 2 ^ 32" "sized bs"
    "tagged (mem s) base bs" "load32 (mem s) (of_nat (base + total bs - 4)) = tag 0 True"
    "free_list s fl" "set fl \<subseteq> linkable base bs"
    "kept m0 K (mem s) (writable base hi bs (set fl))"
  using assms by (auto simp: heap_raw_def)

section \<open>Reading a block through its tags\<close>

definition block_at :: "memory \<Rightarrow> nat \<Rightarrow> nat \<Rightarrow> bool \<Rightarrow> bool" where
  "block_at m p n al \<longleftrightarrow> 16 \<le> p \<and> 8 \<le> n \<and> 8 dvd p \<and> 8 dvd n \<and> p + n < 2 ^ 32
     \<and> load32 m (of_nat (p - 4)) = tag n al \<and> load32 m (of_nat (p + n - 8)) = tag n al"

lemma HDRP_of_nat [simp]: "4 \<le> p \<Longrightarrow> HDRP (of_nat p) = of_nat (p - 4)"
  by (simp add: HDRP_def WSIZE_def)

lemma block_at_reads:
  assumes "block_at m p n al"
  shows "GET_SIZE m (of_nat (p - 4)) = of_nat n" "GET_ALLOC m (of_nat (p - 4)) = of_bool al"
    "GET_SIZE m (of_nat (p + n - 8)) = of_nat n" "GET_ALLOC m (of_nat (p + n - 8)) = of_bool al"
    "FTRP m (of_nat p) = of_nat (p + n - 8)" "NEXT_BLKP m (of_nat p) = of_nat (p + n)"
    "PREV_BLKP m (of_nat (p + n)) = of_nat p"
proof -
  from assms have h: "load32 m (of_nat (p - 4)) = tag n al" "load32 m (of_nat (p + n - 8)) = tag n al"
    and b: "16 \<le> p" "8 \<le> n" "8 dvd n" "p + n < 2 ^ 32" "n < 2 ^ 32 - 1"
    by (auto simp: block_at_def)
  show g: "GET_SIZE m (of_nat (p - 4)) = of_nat n" "GET_ALLOC m (of_nat (p - 4)) = of_bool al"
    "GET_SIZE m (of_nat (p + n - 8)) = of_nat n" "GET_ALLOC m (of_nat (p + n - 8)) = of_bool al"
    using GET_SIZE_tag[OF h(1) b(3,5)] GET_SIZE_tag[OF h(2) b(3,5)]
      GET_ALLOC_tag[OF h(1) b(3)] GET_ALLOC_tag[OF h(2) b(3)] by auto
  show "FTRP m (of_nat p) = of_nat (p + n - 8)" "NEXT_BLKP m (of_nat p) = of_nat (p + n)"
    "PREV_BLKP m (of_nat (p + n)) = of_nat p"
    using b g by (simp_all add: FTRP_def NEXT_BLKP_def PREV_BLKP_def WSIZE_def DSIZE_def)
qed

lemma block_at_changes:
  assumes "block_at m p n al" "changes m m' W"
    "{p - 4..<p} \<inter> W = {}" "{p + n - 8..<p + n - 4} \<inter> W = {}"
  shows "block_at m' p n al"
proof -
  from assms(1) have b: "16 \<le> p" "8 \<le> n" "8 dvd p" "8 dvd n" "p + n < 2 ^ 32"
    by (auto simp: block_at_def)
  have "8 dvd p + n - 8" using b by (intro dvd_diff_nat dvd_add) auto
  then have d: "4 dvd p - 4" "4 dvd p + n - 8" using b by (auto intro: dvd_8_diff_4 dvd_8_imp_4)
  have "load32 m' (of_nat (p - 4)) = load32 m (of_nat (p - 4))"
    "load32 m' (of_nat (p + n - 8)) = load32 m (of_nat (p + n - 8))"
    using b assms(3,4) changes_load32[OF assms(2) d(1)] changes_load32[OF assms(2) d(2)] by auto
  with assms(1) show ?thesis by (simp add: block_at_def)
qed

lemma heap_raw_block_at:
  assumes "heap_raw m0 K s base hi bs fl" "(p, n, al) \<in> set (places base bs)"
  shows "block_at (mem s) p n al"
proof -
  note d = heap_rawD[OF assms(1)] and r = places_range[OF assms(2)]
  have "8 dvd p" using places_dvd[OF d(5,1) assms(2)] .
  moreover have "8 dvd n" "8 \<le> n" using places_sized[OF d(5) assms(2)] by auto
  moreover have "load32 (mem s) (of_nat (p - 4)) = tag n al"
    "load32 (mem s) (of_nat (p + n - 8)) = tag n al"
    using d(6) assms(2) by (auto simp: tagged_places)
  ultimately show ?thesis using d(2,3,4) r by (auto simp: block_at_def)
qed

text \<open>The header after a block is that of the next block, or the epilogue.\<close>

lemma heap_raw_next_alloc:
  assumes "heap_raw m0 K s base hi (xs @ (n, al) # ys) fl" "p = base + total xs"
  shows "GET_ALLOC (mem s) (of_nat (p + n - 4))
    = of_bool (case ys of [] \<Rightarrow> True | (k, c) # _ \<Rightarrow> c)"
proof (cases ys)
  case Nil
  with heap_rawD(7)[OF assms(1)] assms(2) have "load32 (mem s) (of_nat (p + n - 4)) = tag 0 True"
    by (simp add: add.assoc)
  from GET_ALLOC_tag[OF this] Nil show ?thesis by simp
next
  case (Cons y ys')
  obtain k c where y: "y = (k, c)" by (cases y)
  have "(p + n, k, c) \<in> set (places base (xs @ (n, al) # ys))" using Cons y assms(2) by simp
  from block_at_reads(2)[OF heap_raw_block_at[OF assms(1) this]] Cons y show ?thesis by simp
qed

section \<open>Replacing a run of blocks\<close>

text \<open>The tags of a block are disjoint from the links of any node.\<close>

lemma tags_links_disjoint:
  assumes "sized bs" "set fl \<subseteq> linkable base bs" "(q, k, c) \<in> set (places base bs)"
  shows "{q - 4..<q} \<inter> link_bytes fl = {}" "{q + k - 8..<q + k - 4} \<inter> link_bytes fl = {}"
proof -
  have k: "8 \<le> k" using places_sized[OF assms(1,3)] by auto
  have apart: "({q - 4..<q} \<union> {q + k - 8..<q + k - 4}) \<inter> {x..<x + 8} = {}" if x: "x \<in> set fl" for x
  proof -
    obtain n al where n: "(x, n, al) \<in> set (places base bs)" "16 \<le> n"
      using assms(2) x by (auto simp: linkable_def)
    from places_apart[OF assms(1,3) n(1)] n(2) k show ?thesis by auto
  qed
  from apart show "{q - 4..<q} \<inter> link_bytes fl = {}" "{q + k - 8..<q + k - 4} \<inter> link_bytes fl = {}"
    unfolding link_bytes_def by blast+
qed

lemma link_bytes_writable:
  assumes "set fl \<subseteq> linkable base bs" shows "link_bytes fl \<subseteq> writable base hi bs (set fl)"
proof
  fix b assume "b \<in> link_bytes fl"
  then obtain x where x: "x \<in> set fl" "x \<le> b" "b < x + 8" by (auto simp: link_bytes_def)
  then obtain n al where n: "(x, n, al) \<in> set (places base bs)" "16 \<le> n"
    using assms by (auto simp: linkable_def)
  with x have "b \<in> region x n" by (auto simp: region_def)
  with n x have "b \<in> cell (set fl) x n al" by (simp add: cell_def)
  with n show "b \<in> writable base hi bs (set fl)" by (fastforce simp: writable_def)
qed

lemma cell_region: "16 \<le> p \<Longrightarrow> 8 \<le> n \<Longrightarrow> cell L p n al \<subseteq> region p n"
  by (auto simp: cell_def region_def)

lemma cell_mono: "(q \<in> L \<Longrightarrow> q \<in> L') \<Longrightarrow> cell L q k c \<subseteq> cell L' q k c"
  by (auto simp: cell_def)

lemma writable_cell: "(p, n, al) \<in> set (places base bs) \<Longrightarrow> cell L p n al \<subseteq> writable base hi bs L"
  by (fastforce simp: writable_def)

lemma heap_raw_update:
  assumes H: "heap_raw m0 K s base hi (xs @ mid @ ys) fl"
    and p: "p = base + total xs"
    and ch: "changes (mem s) (mem s') (region p (total mid) \<union> link_bytes fl)"
    and tg: "tagged (mem s') p mid'" and sz: "sized mid'" and tot: "total mid' = total mid"
    and fl': "free_list s' fl'" and pos: "set fl' \<subseteq> linkable base (xs @ mid' @ ys)"
    and new: "\<forall>x \<in> set fl'. x \<in> set fl \<or> x \<in> linkable p mid'"
    and K: "K \<inter> region p (total mid) = {}"
  shows "heap_raw m0 K s' base hi (xs @ mid' @ ys) fl'"
proof -
  note d = heap_rawD[OF H]
  let ?bs = "xs @ mid @ ys" and ?e = "base + total xs + total mid"
  let ?W = "region p (total mid) \<union> link_bytes fl"
  have szs: "sized xs" "sized ys" and dm: "8 dvd total mid" "8 dvd total xs"
    using d(5) total_dvd by auto
  have bnd: "?e + total ys \<le> hi" "hi < 2 ^ 32" "16 \<le> base" using d(2-4) by auto
  have sub: "set (places base xs) \<subseteq> set (places base ?bs)"
    "set (places ?e ys) \<subseteq> set (places base ?bs)" by (auto simp: add.assoc)
  have tx: "tagged (mem s') base xs"
  proof (rule changes_tagged[OF ch])
    fix q k c assume q: "(q, k, c) \<in> set (places base xs)"
    note r = places_range[OF q] and z = places_sized[OF szs(1) q]
    have "({q - 4..<q} \<union> {q + k - 8..<q + k - 4}) \<inter> region p (total mid) = {}"
      using r z p by (auto simp: region_def)
    with tags_links_disjoint[OF d(5,9), of q k c] sub q
    show "{q - 4..<q} \<inter> ?W = {} \<and> {q + k - 8..<q + k - 4} \<inter> ?W = {}" by blast
  qed (use d szs bnd in auto)
  have ty: "tagged (mem s') ?e ys"
  proof (rule changes_tagged[OF ch])
    fix q k c assume q: "(q, k, c) \<in> set (places ?e ys)"
    note r = places_range[OF q] and z = places_sized[OF szs(2) q]
    have "({q - 4..<q} \<union> {q + k - 8..<q + k - 4}) \<inter> region p (total mid) = {}"
      using r z p bnd by (auto simp: region_def)
    with tags_links_disjoint[OF d(5,9), of q k c] sub q
    show "{q - 4..<q} \<inter> ?W = {} \<and> {q + k - 8..<q + k - 4} \<inter> ?W = {}" by blast
  next
    show "8 dvd ?e" using d(1) dm by simp
  qed (use d szs bnd in \<open>auto simp: add.assoc\<close>)
  have ep: "load32 (mem s') (of_nat (?e + total ys - 4)) = tag 0 True"
  proof -
    have "8 dvd ?e + total ys" using d(1) dm total_dvd[OF szs(2)] by simp
    then have "4 dvd ?e + total ys - 4" by (rule dvd_8_diff_4)
    moreover have "{?e + total ys - 4..<?e + total ys - 4 + 4} \<inter> ?W = {}"
    proof -
      have "x + 16 \<le> ?e + total ys" if x: "x \<in> set fl" for x
      proof -
        obtain n al where n: "(x, n, al) \<in> set (places base ?bs)" "16 \<le> n"
          using linkableE[OF subsetD[OF d(9) x]] .
        from places_range(2)[OF n(1)] n(2) show ?thesis by simp
      qed
      then have "{?e + total ys - 4..<?e + total ys} \<inter> link_bytes fl = {}"
        unfolding link_bytes_def by (fastforce dest: bspec)
      moreover have "{?e + total ys - 4..<?e + total ys} \<inter> region p (total mid) = {}"
        using p by (auto simp: region_def)
      moreover have "?e + total ys - 4 + 4 = ?e + total ys" using bnd by simp
      ultimately show ?thesis by auto
    qed
    ultimately have "load32 (mem s') (of_nat (?e + total ys - 4)) = load32 (mem s) (of_nat (?e + total ys - 4))"
      using bnd by (intro changes_load32[OF ch]) auto
    then show ?thesis using d(7) by (simp add: add.assoc)
  qed
  have Kw: "K \<inter> ?W = {}" using K d(10) link_bytes_writable[OF d(9), of hi] by (auto simp: kept_def)
  have wr: "writable base hi (xs @ mid' @ ys) (set fl') \<subseteq> writable base hi ?bs (set fl) \<union> region p (total mid)"
  proof -
    have 1: "cell (set fl') q k c \<subseteq> region p (total mid)" if q: "(q, k, c) \<in> set (places p mid')" for q k c
    proof -
      note r = places_range[OF q] and z = places_sized[OF sz q]
      have "region q k \<subseteq> region p (total mid)" using r tot bnd p by (auto simp: region_def)
      with cell_region[of q k] r z bnd p show ?thesis by auto
    qed
    have 2: "cell (set fl') q k c \<subseteq> writable base hi ?bs (set fl)"
      if q: "(q, k, c) \<in> set (places base xs) \<union> set (places ?e ys)" for q k c
    proof -
      have a: "q + k \<le> p \<or> p + total mid \<le> q"
        using q p places_range(2)[of q k c base xs] places_range(1)[of q k c ?e ys] by auto
      have k: "8 \<le> k"
        using q places_sized(2)[OF szs(1), of q k c base] places_sized(2)[OF szs(2), of q k c ?e] by auto
      have "q \<notin> linkable p mid'"
      proof
        assume "q \<in> linkable p mid'"
        then obtain n al where n: "(q, n, al) \<in> set (places p mid')" "16 \<le> n" by (rule linkableE)
        from places_range(1,2)[OF n(1)] a k n(2) tot show False by auto
      qed
      with new have "q \<in> set fl' \<Longrightarrow> q \<in> set fl" by auto
      then have "cell (set fl') q k c \<subseteq> cell (set fl) q k c" by (rule cell_mono)
      also have "\<dots> \<subseteq> writable base hi ?bs (set fl)" using q sub by (intro writable_cell) auto
      finally show ?thesis .
    qed
    have 3: "{base + total (xs @ mid' @ ys) - 4..<hi} \<subseteq> writable base hi ?bs (set fl)"
      using tot by (simp add: writable_def add.assoc le_supI1)
    show ?thesis
      unfolding writable_def[of base hi "xs @ mid' @ ys"] using 1 2 3 tot p by (fastforce simp: add.assoc)
  qed
  have "kept m0 K (mem s') (writable base hi (xs @ mid' @ ys) (set fl'))"
    using d(10) Kw K ch wr unfolding kept_def changes_def by fastforce
  with tx ty ep tg sz szs d(1-4) fl' pos p tot show ?thesis
    by (simp add: heap_raw_def add.assoc)
qed

section \<open>The steps of the allocator on a heap\<close>

lemma region_0 [simp]: "region p 0 = {}"
  by (simp add: region_def)

lemma linkable_node:
  assumes "heap_raw m0 K s base hi bs fl" "p \<in> linkable base bs" shows "node p"
proof -
  obtain n al where n: "(p, n, al) \<in> set (places base bs)" "16 \<le> n"
    using assms(2) by (rule linkableE)
  from block_at_def[of "mem s" p n al] heap_raw_block_at[OF assms(1) n(1)] n(2)
  show ?thesis by (auto simp: node_def)
qed

lemma heap_raw_remove:
  assumes H: "heap_raw m0 K s base hi bs (us @ p # vs)"
  shows "heap_raw m0 K (removeBlock (of_nat p) s) base hi bs (us @ vs)"
proof -
  note d = heap_rawD[OF H] and r = removeBlock_links[OF heap_rawD(8)[OF H]]
  have "heap_raw m0 K (removeBlock (of_nat p) s) base hi (bs @ [] @ []) (us @ vs)"
  proof (rule heap_raw_update[where mid = "[]" and fl = "us @ p # vs" and s = s and p = "base + total bs"])
    show "changes (mem s) (mem (removeBlock (of_nat p) s))
      (region (base + total bs) (total []) \<union> link_bytes (us @ p # vs))"
      by (intro changes_mono[OF r(2)]) auto
  qed (use H d(9) r(1) in auto)
  then show ?thesis by simp
qed

lemma free_region_kept:
  assumes H: "heap_raw m0 K s base hi (xs @ mid @ ys) fl" and p: "p = base + total xs"
    and f: "\<forall>(n, al) \<in> set mid. \<not> al"
  shows "K \<inter> region p (total mid) = {}"
proof -
  note d = heap_rawD[OF H]
  have "region q (total zs) \<subseteq> writable base hi (xs @ mid @ ys) (set fl)"
    if "set (places q zs) \<subseteq> set (places base (xs @ mid @ ys))" "\<forall>(n, al) \<in> set zs. \<not> al" "16 \<le> q"
    for q zs using that
  proof (induction zs arbitrary: q)
    case (Cons z zs)
    obtain n al where z: "z = (n, al)" by (cases z)
    with Cons.prems have "region q n \<subseteq> cell (set fl) q n al" by (auto simp: cell_def)
    also have "\<dots> \<subseteq> writable base hi (xs @ mid @ ys) (set fl)"
      using Cons.prems z by (intro writable_cell) auto
    finally have "region q n \<subseteq> writable base hi (xs @ mid @ ys) (set fl)" .
    moreover have "region (q + n) (total zs) \<subseteq> writable base hi (xs @ mid @ ys) (set fl)"
      using Cons.prems z by (intro Cons.IH) auto
    moreover have "region q (total (z # zs)) \<subseteq> region q n \<union> region (q + n) (total zs)"
      using z by (auto simp: region_def)
    ultimately show ?case by blast
  qed simp
  from this[of p mid] d(2) f p have "region p (total mid) \<subseteq> writable base hi (xs @ mid @ ys) (set fl)"
    by auto
  with d(10) show ?thesis by (auto simp: kept_def)
qed

lemma heap_raw_insert:
  assumes H: "heap_raw m0 K s base hi (xs @ (n, False) # ys) fl"
    and p: "p = base + total xs" "p \<notin> set fl"
  shows "heap_raw m0 K (insertBlock (of_nat p) s) base hi (xs @ (n, False) # ys) (p # fl)"
proof -
  note d = heap_rawD[OF H]
  have at: "(p, n, False) \<in> set (places base (xs @ (n, False) # ys))" using p by simp
  have n: "16 \<le> n" using places_sized(3)[OF d(5) at] by simp
  have pl: "p \<in> linkable base (xs @ (n, False) # ys)" using at n by (auto simp: linkable_def)
  have nd: "node p" by (rule linkable_node[OF H pl])
  note i = insertBlock_links[OF d(8) nd p(2)]
  let ?s = "insertBlock (of_nat p) s"
  have b: "block_at (mem s) p n False" by (rule heap_raw_block_at[OF H at])
  have "{p - 4..<p} \<inter> link_bytes (p # fl) = {}" "{p + n - 8..<p + n - 4} \<inter> link_bytes (p # fl) = {}"
    using tags_links_disjoint[OF d(5) _ at, of "p # fl"] pl d(9) by auto
  from block_at_changes[OF b i(2) this] have b': "block_at (mem ?s) p n False" .
  have "heap_raw m0 K ?s base hi (xs @ [(n, False)] @ ys) (p # fl)"
  proof (rule heap_raw_update[where mid = "[(n, False)]" and fl = fl and s = s and p = p])
    have "{p..<p + 8} \<subseteq> region p n" using n by (auto simp: region_def)
    then show "changes (mem s) (mem ?s) (region p (total [(n, False)]) \<union> link_bytes fl)"
      by (intro changes_mono[OF i(2)]) auto
    show "K \<inter> region p (total [(n, False)]) = {}"
      using H p by (intro free_region_kept[where xs = xs and ys = ys]) auto
    show "\<forall>x\<in>set (p # fl). x \<in> set fl \<or> x \<in> linkable p [(n, False)]"
      using n by (auto simp: linkable_def)
  qed (use H d(5,9) p pl i(1) b' in \<open>auto simp: block_at_def\<close>)
  then show ?thesis by simp
qed

text \<open>Both tags of a run of blocks rewritten as those of one block: retagging and merging.\<close>

definition retagged :: "memory \<Rightarrow> nat \<Rightarrow> nat \<Rightarrow> bool \<Rightarrow> memory" where
  "retagged m p n al = store32 (store32 m (of_nat (p - 4)) (tag n al)) (of_nat (p + n - 8)) (tag n al)"

lemma store32_commute:
  assumes "4 dvd a" "4 dvd b" "a \<noteq> b" "a < 2 ^ 32" "b < 2 ^ 32"
  shows "store32 (store32 m (of_nat a) v) (of_nat b) w = store32 (store32 m (of_nat b) w) (of_nat a) v"
proof -
  obtain j k where jk: "a = 4 * j" "b = 4 * k" using assms(1,2) unfolding dvd_def by auto
  with assms(3) have o: "a + 3 < b \<or> b + 3 < a" by (cases "j < k") auto
  have e: "a + 3 < 2 ^ 32" "b + 3 < 2 ^ 32" using assms aligned_word_end by auto
  have ne: "(of_nat (a + i) :: u32) \<noteq> of_nat (b + l)" if "i \<le> 3" "l \<le> 3" for i l
    using that e o by (subst of_nat_eq_iff_u32) auto
  show ?thesis
    using ne[of 0 0] ne[of 0 1] ne[of 0 2] ne[of 0 3] ne[of 1 0] ne[of 1 1] ne[of 1 2] ne[of 1 3]
      ne[of 2 0] ne[of 2 1] ne[of 2 2] ne[of 2 3] ne[of 3 0] ne[of 3 1] ne[of 3 2] ne[of 3 3]
    unfolding store32_def by (auto simp: fun_eq_iff)
qed

lemma retagged_props:
  assumes "16 \<le> p" "8 dvd p" "8 dvd n" "8 \<le> n" "p + n < 2 ^ 32"
  shows "changes m (retagged m p n al) ({p - 4..<p} \<union> {p + n - 8..<p + n - 4})"
    and "16 \<le> n \<Longrightarrow> block_at (retagged m p n al) p n al"
    and "16 \<le> n \<Longrightarrow> retagged m p n al
      = store32 (store32 m (of_nat (p + n - 8)) (tag n al)) (of_nat (p - 4)) (tag n al)"
proof -
  have "8 dvd p + n - 8" using assms by (intro dvd_diff_nat dvd_add) auto
  then have d: "4 dvd p - 4" "4 dvd p + n - 8" using assms by (auto intro: dvd_8_diff_4 dvd_8_imp_4)
  have b: "p - 4 < 2 ^ 32" "p + n - 8 < 2 ^ 32" using assms by auto
  have w: "{p - 4..<p - 4 + 4} = {p - 4..<p}" "{p + n - 8..<p + n - 8 + 4} = {p + n - 8..<p + n - 4}"
    using assms by auto
  show "changes m (retagged m p n al) ({p - 4..<p} \<union> {p + n - 8..<p + n - 4})"
    using changes_trans[OF changes_store32[OF d(1) b(1)] changes_store32[OF d(2) b(2)]] w
    by (simp add: retagged_def)
  assume n: "16 \<le> n"
  then have ne: "p - 4 \<noteq> p + n - 8" by auto
  then show "block_at (retagged m p n al) p n al"
    using assms n d b by (simp add: block_at_def retagged_def load32_store32)
  show "retagged m p n al
      = store32 (store32 m (of_nat (p + n - 8)) (tag n al)) (of_nat (p - 4)) (tag n al)"
    unfolding retagged_def by (rule store32_commute[OF d ne b])
qed

lemma heap_raw_retag:
  assumes H: "heap_raw m0 K s base hi (xs @ mid @ ys) fl" and p: "p = base + total xs"
    and n: "n = total mid" "16 \<le> n" and out: "\<forall>x \<in> set fl. x = p \<or> x \<notin> linkable p mid"
    and K: "K \<inter> region p n = {}"
    and s': "mem s' = retagged (mem s) p n al" "free_listp s' = free_listp s"
  shows "heap_raw m0 K s' base hi (xs @ (n, al) # ys) fl"
proof -
  note d = heap_rawD[OF H]
  have dv: "8 dvd p" "8 dvd n" using d(1,5) p n total_dvd by auto
  have bnd: "16 \<le> p" "p + n < 2 ^ 32" using d(2-4) p n by auto
  note r = retagged_props[OF bnd(1) dv(1,2) _ bnd(2), of "mem s" al]
  have c: "changes (mem s) (retagged (mem s) p n al) ({p - 4..<p} \<union> {p + n - 8..<p + n - 4})"
    using r(1) n(2) by simp
  have W: "{p - 4..<p} \<union> {p + n - 8..<p + n - 4} \<subseteq> region p n" using n bnd by (auto simp: region_def)
  have where_fl: "x = p \<or> (\<exists>k c. (x, k, c) \<in> set (places base xs) \<union> set (places (p + n) ys) \<and> 16 \<le> k)"
    if x: "x \<in> set fl" for x
  proof -
    obtain k c where k: "(x, k, c) \<in> set (places base (xs @ mid @ ys))" "16 \<le> k"
      using linkableE[OF subsetD[OF d(9) x]] .
    show ?thesis
    proof (cases "(x, k, c) \<in> set (places p mid)")
      case True
      with k(2) have "x \<in> linkable p mid" by (auto simp: linkable_def)
      with out x show ?thesis by auto
    next
      case False
      with k p n show ?thesis by auto
    qed
  qed
  have dj: "({p - 4..<p} \<union> {p + n - 8..<p + n - 4}) \<inter> link_bytes fl = {}"
  proof -
    have "({p - 4..<p} \<union> {p + n - 8..<p + n - 4}) \<inter> {x..<x + 8} = {}" if x: "x \<in> set fl" for x
      using where_fl[OF x]
    proof (elim disjE exE conjE)
      fix k c assume "(x, k, c) \<in> set (places base xs) \<union> set (places (p + n) ys)" "16 \<le> k"
      then have "x + 16 \<le> p \<or> p + n \<le> x"
        using places_range(2)[of x k c base xs] places_range(1)[of x k c "p + n" ys] p by auto
      then show ?thesis using n bnd by auto
    qed (use n in auto)
    then show ?thesis unfolding link_bytes_def by blast
  qed
  have fl: "free_list s' fl"
    using d(8) s' links_changes[OF _ c dj] by (auto simp: free_list_def)
  have "heap_raw m0 K s' base hi (xs @ [(n, al)] @ ys) fl"
  proof (rule heap_raw_update[OF H p])
    show "changes (mem s) (mem s') (region p (total mid) \<union> link_bytes fl)"
      using n(1) W unfolding s'(1) by (intro changes_mono[OF c]) auto
    show "tagged (mem s') p [(n, al)]" using r(2) n s' by (simp add: block_at_def)
    show "set fl \<subseteq> linkable base (xs @ [(n, al)] @ ys)"
    proof
      fix x assume "x \<in> set fl"
      from where_fl[OF this] show "x \<in> linkable base (xs @ [(n, al)] @ ys)"
        using n(2) p by (auto simp: linkable_def)
    qed
  qed (use fl n dv K in auto)
  then show ?thesis by simp
qed

end
