(* ===== verification/Mm_Coalesce.thy ===== *)
theory Mm_Coalesce
  imports Mm_Heap
begin

text \<open>
  Boundary tag coalescing: what \<open>coalesce\<close> does to the blocks and to the free list, in each of its
  four cases. \<open>coalesced\<close> is the abstract operation on the blocks around a free block of size \<open>n\<close>;
  the new free block is inserted at the front of the list and the nodes it absorbs leave the list.
\<close>

definition coalesced :: "block list \<Rightarrow> nat \<Rightarrow> block list \<Rightarrow> block list \<times> nat \<times> block list" where
  "coalesced xs n ys =
     (let (xs', a) = (if xs \<noteq> [] \<and> \<not> snd (last xs) then (butlast xs, fst (last xs)) else (xs, 0));
          (ys', c) = (case ys of (k, False) # zs \<Rightarrow> (zs, k) | _ \<Rightarrow> (ys, 0))
      in (xs', a + n + c, ys'))"

definition outside :: "nat \<Rightarrow> nat \<Rightarrow> nat list \<Rightarrow> nat list" where
  "outside p n fl = filter (\<lambda>x. x < p \<or> p + n \<le> x) fl"

definition with_mem :: "'a memsys_scheme \<Rightarrow> memory \<Rightarrow> 'a memsys_scheme" where
  "with_mem s m = s\<lparr>mem := m\<rparr>"

lemma with_mem_simps [simp]:
  "mem (with_mem s m) = m" "mem_brk (with_mem s m) = mem_brk s"
  "mem_start_brk (with_mem s m) = mem_start_brk s" "mem_max_addr (with_mem s m) = mem_max_addr s"
  "PUT p v (with_mem s m) = with_mem s (store32 m p v)" "PUT p v s = with_mem s (store32 (mem s) p v)"
  "with_mem (with_mem s m) m' = with_mem s m'"
  by (simp_all add: with_mem_def PUT_def)

lemma with_mem_lists [simp]:
  "free_listp (with_mem s m) = free_listp s" "heap_listp (with_mem s m) = heap_listp s"
  by (simp_all add: with_mem_def)

lemma PREV_BLKP_tag:
  assumes "load32 m (of_nat (p - 8)) = tag k al" "8 dvd k" "k < p" "8 \<le> p" "p < 2 ^ 32"
  shows "PREV_BLKP m (of_nat p) = of_nat (p - k)"
  using assms GET_SIZE_tag[OF assms(1,2)] by (simp add: PREV_BLKP_def DSIZE_def)

lemma FTRP_tag:
  assumes "load32 m (of_nat (p - 4)) = tag k al" "8 dvd k" "8 \<le> k" "4 \<le> p" "p + k < 2 ^ 32"
  shows "FTRP m (of_nat p) = of_nat (p + k - 8)"
  using assms GET_SIZE_tag[OF assms(1,2)] by (simp add: FTRP_def DSIZE_def)

lemma retag_any:
  assumes "8 dvd n" "8 \<le> n" "8 \<le> p" "p + n < 2 ^ 32"
  shows "store32 (store32 m (of_nat (p - 4)) (tag n c))
      (FTRP (store32 m (of_nat (p - 4)) (tag n c)) (of_nat p)) (tag n c) = retagged m p n c"
proof -
  have "FTRP (store32 m (of_nat (p - 4)) (tag n c)) (of_nat p) = of_nat (p + n - 8)"
    using assms by (intro FTRP_tag[where al = c]) auto
  then show ?thesis by (simp add: retagged_def)
qed

text \<open>A block of \<open>c\<close> bytes cut into an allocated one of \<open>a\<close> bytes and a free rest.\<close>

definition split_tags :: "memory \<Rightarrow> nat \<Rightarrow> nat \<Rightarrow> nat \<Rightarrow> memory" where
  "split_tags m p a c = retagged (retagged m p a True) (p + a) (c - a) False"

text \<open>A block at an inner position of the heap.\<close>

lemma heap_raw_split_block:
  assumes "heap_raw m0 K s base hi (xs @ (n, al) # ys) fl" "p = base + total xs"
  shows "block_at (mem s) p n al"
  using assms by (intro heap_raw_block_at[OF assms(1)]) simp

text \<open>Rewriting the tags of a block together with a free neighbour: the stores of the three cases that
  merge leave the tags of one block. \<open>t\<close> is the new tag.\<close>

lemma merge_next_stores:
  assumes "block_at m p n a" "block_at m (p + n) j c" "t = tag (n + j) False"
    "m2 = store32 m (of_nat (p - 4)) t"
  shows "FTRP m2 (of_nat p) = of_nat (p + (n + j) - 8)" "PACK (of_nat (n + j)) 0 = t"
    "store32 m2 (of_nat (p + (n + j) - 8)) t = retagged m p (n + j) False"
proof -
  have d: "8 dvd n + j" "8 \<le> n + j" "4 \<le> p" "p + (n + j) < 2 ^ 32" using assms(1,2) by (auto simp: block_at_def)
  then show "FTRP m2 (of_nat p) = of_nat (p + (n + j) - 8)"
    unfolding assms(3,4) by (intro FTRP_tag[where al = False]) auto
  show "PACK (of_nat (n + j)) 0 = t" using PACK_tag(2)[OF d(1)] assms(3) by simp
  show "store32 m2 (of_nat (p + (n + j) - 8)) t = retagged m p (n + j) False"
    by (simp add: retagged_def assms(3,4))
qed

lemma merge_prev_stores:
  assumes "block_at m q k a" "block_at m p n c" "p = q + k" "16 \<le> k" "16 \<le> n" "t = tag (k + n) False"
    "m2 = store32 m (of_nat (p + n - 8)) t" "m3 = store32 m2 (of_nat (q - 4)) t"
  shows "PREV_BLKP m (of_nat p) = of_nat q" "PREV_BLKP m2 (of_nat p) = of_nat q"
    "PREV_BLKP m3 (of_nat p) = of_nat q" "PACK (of_nat (n + k)) 0 = t" "m3 = retagged m q (k + n) False"
proof -
  have c: "16 \<le> q" "8 dvd q" "8 dvd p" "8 dvd k" "8 dvd n" "8 dvd k + n" "p + n < 2 ^ 32"
    using assms(1,2) by (auto simp: block_at_def)
  have d4: "4 dvd p + n - 8" "4 dvd p - 8" "4 dvd q - 4"
    using c by (auto intro!: dvd_8_imp_4 dvd_8_diff_4 dvd_diff_nat dvd_add)
  have l: "load32 m (of_nat (p - 8)) = tag k a"
    using assms(1,3) by (simp add: block_at_def)
  have l2: "load32 m2 (of_nat (p - 8)) = tag k a"
    unfolding assms(7) using l d4 c assms(5) by (subst load32_store32) auto
  have l3: "load32 m3 (of_nat (p - 8)) = tag k a"
    unfolding assms(8) using l2 d4 c assms(3,4) by (subst load32_store32) auto
  show "PREV_BLKP m (of_nat p) = of_nat q" "PREV_BLKP m2 (of_nat p) = of_nat q"
    "PREV_BLKP m3 (of_nat p) = of_nat q"
    using PREV_BLKP_tag[OF l2] PREV_BLKP_tag[OF l3] PREV_BLKP_tag[OF l] assms(3) c by auto
  show "PACK (of_nat (n + k)) 0 = t" using PACK_tag(2)[OF c(6)] assms(6) by (simp add: add.commute)
  show "m3 = retagged m q (k + n) False"
    using retagged_props(3)[of q "k + n" m False] c assms by (simp add: add.assoc)
qed

lemma merge_both_stores:
  assumes "block_at m q k a" "block_at m p n c" "block_at m (p + n) j e" "p = q + k" "16 \<le> k" "16 \<le> n"
    "16 \<le> j" "t = tag (k + n + j) False" "m3 = store32 m (of_nat (q - 4)) t"
    "m4 = store32 m3 (of_nat (p + n + j - 8)) t"
  shows "PREV_BLKP m (of_nat p) = of_nat q" "NEXT_BLKP m3 (of_nat p) = of_nat (p + n)"
    "FTRP m3 (of_nat (p + n)) = of_nat (p + n + j - 8)" "PREV_BLKP m4 (of_nat p) = of_nat q"
    "PACK (of_nat (n + (k + j))) 0 = t" "m4 = retagged m q (k + n + j) False"
proof -
  have c: "16 \<le> q" "8 dvd q" "8 dvd p" "8 dvd k" "8 dvd n" "8 dvd j" "8 dvd k + n + j" "p + n + j < 2 ^ 32"
    using assms(1,2,3) by (auto simp: block_at_def)
  have d4: "4 dvd p + n + j - 8" "4 dvd p - 8" "4 dvd q - 4" "4 dvd p - 4" "4 dvd p + n - 4"
    using c by (auto intro!: dvd_8_imp_4 dvd_8_diff_4 dvd_diff_nat dvd_add)
  have l: "load32 m (of_nat (p - 8)) = tag k a" using assms(1,4) by (simp add: block_at_def)
  have l4: "load32 m4 (of_nat (p - 8)) = tag k a"
  proof -
    have "q - 4 \<noteq> p - 8" "p + n + j - 8 \<noteq> p - 8" using assms(4,5,7) c(1) by linarith+
    then show ?thesis
      unfolding assms(9,10) using l d4 c assms(4) by (simp add: load32_store32)
  qed
  have "load32 m3 (of_nat (p - 4)) = tag n c" "load32 m3 (of_nat (p + n - 4)) = tag j e"
  proof -
    have "q - 4 \<noteq> p - 4" "q - 4 \<noteq> p + n - 4" "p - 4 < 2 ^ 32" "p + n - 4 < 2 ^ 32" "q - 4 < 2 ^ 32"
      using assms(4-6) c by linarith+
    then show "load32 m3 (of_nat (p - 4)) = tag n c" "load32 m3 (of_nat (p + n - 4)) = tag j e"
      unfolding assms(9) using assms(2,3) d4 by (auto simp add: load32_store32 block_at_def)
  qed
  then show "NEXT_BLKP m3 (of_nat p) = of_nat (p + n)" "FTRP m3 (of_nat (p + n)) = of_nat (p + n + j - 8)"
    using GET_SIZE_tag[of m3 "of_nat (p - 4)" n c] FTRP_tag[of m3 "p + n" j e] assms c
    by (simp_all add: NEXT_BLKP_def WSIZE_def)
  show "PREV_BLKP m (of_nat p) = of_nat q" "PREV_BLKP m4 (of_nat p) = of_nat q"
    using PREV_BLKP_tag[OF l4] PREV_BLKP_tag[OF l] assms(4) c by auto
  show "PACK (of_nat (n + (k + j))) 0 = t"
    using PACK_tag(2)[OF c(7)] assms(8) by (simp add: add.commute add.left_commute)
  show "m4 = retagged m q (k + n + j) False"
    using assms(4) by (simp add: assms(8-10) retagged_def add.assoc)
qed

text \<open>The situation in which \<open>coalesce\<close> is called: a free block that is not yet on the list.\<close>

definition unlisted :: "memory \<Rightarrow> nat set \<Rightarrow> mm \<Rightarrow> nat \<Rightarrow> nat \<Rightarrow> block list \<Rightarrow> nat \<Rightarrow> block list
    \<Rightarrow> nat list \<Rightarrow> nat \<Rightarrow> bool" where
  "unlisted m0 K s base hi xs n ys fl p \<longleftrightarrow> heap_raw m0 K s base hi (xs @ (n, False) # ys) fl
     \<and> p = base + total xs \<and> xs \<noteq> [] \<and> p \<notin> set fl
     \<and> set fl = free_at base (xs @ (n, False) # ys) - {p}"

lemma unlistedD:
  assumes "unlisted m0 K s base hi xs n ys fl p"
  shows "heap_raw m0 K s base hi (xs @ (n, False) # ys) fl" "p = base + total xs" "xs \<noteq> []"
    "p \<notin> set fl" "set fl = free_at base (xs @ (n, False) # ys) - {p}"
  using assms by (auto simp: unlisted_def)

lemma unlisted_block:
  assumes "unlisted m0 K s base hi xs n ys fl p"
  shows "block_at (mem s) p n False" "16 \<le> n" "8 dvd n" "16 \<le> p" "p + n < 2 ^ 32" "8 dvd p"
proof -
  note u = unlistedD[OF assms]
  have at: "(p, n, False) \<in> set (places base (xs @ (n, False) # ys))" using u(2) by simp
  show b: "block_at (mem s) p n False" by (rule heap_raw_block_at[OF u(1) at])
  show "16 \<le> n" using places_sized(3)[OF heap_rawD(5)[OF u(1)] at] by simp
  show "8 dvd n" "16 \<le> p" "p + n < 2 ^ 32" "8 dvd p" using b by (auto simp: block_at_def)
qed

lemma unlisted_prev:
  assumes U: "unlisted m0 K s base hi xs n ys fl p" and xs: "xs = zs @ [(k, c)]"
  shows "block_at (mem s) (base + total zs) k c" "p = base + total zs + k"
    "PREV_BLKP (mem s) (of_nat p) = of_nat (base + total zs)"
    "GET_ALLOC (mem s) (FTRP (mem s) (PREV_BLKP (mem s) (of_nat p))) = of_bool c"
proof -
  note u = unlistedD[OF U]
  show b: "block_at (mem s) (base + total zs) k c"
    using xs by (intro heap_raw_block_at[OF u(1)]) simp
  show p: "p = base + total zs + k" using xs u(2) by simp
  then show "PREV_BLKP (mem s) (of_nat p) = of_nat (base + total zs)"
    using block_at_reads(7)[OF b] by simp
  with p show "GET_ALLOC (mem s) (FTRP (mem s) (PREV_BLKP (mem s) (of_nat p))) = of_bool c"
    using block_at_reads[OF b] by simp
qed

lemma unlisted_next:
  assumes U: "unlisted m0 K s base hi xs n ys fl p"
  shows "GET_ALLOC (mem s) (HDRP (NEXT_BLKP (mem s) (of_nat p)))
     = of_bool (case ys of [] \<Rightarrow> True | (k, c) # _ \<Rightarrow> c)"
  using heap_raw_next_alloc[OF unlistedD(1,2)[OF U]] block_at_reads[OF unlisted_block(1)[OF U]]
    unlisted_block[OF U] by simp

lemma unlisted_size:
  assumes U: "unlisted m0 K s base hi xs n ys fl p"
  shows "GET_SIZE (mem s) (HDRP (of_nat p)) = of_nat n"
  using block_at_reads[OF unlisted_block(1)[OF U]] unlisted_block[OF U] by simp

lemmas unlisted_facts = unlisted_block unlisted_next unlisted_size

text \<open>Removing a free neighbour from the list leaves the same situation.\<close>

lemma heap_raw_remove1:
  assumes H: "heap_raw m0 K s base hi bs fl" and q: "q \<in> set fl"
  shows "heap_raw m0 K (removeBlock (of_nat q) s) base hi bs (remove1 q fl)"
proof -
  obtain us vs where uv: "fl = us @ q # vs" "q \<notin> set us" using q split_list_first by metis
  then have "remove1 q fl = us @ vs" by (simp add: remove1_append)
  with heap_raw_remove H uv show ?thesis by simp
qed

lemma unlisted_remove:
  assumes U: "unlisted m0 K s base hi xs n ys fl p" and q: "q \<in> set fl"
  shows "heap_raw m0 K (removeBlock (of_nat q) s) base hi (xs @ (n, False) # ys) (remove1 q fl)"
  using heap_raw_remove1 unlistedD(1)[OF U] q by blast

text \<open>The four cases: which blocks are merged, and the memory before the insertion.\<close>

definition merged :: "mm \<Rightarrow> nat \<Rightarrow> nat \<Rightarrow> mm" where
  "merged s q n = with_mem s (retagged (mem s) q n False)"

lemma coalesce_none:
  assumes U: "unlisted m0 K s base hi xs n ys fl p"
    and "xs = zs @ [(k, True)]" "ys = [] \<or> snd (hd ys)"
  shows "coalesce (of_nat p) s = (of_nat p, insertBlock (of_nat p) s)"
proof -
  have "(case ys of [] \<Rightarrow> True | (k, c) # _ \<Rightarrow> c)" using assms(3) by (auto split: list.split)
  then show ?thesis
    using unlisted_prev[OF U assms(2)] unlisted_next[OF U] by (simp add: coalesce_def Let_def)
qed

lemma coalesce_next:
  assumes U: "unlisted m0 K s base hi xs n ys fl p"
    and xs: "xs = zs @ [(k, True)]" and ys: "ys = (j, False) # ws"
  shows "coalesce (of_nat p) s
    = (of_nat p, insertBlock (of_nat p) (merged (removeBlock (of_nat (p + n)) s) p (n + j)))"
proof -
  note u = unlistedD[OF U] and f = unlisted_facts[OF U] and pr = unlisted_prev[OF U xs]
  define s1 where "s1 = removeBlock (of_nat (p + n)) s"
  have "p + n \<in> set fl" using u(2,5) ys f by (auto simp: add.assoc)
  from unlisted_remove[OF U this]
  have H1: "heap_raw m0 K s1 base hi (xs @ (n, False) # ys) (remove1 (p + n) fl)"
    unfolding s1_def .
  have b1: "block_at (mem s1) p n False" "block_at (mem s1) (p + n) j False"
    using heap_raw_block_at[OF H1] ys u(2) by (auto simp: add.assoc)
  note m = merge_next_stores[OF b1 refl refl]
  show ?thesis
    using pr(3,4) f ys block_at_reads[OF f(1)] block_at_reads[OF b1(1)] block_at_reads[OF b1(2)] m
    by (simp add: coalesce_def Let_def s1_def[symmetric] merged_def)
qed

lemma coalesce_prev:
  assumes U: "unlisted m0 K s base hi xs n ys fl p"
    and xs: "xs = zs @ [(k, False)]" and ys: "ys = [] \<or> snd (hd ys)" and q: "q = base + total zs"
  shows "coalesce (of_nat p) s
    = (of_nat q, insertBlock (of_nat q) (merged (removeBlock (of_nat q) s) q (k + n)))"
proof -
  note u = unlistedD[OF U] and f = unlisted_facts[OF U] and pr = unlisted_prev[OF U xs, folded q]
  have na: "(case ys of [] \<Rightarrow> True | (k, c) # _ \<Rightarrow> c)" using ys by (auto split: list.split)
  define s1 where "s1 = removeBlock (of_nat q) s"
  have k: "16 \<le> k" using heap_rawD(5)[OF u(1)] xs by simp
  have "q \<in> set fl" using u(2,5) xs q k by auto
  from unlisted_remove[OF U this]
  have H1: "heap_raw m0 K s1 base hi (xs @ (n, False) # ys) (remove1 q fl)"
    unfolding s1_def .
  have b1: "block_at (mem s1) p n False" "block_at (mem s1) q k False"
    using heap_raw_block_at[OF H1] xs u(2) q by auto
  note m = merge_prev_stores[OF b1(2,1) pr(2) k f(2) refl refl refl]
  show ?thesis
    using pr(3,4) f na k b1(2) m block_at_reads[OF b1(1)] block_at_reads[OF b1(2)]
    by (simp add: coalesce_def Let_def s1_def[symmetric] merged_def block_at_def)
qed

lemma coalesce_both:
  assumes U: "unlisted m0 K s base hi xs n ys fl p"
    and xs: "xs = zs @ [(k, False)]" and ys: "ys = (j, False) # ws" and q: "q = base + total zs"
  shows "coalesce (of_nat p) s = (of_nat q, insertBlock (of_nat q)
      (merged (removeBlock (of_nat q) (removeBlock (of_nat (p + n)) s)) q (k + n + j)))"
proof -
  note u = unlistedD[OF U] and f = unlisted_facts[OF U] and pr = unlisted_prev[OF U xs, folded q]
  define s1 where "s1 = removeBlock (of_nat (p + n)) s"
  define s2 where "s2 = removeBlock (of_nat q) s1"
  have k: "16 \<le> k" using heap_rawD(5)[OF u(1)] xs by simp
  have "p + n \<in> set fl" using u(2,5) ys f by (auto simp: add.assoc)
  from unlisted_remove[OF U this]
  have H1: "heap_raw m0 K s1 base hi (xs @ (n, False) # ys) (remove1 (p + n) fl)"
    unfolding s1_def .
  have "q \<in> set (remove1 (p + n) fl)" using u(2,5) xs q k pr(2) by auto
  then obtain us vs where "remove1 (p + n) fl = us @ q # vs" using split_list by metis
  then have H2: "heap_raw m0 K s2 base hi (xs @ (n, False) # ys) (us @ vs)"
    using heap_raw_remove H1 unfolding s2_def by metis
  have b1: "block_at (mem s1) q k False"
    using heap_raw_block_at[OF H1] xs q by auto
  have b2: "block_at (mem s2) p n False" "block_at (mem s2) q k False" "block_at (mem s2) (p + n) j False"
    using heap_raw_block_at[OF H2] xs ys u(2) q by (auto simp: add.assoc)
  have j: "16 \<le> j" using heap_rawD(5)[OF u(1)] ys by simp
  note m = merge_both_stores[OF b2(2,1,3) pr(2) k f(2) j refl refl refl]
  have "PREV_BLKP (mem s1) (of_nat p) = of_nat q" using block_at_reads(7)[OF b1] pr(2) by simp
  then show ?thesis
    using pr(3,4) f ys k b2(2) m block_at_reads[OF f(1)] block_at_reads[OF b2(1)]
      block_at_reads[OF b2(2)] block_at_reads[OF b2(3)]
    by (simp add: coalesce_def Let_def s1_def[symmetric] s2_def[symmetric] merged_def block_at_def)
qed

section \<open>The result of coalescing\<close>

lemma linkable_simps [simp]:
  "linkable p [] = {}" "linkable p ((n, al) # bs) = (if 16 \<le> n then {p} else {}) \<union> linkable (p + n) bs"
  "linkable p (xs @ ys) = linkable p xs \<union> linkable (p + total xs) ys"
  by (auto simp: linkable_def)

lemma linkable_range:
  assumes "x \<in> linkable p bs" shows "p \<le> x" "x + 16 \<le> p + total bs"
proof -
  obtain n al where n: "(x, n, al) \<in> set (places p bs)" "16 \<le> n" using assms by (rule linkableE)
  from places_range[OF n(1)] n(2) show "p \<le> x" "x + 16 \<le> p + total bs" by auto
qed

lemma free_at_linkable: "sized bs \<Longrightarrow> free_at p bs \<subseteq> linkable p bs"
  using places_sized(3)[of bs _ _ False p] by (auto simp: free_at_def linkable_def)

lemma outside_linkable:
  assumes "set fl \<subseteq> linkable base (zs @ mid @ ws)" "q = base + total zs"
  shows "outside q (total mid) fl = filter (\<lambda>x. x \<notin> linkable q mid) fl"
  unfolding outside_def
proof (rule filter_cong[OF refl])
  fix x assume "x \<in> set fl"
  with assms consider "x \<in> linkable base zs" | "x \<in> linkable q mid" | "x \<in> linkable (q + total mid) ws"
    by auto
  then show "(x < q \<or> q + total mid \<le> x) = (x \<notin> linkable q mid)"
  proof cases
    case 1
    from linkable_range[OF this] assms(2) linkable_range(1)[of x q mid] show ?thesis by auto
  next
    case 2
    from linkable_range[OF this] 2 show ?thesis by auto
  next
    case 3
    from linkable_range[OF this] linkable_range(2)[of x q mid] show ?thesis by auto
  qed
qed

lemma outside_removed:
  assumes "set fl \<subseteq> linkable base (zs @ mid @ ws)" "q = base + total zs"
    "linkable q mid \<inter> set fl \<subseteq> A" "A \<subseteq> linkable q mid"
  shows "outside q (total mid) fl = filter (\<lambda>x. x \<notin> A) fl"
  using assms by (subst outside_linkable[OF assms(1,2)]) (auto intro!: filter_cong)

text \<open>The nodes outside the merged block are the other free blocks.\<close>

lemma outside_free_at:
  assumes fl: "set fl = free_at base (zs @ mid @ ws) - {p}" and p: "p \<in> linkable q mid"
    and q: "q = base + total zs" and sz: "sized (zs @ mid @ ws)" and n: "n = total mid" "16 \<le> n"
  shows "set (q # outside q n fl) = free_at base (zs @ (n, False) # ws)"
proof -
  have a: "free_at base zs \<inter> linkable q mid = {}"
    using free_at_range(2)[of zs _ base] linkable_range(1)[of _ q mid] sz q by fastforce
  have b: "free_at (q + n) ws \<inter> linkable q mid = {}"
    using free_at_range(1)[of ws _ "q + n"] linkable_range(2)[of _ q mid] sz n by fastforce
  have c: "free_at q mid \<subseteq> linkable q mid" using sz by (intro free_at_linkable) simp
  have e: "set fl = (free_at base zs \<union> free_at q mid \<union> free_at (q + n) ws) - {p}"
    using fl q n by (simp add: add.assoc Un_assoc)
  have "set fl \<subseteq> linkable base (zs @ mid @ ws)" using fl free_at_linkable[OF sz, of base] by blast
  from outside_linkable[OF this q] n have "set (outside q n fl) = set fl - linkable q mid" by auto
  also have "\<dots> = free_at base zs \<union> free_at (q + n) ws" unfolding e using a b c p by blast
  finally show ?thesis using q by auto
qed

lemma heap_raw_merge:
  assumes H: "heap_raw m0 K s base hi (zs @ mid @ ws) fl" and q: "q = base + total zs"
    and mid: "\<forall>(n, al) \<in> set mid. \<not> al" and n: "n = total mid" "16 \<le> n"
    and out: "set fl \<inter> linkable q mid = {}"
  shows "heap_raw m0 K (insertBlock (of_nat q) (merged s q n)) base hi (zs @ (n, False) # ws) (q # fl)"
proof -
  have "heap_raw m0 K (merged s q n) base hi (zs @ (n, False) # ws) fl"
    using free_region_kept[OF H q mid] out n
    by (intro heap_raw_retag[OF H q n]) (auto simp: merged_def)
  moreover have "q \<notin> set fl"
  proof
    assume x: "q \<in> set fl"
    then have "q \<in> linkable base zs \<union> linkable (q + n) ws"
      using heap_rawD(9)[OF H] out q n by auto
    then show False
      using linkable_range(2)[of q base zs] linkable_range(1)[of q "q + n" ws] q n by auto
  qed
  ultimately show ?thesis using q by (intro heap_raw_insert) auto
qed

text \<open>The common end of the three cases that merge.\<close>

lemma coalesce_merged:
  assumes U: "unlisted m0 K s base hi xs n ys fl p" and e: "xs @ (n, False) # ys = zs @ mid @ ws"
    and q: "q = base + total zs" and mid: "\<forall>(k, al) \<in> set mid. \<not> al" and p: "p \<in> linkable q mid"
    and N: "N = total mid" "16 \<le> N"
    and A: "linkable q mid \<inter> set fl \<subseteq> A" "A \<subseteq> linkable q mid"
    and H: "heap_raw m0 K s' base hi (zs @ mid @ ws) (filter (\<lambda>x. x \<notin> A) fl)"
  shows "heap_raw m0 K (insertBlock (of_nat q) (merged s' q N)) base hi (zs @ (N, False) # ws)
      (q # outside q N fl)"
    and "set (q # outside q N fl) = free_at base (zs @ (N, False) # ws)"
proof -
  note u = unlistedD[OF U, unfolded e]
  have o: "outside q N fl = filter (\<lambda>x. x \<notin> A) fl"
    unfolding N(1) by (rule outside_removed[OF heap_rawD(9)[OF u(1)] q A])
  have "set (filter (\<lambda>x. x \<notin> A) fl) \<inter> linkable q mid = {}" using A by auto
  from heap_raw_merge[OF H q mid N this] o
  show "heap_raw m0 K (insertBlock (of_nat q) (merged s' q N)) base hi (zs @ (N, False) # ws)
      (q # outside q N fl)" by simp
  show "set (q # outside q N fl) = free_at base (zs @ (N, False) # ws)"
    by (rule outside_free_at[OF u(5) p q heap_rawD(5)[OF u(1)] N])
qed

lemma filter_single: "distinct fl \<Longrightarrow> remove1 a fl = filter (\<lambda>x. x \<notin> {a}) fl"
  by (simp add: distinct_remove1_removeAll removeAll_filter_not_eq) (auto intro: filter_cong)

theorem coalesce_heap:
  assumes U: "unlisted m0 K s base hi xs n ys fl p" and C: "coalesced xs n ys = (xs', n', ys')"
    and q: "q = base + total xs'" and fl': "fl' = q # outside q n' fl"
  shows "\<exists>s'. coalesce (of_nat p) s = (of_nat q, s')
    \<and> heap_raw m0 K s' base hi (xs' @ (n', False) # ys') fl'
    \<and> set fl' = free_at base (xs' @ (n', False) # ys')"
proof -
  note u = unlistedD[OF U] and f = unlisted_block[OF U] and d = heap_rawD[OF unlistedD(1)[OF U]]
  have dist: "distinct fl" using d(8) by (simp add: free_list_def)
  obtain zs k c where xs: "xs = zs @ [(k, c)]" using u(3) by (metis append_butlast_last_id surj_pair)
  have nl: "linkable p [(n, False)] = {p}" using f(2) by simp
  have pk: "p = base + total zs + k" using unlisted_prev(2)[OF U xs] .
  show ?thesis
  proof (cases "ys = [] \<or> snd (hd ys)")
    case na: True
    show ?thesis
    proof (cases c)
      case True
      then have e: "coalesce (of_nat p) s = (of_nat p, insertBlock (of_nat p) s)"
        using coalesce_none[OF U _ na] xs by simp
      have x: "xs' = xs" "n' = n" "ys' = ys"
        using C xs True na by (auto simp: coalesced_def split: list.splits prod.splits bool.splits)
      have "outside p n fl = fl"
        using outside_removed[of fl base xs "[(n, False)]" ys p "{}"] d(9) u(2,4) f(2) by simp
      moreover have "set (p # fl) = free_at base (xs @ (n, False) # ys)" using u(2,5) by auto
      ultimately show ?thesis
        using e x q fl' u(2) heap_raw_insert[OF u(1,2,4)] by auto
    next
      case False
      define b where "b = base + total zs"
      have x: "xs' = zs" "n' = k + n" "ys' = ys" "q = b"
        using C xs False na q by (auto simp: coalesced_def b_def split: list.splits prod.splits bool.splits)
      have kk: "16 \<le> k" using d(5) xs False by simp
      have "b \<in> set fl" using u(5) xs False kk pk by (auto simp: b_def)
      note H = unlisted_remove[OF U this, unfolded filter_single[OF dist]]
      have l: "linkable b [(k, False), (n, False)] = {b, p}" using kk f(2) pk by (auto simp: b_def)
      have "xs @ (n, False) # ys = zs @ [(k, False), (n, False)] @ ys" using xs False by simp
      note M = coalesce_merged[OF U this b_def, where N = "k + n" and A = "{b}"
          and s' = "removeBlock (of_nat b) s", unfolded l]
      show ?thesis
        using coalesce_prev[OF U _ na b_def] xs False x fl' M H kk u(4) by auto
    qed
  next
    case False
    then obtain j ws where ys: "ys = (j, False) # ws" by (cases ys) auto
    then have jj: "16 \<le> j" using d(5) by simp
    have pn: "p + n \<in> set fl" using u(2,5) ys f by (auto simp: add.assoc)
    note H = unlisted_remove[OF U this, unfolded filter_single[OF dist]]
    show ?thesis
    proof (cases c)
      case True
      have x: "xs' = xs" "n' = n + j" "ys' = ws" "q = p"
        using C xs True ys q u(2) by (auto simp: coalesced_def)
      have l: "linkable p [(n, False), (j, False)] = {p, p + n}" using jj f(2) by auto
      have "xs @ (n, False) # ys = xs @ [(n, False), (j, False)] @ ws" using ys by simp
      note M = coalesce_merged[OF U this u(2), where N = "n + j" and A = "{p + n}"
          and s' = "removeBlock (of_nat (p + n)) s", unfolded l]
      show ?thesis
        using coalesce_next[OF U _ ys] xs True x fl' M H jj u(4) ys by auto
    next
      case False
      define b where "b = base + total zs"
      have x: "xs' = zs" "n' = k + n + j" "ys' = ws" "q = b"
        using C xs False ys q by (auto simp: coalesced_def b_def)
      have kk: "16 \<le> k" using d(5) xs False by simp
      have "b \<in> set fl" using u(5) xs False kk pk by (auto simp: b_def)
      then have "b \<in> set (remove1 (p + n) fl)" using pk f(2) by (simp add: b_def)
      from heap_raw_remove1[OF unlisted_remove[OF U pn] this]
      have H2: "heap_raw m0 K (removeBlock (of_nat b) (removeBlock (of_nat (p + n)) s)) base hi
          (xs @ (n, False) # ys) (filter (\<lambda>x. x \<notin> {b, p + n}) fl)"
        using dist by (simp add: filter_single distinct_filter conj_commute)
      have l: "linkable b [(k, False), (n, False), (j, False)] = {b, p, p + n}"
        using kk jj f(2) pk by (auto simp: b_def)
      have "xs @ (n, False) # ys = zs @ [(k, False), (n, False), (j, False)] @ ws" using xs ys False by simp
      note M = coalesce_merged[OF U this b_def, where N = "k + n + j" and A = "{b, p + n}"
          and s' = "removeBlock (of_nat b) (removeBlock (of_nat (p + n)) s)", unfolded l]
      show ?thesis
        using coalesce_both[OF U _ ys b_def] xs False x fl' M H2 kk u(4) ys by auto
    qed
  qed
qed

end
