(* ===== verification/Mm_Correct.thy ===== *)
theory Mm_Correct
  imports Mm_Coalesce
begin

text \<open>
  The allocator of \<^verbatim>\<open>mm.c\<close> against its specification. \<open>mm_inv s lo us fl\<close>: the region starts at
  \<open>lo\<close>, holds a padding word, the prologue block, the blocks \<open>us\<close> and the epilogue header up to the
  break; no two free blocks are adjacent; \<open>fl\<close> is the free list and holds exactly the free blocks.
  \<open>mm_init\<close> establishes it, \<open>mm_malloc\<close> and \<open>mm_free\<close> preserve it and change the blocks as the
  abstract operations say, and no byte of another allocated payload or outside the region changes.
\<close>

fun settled :: "block list \<Rightarrow> bool" where
  "settled ((n, a) # (k, c) # bs) \<longleftrightarrow> (a \<or> c) \<and> settled ((k, c) # bs)"
| "settled _ \<longleftrightarrow> True"

definition mm_inv :: "mm \<Rightarrow> nat \<Rightarrow> block list \<Rightarrow> nat list \<Rightarrow> bool" where
  "mm_inv s lo us fl \<longleftrightarrow> arena s lo (16 + total us) \<and> heap_listp s = of_nat (lo + 8)
     \<and> heap_raw (mem s) {} s (lo + 8) (lo + heap_limit) ((8, True) # us) fl
     \<and> set fl = free_at (lo + 16) us \<and> settled us \<and> (\<forall>(n, al) \<in> set us. 16 \<le> n)"

text \<open>The payload bytes of the allocated blocks, and the bytes outside the region.\<close>

definition payloads :: "nat \<Rightarrow> block list \<Rightarrow> nat set" where
  "payloads lo us = {b. \<exists>p n. (p, n, True) \<in> set (places (lo + 16) us) \<and> p \<le> b \<and> b < p + n - 8}"

definition not_region :: "nat \<Rightarrow> nat set" where
  "not_region lo = {b. b < 2 ^ 32 \<and> (b < lo \<or> lo + heap_limit \<le> b)}"

section \<open>Settled heaps\<close>

lemma settled_Cons [simp]:
  "settled ((n, a) # bs) \<longleftrightarrow> (a \<or> bs = [] \<or> snd (hd bs)) \<and> settled bs"
  by (cases bs) auto

lemma settled_append [simp]:
  "settled (xs @ ys) \<longleftrightarrow> settled xs \<and> settled ys \<and> (xs = [] \<or> ys = [] \<or> snd (last xs) \<or> snd (hd ys))"
proof (induction xs)
  case (Cons x xs)
  then show ?case by (cases x; cases xs) auto
qed simp

lemma coalesced_cases:
  assumes "coalesced xs n ys = (xs', n', ys')"
  obtains "xs' = xs" "n' = n" "ys' = ys" "xs = [] \<or> snd (last xs)" "ys = [] \<or> snd (hd ys)"
  | k where "xs' = xs" "n' = n + k" "ys = (k, False) # ys'" "xs = [] \<or> snd (last xs)"
  | k where "xs = xs' @ [(k, False)]" "n' = k + n" "ys' = ys" "ys = [] \<or> snd (hd ys)"
  | k j where "xs = xs' @ [(k, False)]" "n' = k + n + j" "ys = (j, False) # ys'"
proof (cases "xs \<noteq> [] \<and> \<not> snd (last xs)")
  case True
  then obtain zs k where "xs = zs @ [(k, False)]"
    by (cases xs rule: rev_cases) auto
  then show ?thesis
    using assms that(3,4) by (auto simp: coalesced_def split: list.splits prod.splits bool.splits)
next
  case False
  then show ?thesis
    using assms that(1,2) by (auto simp: coalesced_def split: list.splits prod.splits bool.splits)
qed

lemma coalesced_settled:
  assumes "coalesced xs n ys = (xs', n', ys')" "settled xs" "settled ys"
  shows "settled (xs' @ (n', False) # ys')"
  using assms(1) by (rule coalesced_cases) (use assms(2,3) in \<open>auto\<close>)

lemma coalesced_total:
  assumes "coalesced xs n ys = (xs', n', ys')" shows "total xs' + n' + total ys' = total xs + n + total ys"
  using assms by (rule coalesced_cases) auto

lemma coalesced_large:
  assumes "coalesced xs n ys = (xs', n', ys')" "\<forall>(k, al) \<in> set (xs @ (n, False) # ys). 16 \<le> k"
  shows "\<forall>(k, al) \<in> set (xs' @ (n', False) # ys'). 16 \<le> k"
  using assms(1) by (rule coalesced_cases) (use assms(2) in \<open>auto\<close>)

lemma coalesced_prologue:
  "coalesced ((8, True) # xs) n ys
    = (case coalesced xs n ys of (xs', n', ys') \<Rightarrow> ((8, True) # xs', n', ys'))"
  by (cases xs rule: rev_cases) (auto simp: coalesced_def split: prod.splits list.splits bool.splits)

text \<open>Coalescing keeps the allocated blocks where they are.\<close>

lemma coalesced_allocated:
  assumes "coalesced xs n ys = (xs', n', ys')"
  shows "(p, k, True) \<in> set (places b (xs' @ (n', False) # ys'))
    \<longleftrightarrow> (p, k, True) \<in> set (places b (xs @ (n, False) # ys))"
  using assms by (rule coalesced_cases) (auto simp: add.assoc)

section \<open>The state around the list operations\<close>

lemma coalesce_fields [simp]:
  "mem_start_brk (snd (coalesce p s)) = mem_start_brk s"
  "mem_brk (snd (coalesce p s)) = mem_brk s"
  "mem_max_addr (snd (coalesce p s)) = mem_max_addr s"
  "heap_listp (snd (coalesce p s)) = heap_listp s"
  by (simp_all add: coalesce_def Let_def)

lemma arena_cong:
  "arena s lo u \<Longrightarrow> mem_start_brk s' = mem_start_brk s \<Longrightarrow> mem_brk s' = mem_brk s
    \<Longrightarrow> mem_max_addr s' = mem_max_addr s \<Longrightarrow> arena s' lo u"
  by (simp add: arena_def)

lemma mm_invD:
  assumes "mm_inv s lo us fl"
  shows "arena s lo (16 + total us)" "heap_listp s = of_nat (lo + 8)"
    "heap_raw (mem s) {} s (lo + 8) (lo + heap_limit) ((8, True) # us) fl"
    "set fl = free_at (lo + 16) us" "settled us" "\<forall>(n, al) \<in> set us. 16 \<le> n"
  using assms by (auto simp: mm_inv_def)

text \<open>
  Any set of bytes outside the tags, the free blocks and the listed ones can be taken as the kept
  bytes; at the end they are forgotten again.
\<close>

lemma heap_raw_keep:
  assumes "heap_raw m0 K0 s base hi bs fl" "\<forall>b \<in> K. b < 2 ^ 32"
    "K \<inter> writable base hi bs (set fl) = {}"
  shows "heap_raw (mem s) K s base hi bs fl"
  using assms by (auto simp: heap_raw_def kept_def)

lemma heap_raw_forget:
  "heap_raw m0 K s base hi bs fl \<Longrightarrow> heap_raw (mem s) {} s base hi bs fl"
  by (auto simp: heap_raw_def kept_def)

lemma heap_raw_same_bytes: "heap_raw m0 K s base hi bs fl \<Longrightarrow> same_bytes m0 (mem s) K"
  by (auto simp: heap_raw_def kept_def same_bytes_def)

lemma allocated_unlisted:
  assumes "(p, n, True) \<in> set (places b bs)" "sized bs" shows "p \<notin> free_at b bs"
  using places_apart[OF assms(2,1)] places_sized(2)[OF assms(2)] assms(1)
  by (fastforce simp: free_at_def)

lemma payload_kept_raw:
  assumes H: "heap_raw m0 K0 s (lo + 8) (lo + heap_limit) ((8, True) # us) fl"
    and L: "\<And>p n. (p, n, True) \<in> set (places (lo + 16) us) \<Longrightarrow> p \<notin> set fl"
  shows "(payloads lo us \<union> not_region lo) \<inter> writable (lo + 8) (lo + heap_limit) ((8, True) # us) (set fl) = {}"
    and "\<forall>b \<in> payloads lo us \<union> not_region lo. b < 2 ^ 32"
proof -
  note d = heap_rawD[OF H]
  let ?bs = "(8, True) # us"
  have us: "(q, k, c) \<in> set (places (lo + 8) ?bs)" if "(q, k, c) \<in> set (places (lo + 16) us)" for q k c
    using that by (simp add: add.commute)
  have hi: "lo + 16 + total us \<le> lo + heap_limit" "lo + heap_limit < 2 ^ 32" using d(3,4) by auto
  have pay: "b < 2 ^ 32 \<and> lo + 16 \<le> b \<and> b + 8 \<le> lo + 16 + total us \<and> b \<notin> cell (set fl) q k c"
    if b: "(p, n, True) \<in> set (places (lo + 16) us)" "p \<le> b" "b < p + n - 8"
      and q: "(q, k, c) \<in> set (places (lo + 8) ?bs)" for b p n q k c
  proof -
    note r = places_range[OF b(1)] and us = us[OF b(1)]
    have p: "p \<notin> set fl" by (rule L[OF b(1)])
    have z: "8 \<le> n" "8 \<le> k" using places_sized(2)[OF d(5) us] places_sized(2)[OF d(5) q] by auto
    from places_apart[OF d(5) us q] have "b \<notin> cell (set fl) q k c"
      using b p z r(1) by (auto simp: cell_def region_def)
    with r b z hi show ?thesis by auto
  qed
  have e: "lo + 8 + total ?bs - 4 = lo + 12 + total us" by simp
  show "(payloads lo us \<union> not_region lo) \<inter> writable (lo + 8) (lo + heap_limit) ?bs (set fl) = {}"
  proof -
    have "b \<notin> writable (lo + 8) (lo + heap_limit) ?bs (set fl)" if "b \<in> payloads lo us" for b
    proof -
      from that obtain p n where b: "(p, n, True) \<in> set (places (lo + 16) us)" "p \<le> b" "b < p + n - 8"
        by (auto simp: payloads_def split: if_splits)
      have "(lo + 8, 8, True) \<in> set (places (lo + 8) ?bs)" by simp
      from pay[OF b this] have "b \<notin> {lo + 12 + total us..<lo + heap_limit}" by auto
      with pay[OF b] show ?thesis by (auto simp: writable_def e)
    qed
    moreover have "b \<notin> writable (lo + 8) (lo + heap_limit) ?bs (set fl)" if b: "b \<in> not_region lo" for b
    proof
      assume "b \<in> writable (lo + 8) (lo + heap_limit) ?bs (set fl)"
      then consider "b \<in> {lo + 12 + total us..<lo + heap_limit}"
        | q k c where "(q, k, c) \<in> set (places (lo + 8) ?bs)" "b \<in> cell (set fl) q k c"
        unfolding writable_def e by blast
      then show False
      proof cases
        case 2
        note r = places_range[OF 2(1)]
        have "8 \<le> k" using places_sized(2)[OF d(5) 2(1)] .
        then have "b \<in> region q k" using 2(2) cell_region[of q k] r(1) d(2) by auto
        with r hi b show False by (auto simp: region_def not_region_def)
      qed (use b in \<open>auto simp: not_region_def\<close>)
    qed
    ultimately show ?thesis by blast
  qed
  show "\<forall>b \<in> payloads lo us \<union> not_region lo. b < 2 ^ 32"
    using pay[of _ _ _ "lo + 8" 8 True] by (fastforce simp: payloads_def not_region_def split: if_splits)
qed

lemma payload_kept:
  assumes I: "mm_inv s lo us fl"
  shows "(payloads lo us \<union> not_region lo) \<inter> writable (lo + 8) (lo + heap_limit) ((8, True) # us) (set fl) = {}"
    and "\<forall>b \<in> payloads lo us \<union> not_region lo. b < 2 ^ 32"
proof -
  note i = mm_invD[OF I]
  have "p \<notin> set fl" if "(p, n, True) \<in> set (places (lo + 16) us)" for p n
    using allocated_unlisted[OF that] i(4) heap_rawD(5)[OF i(3)] by simp
  note k = payload_kept_raw[OF i(3) this]
  show "(payloads lo us \<union> not_region lo) \<inter> writable (lo + 8) (lo + heap_limit) ((8, True) # us) (set fl) = {}"
    by (rule k(1))
  show "\<forall>b \<in> payloads lo us \<union> not_region lo. b < 2 ^ 32" by (rule k(2))
qed

section \<open>Freeing a block\<close>

lemma payloads_coalesced:
  assumes "coalesced xs n ys = (xs', n', ys')"
  shows "payloads lo (xs' @ (n', False) # ys') = payloads lo (xs @ (n, False) # ys)"
  by (simp only: payloads_def coalesced_allocated[OF assms])

lemma free_block_payloads:
  assumes "sized (xs @ (n, False) # ys)" "p = lo + 16 + total xs"
  shows "payloads lo (xs @ (n, False) # ys) \<inter> region p n = {}"
proof -
  have "{q..<q + k - 8} \<inter> region p n = {}"
    if q: "(q, k, True) \<in> set (places (lo + 16) (xs @ (n, False) # ys))" for q k
  proof -
    have "(p, n, False) \<in> set (places (lo + 16) (xs @ (n, False) # ys))" using assms(2) by simp
    from places_apart[OF assms(1) q this] places_sized(2)[OF assms(1) q]
    show ?thesis by (auto simp: region_def)
  qed
  then show ?thesis by (fastforce simp: payloads_def split: if_splits)
qed

lemma payloads_free_subset:
  "payloads lo (xs @ (n, False) # ys) \<subseteq> payloads lo (xs @ (n, al) # ys)"
  by (auto simp: payloads_def split: if_splits)

lemma not_region_block:
  assumes "(p, n, al) \<in> set (places (lo + 8) bs)" "lo + 8 + total bs \<le> lo + heap_limit"
  shows "not_region lo \<inter> region p n = {}"
  using places_range[OF assms(1)] assms(2) by (auto simp: not_region_def region_def)

text \<open>The end of every operation that gives memory back: the coalesced heap is a heap again.\<close>

lemma coalesce_inv:
  assumes U: "unlisted m0 K s (lo + 8) (lo + heap_limit) ((8, True) # xs) n ys fl p"
    and A: "arena s lo (16 + total (xs @ (n, False) # ys))" "heap_listp s = of_nat (lo + 8)"
    and B: "settled xs" "settled ys" "\<forall>(k, al) \<in> set (xs @ (n, False) # ys). 16 \<le> k"
    and C: "coalesced xs n ys = (xs', n', ys')" and q: "q = lo + 16 + total xs'"
  shows "fst (coalesce (of_nat p) s) = of_nat q"
    and "mm_inv (snd (coalesce (of_nat p) s)) lo (xs' @ (n', False) # ys') (q # outside q n' fl)"
    and "same_bytes m0 (mem (snd (coalesce (of_nat p) s))) K"
proof -
  have C8: "coalesced ((8, True) # xs) n ys = ((8, True) # xs', n', ys')"
    by (simp add: coalesced_prologue C)
  obtain s' where s': "coalesce (of_nat p) s = (of_nat q, s')"
    and H: "heap_raw m0 K s' (lo + 8) (lo + heap_limit) (((8, True) # xs') @ (n', False) # ys') (q # outside q n' fl)"
    and F: "set (q # outside q n' fl) = free_at (lo + 8) (((8, True) # xs') @ (n', False) # ys')"
    using coalesce_heap[OF U C8 _ refl, of q] q by auto
  have f: "mem_start_brk s' = mem_start_brk s" "mem_brk s' = mem_brk s"
    "mem_max_addr s' = mem_max_addr s" "heap_listp s' = heap_listp s"
    using coalesce_fields[of "of_nat p" s] s' by simp_all
  have "total (xs' @ (n', False) # ys') = total (xs @ (n, False) # ys)"
    using coalesced_total[OF C] by simp
  then have "arena s' lo (16 + total (xs' @ (n', False) # ys'))"
    using A(1) f by (simp add: arena_def)
  moreover have "heap_raw (mem s') {} s' (lo + 8) (lo + heap_limit) ((8, True) # xs' @ (n', False) # ys') (q # outside q n' fl)"
    using heap_raw_forget[OF H] by simp
  moreover have "set (q # outside q n' fl) = free_at (lo + 16) (xs' @ (n', False) # ys')"
    using F by (simp add: add.commute)
  moreover note coalesced_settled[OF C B(1,2)] coalesced_large[OF C B(3)]
  ultimately show "mm_inv (snd (coalesce (of_nat p) s)) lo (xs' @ (n', False) # ys') (q # outside q n' fl)"
    using s' f(4) A(2) unfolding mm_inv_def by simp
  show "fst (coalesce (of_nat p) s) = of_nat q" "same_bytes m0 (mem (snd (coalesce (of_nat p) s))) K"
    using s' heap_raw_same_bytes[OF H] by simp_all
qed

lemma retag_PUT:
  assumes "block_at (mem s) p n al" "16 \<le> n"
  shows "PUT (FTRP (store32 (mem s) (of_nat (p - 4)) (tag n c)) (of_nat p)) (tag n c)
      (PUT (of_nat (p - 4)) (tag n c) s) = with_mem s (retagged (mem s) p n c)"
proof -
  have "FTRP (store32 (mem s) (of_nat (p - 4)) (tag n c)) (of_nat p) = of_nat (p + n - 8)"
    using assms by (intro FTRP_tag[where al = c]) (auto simp: block_at_def)
  then show ?thesis by (simp add: retagged_def)
qed

lemma mm_free_refines:
  assumes I: "mm_inv s lo (xs @ (n, True) # ys) fl" and p: "p = lo + 16 + total xs"
    and C: "coalesced xs n ys = (xs', n', ys')" and q: "q = lo + 16 + total xs'"
  shows "mm_inv (mm_free (of_nat p) s) lo (xs' @ (n', False) # ys') (q # outside q n' fl)"
    and "same_bytes (mem s) (mem (mm_free (of_nat p) s))
      (payloads lo (xs' @ (n', False) # ys') \<union> not_region lo)"
proof -
  note i = mm_invD[OF I] and d = heap_rawD[OF mm_invD(3)[OF I]]
  let ?K = "payloads lo (xs @ (n, False) # ys) \<union> not_region lo"
  let ?bs = "((8, True) # xs) @ (n, True) # ys"
  have at: "(p, n, True) \<in> set (places (lo + 8) ?bs)" using p by (simp add: add.commute add.left_commute)
  have n: "16 \<le> n" using i(6) by simp
  have H: "heap_raw (mem s) ?K s (lo + 8) (lo + heap_limit) (((8, True) # xs) @ [(n, True)] @ ys) fl"
    using heap_raw_keep[OF i(3), of ?K] payload_kept[OF I] payloads_free_subset[of lo xs n ys True] by auto
  have sz: "sized (xs @ (n, False) # ys)" using d(5) n by simp
  define s2 where "s2 = with_mem s (retagged (mem s) p n False)"
  have b: "block_at (mem s) p n True" using heap_raw_block_at[OF H, of p n True] at by simp
  then have "8 dvd n" "16 \<le> p" by (auto simp: block_at_def)
  then have e: "mm_free (of_nat p) s = snd (coalesce (of_nat p) s2)"
    using retag_PUT[OF b n, of False] block_at_reads[OF b] PACK_tag(2)[of n]
    by (simp add: mm_free_def Let_def s2_def)
  have p8: "p = lo + 8 + total ((8, True) # xs)" using p by simp
  have "?K \<inter> region p n = {}"
    using free_block_payloads[OF sz p] not_region_block[OF at] d(3) by auto
  then have H2: "heap_raw (mem s) ?K s2 (lo + 8) (lo + heap_limit) (((8, True) # xs) @ (n, False) # ys) fl"
    using n by (intro heap_raw_retag[OF H p8]) (auto simp: s2_def)
  have f: "set fl = free_at (lo + 16) (xs @ (n, True) # ys)" "p \<notin> set fl"
    using i(4) allocated_unlisted[of p n "lo + 16" "xs @ (n, True) # ys"] d(5) p by simp_all
  have U: "unlisted (mem s) ?K s2 (lo + 8) (lo + heap_limit) ((8, True) # xs) n ys fl p"
    using H2 p f by (auto simp: unlisted_def add.commute add.left_commute)
  note c = coalesce_inv[OF U _ _ _ _ _ C q]
  have "arena s2 lo (16 + total (xs @ (n, False) # ys))" using i(1) by (simp add: s2_def arena_def)
  from c(2)[OF this] c(3)[OF this] i(2,5,6) n
  show "mm_inv (mm_free (of_nat p) s) lo (xs' @ (n', False) # ys') (q # outside q n' fl)"
    "same_bytes (mem s) (mem (mm_free (of_nat p) s)) (payloads lo (xs' @ (n', False) # ys') \<union> not_region lo)"
    by (auto simp: e s2_def payloads_coalesced[OF C])
qed

end
