(* ===== verification/Mm_Malloc.thy ===== *)
theory Mm_Malloc
  imports Mm_Correct
begin

text \<open>
  \<open>mm_malloc\<close> against its specification: the first block of the free list that is large enough is
  taken and split when the rest can be a block; else the heap grows, or, when it cannot, nothing
  changes. \<open>find_fit\<close> ends because the free list is finite.
\<close>

definition placed :: "nat \<Rightarrow> nat \<Rightarrow> block list" where
  "placed a c = (if a + 16 \<le> c then [(a, True), (c - a, False)] else [(c, True)])"

section \<open>Placing a block\<close>

lemma outside_self:
  assumes "unlisted m0 K s base hi xs n ys fl p" shows "outside p n fl = fl"
  using outside_removed[of fl base xs "[(n, False)]" ys p "{}"] unlistedD[OF assms]
    unlisted_block(2)[OF assms] heap_rawD(9)[OF unlistedD(1)[OF assms]] by simp

lemma free_list_changes:
  assumes "free_list s fl" "changes (mem s) (mem s') W" "W \<inter> link_bytes fl = {}"
    "free_listp s' = free_listp s"
  shows "free_list s' fl"
  using assms links_changes[OF _ assms(2,3)] by (auto simp: free_list_def)

text \<open>The memory after the split of the listed free block at \<open>p\<close>, before \<open>coalesce\<close> inserts the rest.\<close>

definition split_block :: "nat \<Rightarrow> nat \<Rightarrow> nat \<Rightarrow> mm \<Rightarrow> mm" where
  "split_block p a c s =
     (let s3 = removeBlock (of_nat p) (with_mem s (retagged (mem s) p a True))
      in with_mem s3 (retagged (mem s3) (p + a) (c - a) False))"

lemma listed_apart:
  assumes H: "heap_raw m0 K s base hi (xs @ (c, al) # ys) fl" and p: "p = base + total xs"
    and x: "x \<in> set fl" "x \<noteq> p"
  shows "x + 16 \<le> p \<or> p + c \<le> x"
proof -
  have at: "(p, c, al) \<in> set (places base (xs @ (c, al) # ys))" using p by simp
  obtain k d where k: "(x, k, d) \<in> set (places base (xs @ (c, al) # ys))" "16 \<le> k"
    using linkableE[OF subsetD[OF heap_rawD(9)[OF H] x(1)]] .
  from places_apart[OF heap_rawD(5)[OF H] at k(1)] k(2) x(2) show ?thesis by auto
qed

lemma split_block_heap:
  assumes H: "heap_raw m0 K s base hi (xs @ (c, False) # ys) fl" and p: "p = base + total xs"
    and a: "16 \<le> a" "8 dvd a" "a + 16 \<le> c" and l: "p \<in> set fl"
  shows "heap_raw m0 K (split_block p a c s) base hi (xs @ [(a, True), (c - a, False)] @ ys) (remove1 p fl)"
    and "block_at (mem (removeBlock (of_nat p) (with_mem s (retagged (mem s) p a True)))) p a True"
proof -
  note d = heap_rawD[OF H]
  have at: "(p, c, False) \<in> set (places base (xs @ (c, False) # ys))" using p by simp
  have b: "16 \<le> p" "8 dvd p" "8 dvd c" "p + c < 2 ^ 32" "8 dvd c - a" "8 dvd p + a"
    using heap_raw_block_at[OF H at] a(2) by (auto simp: block_at_def)
  define s2 where "s2 = with_mem s (retagged (mem s) p a True)"
  define s3 where "s3 = removeBlock (of_nat p) s2"
  obtain us vs where uv: "fl = us @ p # vs" "p \<notin> set us" using l split_list_first by metis
  then have dis: "remove1 p fl = us @ vs" "p \<notin> set (us @ vs)"
    using d(8) by (auto simp: remove1_append free_list_def)
  have ap: "x + 16 \<le> p \<or> p + c \<le> x" if "x \<in> set (us @ vs)" for x
    using listed_apart[OF H p, of x] that uv dis(2) by auto
  have lb: "region p c \<inter> link_bytes (us @ vs) = {}"
    using ap by (fastforce simp: link_bytes_def region_def)
  note r = retagged_props[OF b(1,2) a(2) _ _, of "mem s" True]
  have c2: "changes (mem s) (mem s2) ({p - 4..<p} \<union> {p + a - 8..<p + a - 4})"
    using r(1) a b by (simp add: s2_def)
  have sub: "{p - 4..<p} \<union> {p + a - 8..<p + a - 4} \<subseteq> region p c" using a b by (auto simp: region_def)
  have "({p - 4..<p} \<union> {p + a - 8..<p + a - 4}) \<inter> link_bytes fl = {}"
    using lb sub uv(1) a b by auto
  from free_list_changes[OF d(8) c2 this] have f2: "free_list s2 (us @ p # vs)" by (simp add: s2_def uv(1))
  have bl2: "block_at (mem s2) p a True" using r(2) a b by (simp add: s2_def)
  note rm = removeBlock_links[OF f2, folded s3_def]
  have bl3: "block_at (mem s3) p a True"
    using lb sub by (intro block_at_changes[OF bl2 rm(2)]) auto
  then show "block_at (mem (removeBlock (of_nat p) (with_mem s (retagged (mem s) p a True)))) p a True"
    by (simp add: s3_def s2_def)
  define s5 where "s5 = with_mem s3 (retagged (mem s3) (p + a) (c - a) False)"
  have c5: "changes (mem s3) (mem s5) ({p + a - 4..<p + a} \<union> {p + c - 8..<p + c - 4})"
    using retagged_props(1)[of "p + a" "c - a" "mem s3" False] a b by (simp add: s5_def)
  have sub5: "{p + a - 4..<p + a} \<union> {p + c - 8..<p + c - 4} \<subseteq> region p c"
    using a b by (auto simp: region_def)
  have f5: "free_list s5 (us @ vs)"
    using sub5 lb by (intro free_list_changes[OF rm(1) c5]) (auto simp: s5_def)
  have bl5: "block_at (mem s5) p a True"
    using a b by (intro block_at_changes[OF bl3 c5]) auto
  have br5: "block_at (mem s5) (p + a) (c - a) False"
    using retagged_props(2)[of "p + a" "c - a" "mem s3" False] a b by (simp add: s5_def)
  have H': "heap_raw m0 K s base hi (xs @ [(c, False)] @ ys) fl" using H by simp
  have "heap_raw m0 K s5 base hi (xs @ [(a, True), (c - a, False)] @ ys) (us @ vs)"
  proof (rule heap_raw_update[OF H' p])
    show "changes (mem s) (mem s5) (region p (total [(c, False)]) \<union> link_bytes fl)"
      using changes_mono[OF changes_trans[OF changes_trans[OF c2 rm(2)] c5],
          of "region p (total [(c, False)]) \<union> link_bytes fl"] sub sub5 uv(1) by auto
    show "tagged (mem s5) p [(a, True), (c - a, False)]"
      using bl5 br5 by (simp add: block_at_def)
    show "set (us @ vs) \<subseteq> linkable base (xs @ [(a, True), (c - a, False)] @ ys)"
    proof
      fix x assume x: "x \<in> set (us @ vs)"
      then have "x \<in> linkable base (xs @ (c, False) # ys)" "x \<noteq> p" using d(9) uv(1) dis(2) by auto
      then show "x \<in> linkable base (xs @ [(a, True), (c - a, False)] @ ys)"
        using p a by (auto simp: add.assoc split: if_splits)
    qed
    show "K \<inter> region p (total [(c, False)]) = {}"
      using free_region_kept[OF H' p] by simp
  qed (use f5 a b uv(1) in auto)
  then show "heap_raw m0 K (split_block p a c s) base hi (xs @ [(a, True), (c - a, False)] @ ys) (remove1 p fl)"
    by (simp add: split_block_def Let_def dis(1) s5_def s3_def s2_def)
qed

lemma place_split:
  assumes H: "heap_raw m0 K s base hi (xs @ (c, False) # ys) fl" and p: "p = base + total xs"
    and a: "16 \<le> a" "8 dvd a" "a + 16 \<le> c" and l: "p \<in> set fl"
  shows "place (of_nat p) (of_nat a) s = snd (coalesce (of_nat (p + a)) (split_block p a c s))"
proof -
  have at: "(p, c, False) \<in> set (places base (xs @ (c, False) # ys))" using p by simp
  note bl = heap_raw_block_at[OF H at] and s = split_block_heap[OF H p a l]
  have b: "16 \<le> p" "8 dvd p" "8 dvd c" "p + c < 2 ^ 32" "8 dvd c - a" "8 dvd p + a"
    using bl a(2) by (auto simp: block_at_def)
  let ?s3 = "removeBlock (of_nat p) (with_mem s (retagged (mem s) p a True))"
  have "FTRP (store32 (mem s) (of_nat (p - 4)) (tag a True)) (of_nat p) = of_nat (p + a - 8)"
    using a b by (intro FTRP_tag[where al = True]) auto
  then have 2: "PUT (FTRP (store32 (mem s) (of_nat (p - 4)) (tag a True)) (of_nat p)) (tag a True)
      (PUT (of_nat (p - 4)) (tag a True) s) = with_mem s (retagged (mem s) p a True)"
    by (simp add: retagged_def)
  have "FTRP (store32 (mem ?s3) (of_nat (p + a - 4)) (tag (c - a) False)) (of_nat (p + a))
      = of_nat (p + a + (c - a) - 8)"
    using a b by (intro FTRP_tag[where al = False]) auto
  then have 5: "PUT (FTRP (store32 (mem ?s3) (of_nat (p + a - 4)) (tag (c - a) False)) (of_nat (p + a)))
      (tag (c - a) False) (PUT (of_nat (p + a - 4)) (tag (c - a) False) ?s3) = split_block p a c s"
    by (simp add: split_block_def Let_def retagged_def)
  have ge: "(16 :: u32) \<le> of_nat (c - a)"
    using a b of_nat_le_iff_u32[of 16 "c - a"] by simp
  then show ?thesis
    using 2 5 b a block_at_reads[OF bl] block_at_reads[OF s(2)] PACK_tag(1)[OF a(2)] PACK_tag(2)[OF b(5)]
    by (simp add: place_def Let_def DSIZE_def OVERHEAD_def)
qed

lemma place_whole:
  assumes H: "heap_raw m0 K s base hi (xs @ (c, False) # ys) fl" and p: "p = base + total xs"
    and a: "a \<le> c" "\<not> a + 16 \<le> c" and l: "p \<in> set fl" and c: "16 \<le> c"
  shows "place (of_nat p) (of_nat a) s = removeBlock (of_nat p) (with_mem s (retagged (mem s) p c True))"
    and "heap_raw m0 K (place (of_nat p) (of_nat a) s) base hi (xs @ (c, True) # ys) (remove1 p fl)"
proof -
  have at: "(p, c, False) \<in> set (places base (xs @ (c, False) # ys))" using p by simp
  note bl = heap_raw_block_at[OF H at]
  have b: "16 \<le> p" "8 dvd c" "p + c < 2 ^ 32" using bl by (auto simp: block_at_def)
  have "\<not> (16 :: u32) \<le> of_nat (c - a)"
    using a b of_nat_le_iff_u32[of 16 "c - a"] by simp
  then show e: "place (of_nat p) (of_nat a) s = removeBlock (of_nat p) (with_mem s (retagged (mem s) p c True))"
    using retag_PUT[OF bl c, of True] b block_at_reads[OF bl] PACK_tag(1)[OF b(2)] a(1)
    by (simp add: place_def Let_def DSIZE_def OVERHEAD_def)
  have H': "heap_raw m0 K s base hi (xs @ [(c, False)] @ ys) fl" using H by simp
  have K: "K \<inter> region p c = {}" using free_region_kept[OF H' p] by simp
  have "heap_raw m0 K (with_mem s (retagged (mem s) p c True)) base hi (xs @ (c, True) # ys) fl"
    using K c by (intro heap_raw_retag[OF H' p]) auto
  from heap_raw_remove1[OF this l] show
    "heap_raw m0 K (place (of_nat p) (of_nat a) s) base hi (xs @ (c, True) # ys) (remove1 p fl)"
    by (simp add: e)
qed

lemma split_block_fields [simp]:
  "mem_start_brk (split_block p a c s) = mem_start_brk s" "mem_brk (split_block p a c s) = mem_brk s"
  "mem_max_addr (split_block p a c s) = mem_max_addr s" "heap_listp (split_block p a c s) = heap_listp s"
  by (simp_all add: split_block_def Let_def)

lemma free_block_listed:
  assumes I: "mm_inv s lo (xs @ (c, False) # ys) fl" and p: "p = lo + 16 + total xs"
  shows "p \<in> set fl" "16 \<le> c" "p = lo + 8 + total ((8, True) # xs)"
    "xs = [] \<or> snd (last xs)" "ys = [] \<or> snd (hd ys)"
    "heap_raw (mem s) (payloads lo (xs @ (c, False) # ys) \<union> not_region lo) s (lo + 8) (lo + heap_limit)
      (((8, True) # xs) @ (c, False) # ys) fl"
  using mm_invD[OF I] p heap_raw_keep[OF mm_invD(3)[OF I]] payload_kept[OF I] by auto

definition place_list :: "nat \<Rightarrow> nat \<Rightarrow> nat \<Rightarrow> nat list \<Rightarrow> nat list" where
  "place_list p a c fl = (if a + 16 \<le> c then (p + a) # remove1 p fl else remove1 p fl)"

lemma place_refines:
  assumes I: "mm_inv s lo (xs @ (c, False) # ys) fl" and p: "p = lo + 16 + total xs"
    and a: "16 \<le> a" "8 dvd a" "a \<le> c"
  shows "mm_inv (place (of_nat p) (of_nat a) s) lo (xs @ placed a c @ ys) (place_list p a c fl)"
    and "same_bytes (mem s) (mem (place (of_nat p) (of_nat a) s))
      (payloads lo (xs @ (c, False) # ys) \<union> not_region lo)"
proof -
  note i = mm_invD[OF I] and f = free_block_listed[OF I p]
  let ?K = "payloads lo (xs @ (c, False) # ys) \<union> not_region lo"
  have d: "distinct fl" using heap_rawD(8)[OF f(6)] by (simp add: free_list_def)
  have at: "p \<notin> free_at (lo + 16) xs" "p \<notin> free_at (p + c) ys" "p + a \<notin> free_at (lo + 16) xs"
    "a < c \<longrightarrow> p + a \<notin> free_at (p + c) ys"
    using free_at_range[of xs _ "lo + 16"] free_at_range[of ys _ "p + c"] heap_rawD(5)[OF f(6)] p f(2)
    by (auto, fastforce+)
  have fl: "set (remove1 p fl) = free_at (lo + 16) xs \<union> free_at (p + c) ys"
    using i(4) d at p by (auto simp: add.assoc)
  have "mm_inv (place (of_nat p) (of_nat a) s) lo (xs @ placed a c @ ys) (place_list p a c fl)
    \<and> same_bytes (mem s) (mem (place (of_nat p) (of_nat a) s)) ?K"
  proof (cases "a + 16 \<le> c")
    case True
    let ?s = "split_block p a c s" and ?xs = "xs @ [(a, True)]"
    have e: "place (of_nat p) (of_nat a) s = snd (coalesce (of_nat (p + a)) ?s)"
      by (rule place_split[OF f(6) f(3) a(1,2) True f(1)])
    have U: "unlisted (mem s) ?K ?s (lo + 8) (lo + heap_limit) ((8, True) # ?xs) (c - a) ys (remove1 p fl) (p + a)"
      unfolding unlisted_def
      using split_block_heap(1)[OF f(6) f(3) a(1,2) True f(1)] fl at True p
      by (auto simp: add.commute add.left_commute)
    have C: "coalesced ?xs (c - a) ys = (?xs, c - a, ys)"
      using f(5) by (auto simp: coalesced_def split: list.splits)
    have 1: "arena ?s lo (16 + total (?xs @ (c - a, False) # ys))" using i(1) True by (simp add: arena_def)
    have 2: "heap_listp ?s = of_nat (lo + 8)" "settled ?xs" "settled ys"
      "\<forall>(k, al) \<in> set (?xs @ (c - a, False) # ys). 16 \<le> k" using i a True by auto
    have 3: "p + a = lo + 16 + total ?xs" using p by simp
    show ?thesis
      using coalesce_inv(2,3)[OF U 1 2 C 3] outside_self[OF U] e True
      by (simp add: placed_def place_list_def)
  next
    case False
    note w = place_whole[OF f(6) f(3) a(3) False f(1,2)]
    have "arena (place (of_nat p) (of_nat a) s) lo (16 + total (xs @ (c, True) # ys))"
      using i(1) w(1) by (simp add: arena_def)
    moreover have "set (remove1 p fl) = free_at (lo + 16) (xs @ (c, True) # ys)"
      using fl p by (simp add: add.assoc)
    ultimately show ?thesis
      using heap_raw_forget[OF w(2)] heap_raw_same_bytes[OF w(2)] i(2,5,6) w(1) False
      by (simp add: mm_inv_def placed_def place_list_def)
  qed
  then show "mm_inv (place (of_nat p) (of_nat a) s) lo (xs @ placed a c @ ys) (place_list p a c fl)"
    "same_bytes (mem s) (mem (place (of_nat p) (of_nat a) s)) ?K" by auto
qed

section \<open>Searching the free list\<close>

fun size_at :: "nat \<Rightarrow> block list \<Rightarrow> nat \<Rightarrow> nat" where
  "size_at p [] x = 0"
| "size_at p ((n, al) # bs) x = (if x = p then n else size_at (p + n) bs x)"

lemma size_at_places:
  assumes "(x, n, al) \<in> set (places p bs)" "sized bs" shows "size_at p bs x = n"
  using assms
proof (induction bs arbitrary: p)
  case (Cons b bs)
  obtain k c where b: "b = (k, c)" by (cases b)
  show ?case
  proof (cases "x = p")
    case True
    with places_apart[OF Cons.prems(2,1), of p k c] b Cons.prems places_sized(2)[OF Cons.prems(2,1)]
    show ?thesis by auto
  qed (use Cons b in auto)
qed simp

lemma find_fit_from_links:
  assumes "links m pv fl 0" "\<forall>x \<in> set fl. block_at m x (f x) False" "a < 2 ^ 32"
  shows "find_fit_from m (of_nat a) (of_nat (first_or fl 0))
    = Some (case find (\<lambda>x. a \<le> f x) fl of None \<Rightarrow> 0 | Some x \<Rightarrow> of_nat x)"
  using assms
proof (induction fl arbitrary: pv)
  case Nil
  then show ?case by (simp add: find_fit_from.simps)
next
  case (Cons x xs)
  then have b: "block_at m x (f x) False" by simp
  have x: "16 \<le> x" "x < 2 ^ 32" "f x < 2 ^ 32" using b by (auto simp: block_at_def)
  then have "(of_nat x :: u32) \<noteq> 0" using of_nat_eq_0_iff_u32 by simp
  then show ?case
    using Cons block_at_reads[OF b] x of_nat_le_iff_u32[of a "f x"] next_of_eq[of m x]
    by (subst find_fit_from.simps) auto
qed

lemma find_fit_refines:
  assumes I: "mm_inv s lo us fl" and a: "a < 2 ^ 32"
  shows "find_fit (of_nat a) s
    = Some (case find (\<lambda>x. a \<le> size_at (lo + 16) us x) fl of None \<Rightarrow> 0 | Some x \<Rightarrow> of_nat x)"
proof -
  note i = mm_invD[OF I] and d = heap_rawD[OF mm_invD(3)[OF I]]
  have "block_at (mem s) x (size_at (lo + 16) us x) False" if x: "x \<in> set fl" for x
  proof -
    obtain n where n: "(x, n, False) \<in> set (places (lo + 16) us)" using x i(4) by (auto simp: free_at_def)
    then have "(x, n, False) \<in> set (places (lo + 8) ((8, True) # us))" by (simp add: add.commute)
    from heap_raw_block_at[OF i(3) this] size_at_places[OF n] d(5) show ?thesis by simp
  qed
  then show ?thesis
    using d(8) find_fit_from_links[of "mem s" 0 fl "size_at (lo + 16) us" a] a
    by (simp add: find_fit_def free_list_def)
qed

end
