(* ===== verification/Mm_Alloc.thy ===== *)
theory Mm_Alloc
  imports Mm_Malloc
begin

text \<open>
  Growing the heap, \<open>mm_init\<close>, and \<open>mm_malloc\<close> as a whole: on each of its outcomes the blocks and
  the free list after the call are those of the abstract allocator, and what it hands out is
  aligned, large enough and apart from everything handed out before.
\<close>

section \<open>Growing the heap\<close>

lemma kept_changes:
  assumes "kept m0 K m V" "changes m m' W" "W \<subseteq> V" "V' \<subseteq> V" shows "kept m0 K m' V'"
proof -
  have "b \<notin> W" if "b \<in> K" for b using assms(1,3) that by (auto simp: kept_def)
  with assms show ?thesis by (auto simp: kept_def changes_def)
qed

lemma heap_raw_extend:
  assumes H: "heap_raw m0 K s base hi bs fl" and P: "P = base + total bs"
    and n: "8 dvd n" "16 \<le> n" "P + n \<le> hi"
    and m: "mem s' = store32 (retagged (mem s) P n False) (of_nat (P + n - 4)) (tag 0 True)"
    and f: "free_listp s' = free_listp s"
  shows "heap_raw m0 K s' base hi (bs @ [(n, False)]) fl"
proof -
  note d = heap_rawD[OF H]
  let ?W = "({P - 4..<P} \<union> {P + n - 8..<P + n - 4}) \<union> {P + n - 4..<P + n - 4 + 4}"
  have b: "16 \<le> P" "8 dvd P" "P + n < 2 ^ 32"
    using d(1,2,4) P n(3) total_dvd[OF d(5)] by (auto intro: dvd_add)
  have d4: "4 dvd P + n - 4" using b(2) n(1) by (intro dvd_8_diff_4 dvd_add)
  note r = retagged_props[OF b(1,2) n(1) _ b(3), of "mem s" False]
  have c: "changes (mem s) (mem s') ?W"
    unfolding m using changes_trans[OF r(1) changes_store32[OF d4]] n b by simp
  have out: "{q - 4..<q} \<inter> ?W = {} \<and> {q + k - 8..<q + k - 4} \<inter> ?W = {}"
    if q: "(q, k, al) \<in> set (places base bs)" for q k al
    using places_range[OF q] places_sized(2)[OF d(5) q] P d(2) b n by auto
  have t: "tagged (mem s') base bs"
    using d(1-5) out by (intro changes_tagged[OF c d(6)]) auto
  have lb: "?W \<inter> link_bytes fl = {}"
  proof -
    have "x + 16 \<le> P" if x: "x \<in> set fl" for x
    proof -
      obtain k al where k: "(x, k, al) \<in> set (places base bs)" "16 \<le> k"
        using linkableE[OF subsetD[OF d(9) x]] .
      from places_range(2)[OF k(1)] k(2) P show ?thesis by simp
    qed
    then have "{P - 4..<P + n} \<inter> link_bytes fl = {}" unfolding link_bytes_def by (fastforce dest: bspec)
    moreover have "?W \<subseteq> {P - 4..<P + n}" using b n by auto
    ultimately show ?thesis by blast
  qed
  have fl: "free_list s' fl" by (rule free_list_changes[OF d(8) c lb f])
  have "8 dvd P + n - 8" using b n by (intro dvd_diff_nat dvd_add) auto
  then have d8: "4 dvd P - 4" "4 dvd P + n - 8" using b by (auto intro: dvd_8_diff_4 dvd_8_imp_4)
  have ne: "P + n - 4 \<noteq> P - 4" "P + n - 4 \<noteq> P + n - 8" using b n by auto
  have tn: "load32 (mem s') (of_nat (P - 4)) = tag n False" "load32 (mem s') (of_nat (P + n - 8)) = tag n False"
    "load32 (mem s') (of_nat (P + n - 4)) = tag 0 True"
    using b n d4 d8 r(2) ne by (simp_all add: m load32_store32 block_at_def)
  have W: "?W \<subseteq> writable base hi bs (set fl)" using n(2,3) b P by (auto simp: writable_def)
  have w: "writable base hi (bs @ [(n, False)]) (set fl) \<subseteq> writable base hi bs (set fl)"
    using n P cell_region[of P n "set fl" False] b by (fastforce simp: writable_def region_def add.assoc)
  have "kept m0 K (mem s') (writable base hi (bs @ [(n, False)]) (set fl))"
    by (rule kept_changes[OF d(10) c W w])
  then show ?thesis
    using d(1,2,4,5,9) t tn fl n P b by (auto simp: heap_raw_def add.assoc)
qed

lemma word_div_4: "n < 2 ^ 32 \<Longrightarrow> (of_nat n :: u32) div 4 = of_nat (n div 4)"
  by (rule word_unat_eq_iff[THEN iffD2]) (simp add: unat_div_distrib unat_of_nat div_less_dividend order.strict_trans1[OF div_le_dividend])

lemma even_words:
  assumes "8 dvd n" "n < 2 ^ 32"
  shows "(of_nat n div WSIZE) mod 2 = 0" "of_nat n div WSIZE * WSIZE = of_nat n"
proof -
  obtain k where k: "n = 8 * k" using assms(1) by (rule dvdE)
  have w: "of_nat n div WSIZE = (of_nat (2 * k) :: u32)"
    using word_div_4[OF assms(2)] by (simp add: WSIZE_def k)
  then show "(of_nat n div WSIZE) mod 2 = 0" by (simp add: mod_2_eq_odd)
  show "of_nat n div WSIZE * WSIZE = of_nat n" unfolding w by (simp add: WSIZE_def k)
qed

lemma minus_1_u32: "(- 1 :: u32) = 4294967295"
  by (simp add: word_unat_eq_iff unsigned_minus_1_eq_mask mask_eq_exp_minus_1)

definition grown :: "nat \<Rightarrow> nat \<Rightarrow> mm \<Rightarrow> mm" where
  "grown P n s = s\<lparr>mem_brk := of_nat (P + n),
     mem := store32 (retagged (mem s) P n False) (of_nat (P + n - 4)) (tag 0 True)\<rparr>"

lemma extend_heap_grown:
  assumes A: "arena s lo (16 + u)" and n: "8 dvd n" "16 \<le> n" "16 + u + n \<le> heap_limit"
    and P: "P = lo + 16 + u" and u: "8 dvd u"
  shows "extend_heap (of_nat n div WSIZE) s = coalesce (of_nat P) (grown P n s)"
proof -
  note a = arenaD[OF A]
  have b: "16 \<le> P" "P + n < 2 ^ 32" "n < 2 ^ 32" "8 dvd P" using a(1-3) n(3) P u by auto
  have sb: "mem_sbrk (of_nat n) s = (of_nat P, s\<lparr>mem_brk := of_nat (P + n)\<rparr>)"
    using mem_sbrk_arena_ok(1)[OF A n(3)] P by (simp add: add.assoc)
  have ne: "(of_nat P :: u32) \<noteq> - 1"
    unfolding minus_1_u32 using of_nat_eq_iff_u32[of P 4294967295] b n by simp
  have 1: "FTRP (store32 (mem s) (of_nat (P - 4)) (tag n False)) (of_nat P) = of_nat (P + n - 8)"
    using b n by (intro FTRP_tag[where al = False]) auto
  have "block_at (retagged (mem s) P n False) P n False" using retagged_props(2) b n by simp
  from block_at_reads(6)[OF this]
  have 2: "NEXT_BLKP (store32 (store32 (mem s) (of_nat (P - 4)) (tag n False)) (of_nat (P + n - 8)) (tag n False))
      (of_nat P) = of_nat (P + n)"
    by (simp add: retagged_def)
  have 3: "PACK 0 1 = tag 0 True" using PACK_tag(1)[of 0] by simp
  show ?thesis
    using sb ne 1 2 3 b n PACK_tag(2)[OF n(1)] even_words[OF n(1) b(3)]
    by (simp add: extend_heap_def Let_def grown_def retagged_def with_mem_def)
qed

text \<open>Growing a settled heap whose blocks may be none, as \<open>mm_init\<close> leaves it.\<close>

lemma extend_heap_refines:
  assumes A: "arena s lo (16 + total us)" "heap_listp s = of_nat (lo + 8)"
    and H: "heap_raw m0 K s (lo + 8) (lo + heap_limit) ((8, True) # us) fl"
    and F: "set fl = free_at (lo + 16) us" "settled us" "\<forall>(n, al) \<in> set us. 16 \<le> n"
    and n: "8 dvd n" "16 \<le> n" "16 + total us + n \<le> heap_limit"
    and C: "coalesced us n [] = (us', n', [])" and q: "q = lo + 16 + total us'"
  shows "fst (extend_heap (of_nat n div WSIZE) s) = of_nat q"
    and "mm_inv (snd (extend_heap (of_nat n div WSIZE) s)) lo (us' @ [(n', False)]) (q # outside q n' fl)"
    and "same_bytes m0 (mem (snd (extend_heap (of_nat n div WSIZE) s))) K"
proof -
  note a = arenaD[OF A(1)] and d = heap_rawD[OF H]
  define P where "P = lo + 16 + total us"
  have P8: "P = lo + 8 + total ((8, True) # us)" by (simp add: P_def)
  have du: "8 dvd total us" using total_dvd d(5) by simp
  have e: "extend_heap (of_nat n div WSIZE) s = coalesce (of_nat P) (grown P n s)"
    by (rule extend_heap_grown[OF A(1) n P_def du])
  have H2: "heap_raw m0 K (grown P n s) (lo + 8) (lo + heap_limit) (((8, True) # us) @ [(n, False)]) fl"
    using n P_def by (intro heap_raw_extend[OF H P8]) (auto simp: grown_def)
  have "P \<notin> free_at (lo + 16) us"
    using free_at_range(2)[of us P "lo + 16"] d(5) by (auto simp: P_def)
  then have U: "unlisted m0 K (grown P n s) (lo + 8) (lo + heap_limit) ((8, True) # us) n [] fl P"
    using H2 F(1) by (auto simp: unlisted_def P_def add.commute add.left_commute)
  have 1: "arena (grown P n s) lo (16 + total (us @ [(n, False)]))"
    using a n by (simp add: arena_def grown_def P_def add.assoc)
  have 2: "heap_listp (grown P n s) = of_nat (lo + 8)" using A(2) by (simp add: grown_def)
  have 3: "settled []" "\<forall>(k, al) \<in> set (us @ [(n, False)]). 16 \<le> k" using F(3) n by auto
  from coalesce_inv[OF U 1 2 F(2) 3 C q] e
  show "fst (extend_heap (of_nat n div WSIZE) s) = of_nat q"
    "mm_inv (snd (extend_heap (of_nat n div WSIZE) s)) lo (us' @ [(n', False)]) (q # outside q n' fl)"
    "same_bytes m0 (mem (snd (extend_heap (of_nat n div WSIZE) s))) K" by simp_all
qed

section \<open>Initialisation\<close>

lemma heap_raw_start:
  assumes A: "arena s lo 16" and f: "free_listp s' = 0"
    and m: "mem s' = store32 (store32 (store32 (store32 m0 (of_nat lo) 0) (of_nat (lo + 4)) (tag 8 True))
        (of_nat (lo + 8)) (tag 8 True)) (of_nat (lo + 12)) (tag 0 True)"
  shows "heap_raw m0 (not_region lo) s' (lo + 8) (lo + heap_limit) [(8, True)] []"
proof -
  note a = arenaD[OF A]
  have d: "4 dvd lo" "4 dvd lo + 4" "4 dvd lo + 8" "4 dvd lo + 12" "8 \<le> lo"
    using a(1,2) dvd_8_imp_4[OF a(2)] by (auto intro: dvd_imp_le)
  have b: "lo + 12 < 2 ^ 32" using a(3,4) by (simp add: heap_limit_def)
  have l: "load32 (mem s') (of_nat (lo + 4)) = tag 8 True" "load32 (mem s') (of_nat (lo + 8)) = tag 8 True"
    "load32 (mem s') (of_nat (lo + 12)) = tag 0 True"
    using d b by (simp_all add: m load32_store32)
  have c: "changes m0 (mem s') {lo..<lo + 16}"
    unfolding m using d b
    by (auto intro!: changes_mono[OF changes_trans[OF changes_trans[OF changes_trans[OF
        changes_store32 changes_store32] changes_store32] changes_store32]])
  have "kept m0 (not_region lo) (mem s') (writable (lo + 8) (lo + heap_limit) [(8, True)] {})"
    using c d a by (auto simp: kept_def writable_def cell_def not_region_def changes_def heap_limit_def)
  then show ?thesis
    using a d l f by (auto simp: heap_raw_def free_list_def heap_limit_def dvd_add add.commute)
qed

lemma mm_init_refines:
  assumes A: "arena s lo 0"
  shows "fst (mm_init s) = 0" "mm_inv (snd (mm_init s)) lo [(4096, False)] [lo + 16]"
    "same_bytes (mem s) (mem (snd (mm_init s))) (not_region lo)"
proof -
  note a = arenaD[OF A]
  have b: "lo + 16 < 2 ^ 32" "(of_nat lo :: u32) \<noteq> 0"
    using a(1,3) of_nat_eq_0_iff_u32[of lo] by (auto simp: heap_limit_def)
  define m7 where "m7 = store32 (store32 (store32 (store32 (mem s) (of_nat lo) 0) (of_nat (lo + 4)) (tag 8 True))
        (of_nat (lo + 8)) (tag 8 True)) (of_nat (lo + 12)) (tag 0 True)"
  define s7 where "s7 = s\<lparr>mem_brk := of_nat (lo + 16), mem := m7, heap_listp := of_nat (lo + 8), free_listp := 0\<rparr>"
  have h16: "0 + 16 \<le> heap_limit" by (simp add: heap_limit_def)
  have sb: "mem_sbrk 16 s = (of_nat lo, s\<lparr>mem_brk := of_nat (lo + 16)\<rparr>)"
    using mem_sbrk_arena_ok(1)[OF A h16] by simp
  have P: "PACK 8 1 = tag 8 True" "PACK 0 1 = tag 0 True"
    using PACK_tag(1)[of 8] PACK_tag(1)[of 0] by simp_all
  have e: "mm_init s = (case extend_heap (CHUNKSIZE div WSIZE) s7 of (bp, s8) \<Rightarrow> (if bp = 0 then - 1 else 0, s8))"
    using sb b P by (simp add: mm_init_def Let_def mm_constants s7_def m7_def with_mem_def add.commute)
  have A7: "arena s7 lo (16 + total [])"
    using mem_sbrk_arena_ok(2)[OF A h16] by (simp add: arena_def s7_def)
  have H7: "heap_raw (mem s) (not_region lo) s7 (lo + 8) (lo + heap_limit) [(8, True)] []"
    using A7 by (intro heap_raw_start[where s = s7]) (auto simp: s7_def m7_def)
  have w: "CHUNKSIZE div WSIZE = of_nat 4096 div WSIZE" by (simp add: CHUNKSIZE_eq)
  have C: "coalesced [] 4096 [] = ([], 4096, [])" by (simp add: coalesced_def)
  note x = extend_heap_refines[OF A7 _ H7 _ _ _ _ _ _ C refl, folded w]
  have "heap_listp s7 = of_nat (lo + 8)" by (simp add: s7_def)
  then have y: "fst (extend_heap (CHUNKSIZE div WSIZE) s7) = of_nat (lo + 16)"
    "mm_inv (snd (extend_heap (CHUNKSIZE div WSIZE) s7)) lo [(4096, False)] [lo + 16]"
    "same_bytes (mem s) (mem (snd (extend_heap (CHUNKSIZE div WSIZE) s7))) (not_region lo)"
    using x by (simp_all add: outside_def heap_limit_def dvd_def)
  moreover have "(of_nat (lo + 16) :: u32) \<noteq> 0" using b of_nat_eq_0_iff_u32[of "lo + 16"] by simp
  ultimately show "fst (mm_init s) = 0" "mm_inv (snd (mm_init s)) lo [(4096, False)] [lo + 16]"
    "same_bytes (mem s) (mem (snd (mm_init s))) (not_region lo)"
    by (simp_all add: e split_beta)
qed

section \<open>Allocation\<close>

text \<open>The block size for a request of \<open>n\<close> bytes, without wrap-around, and what the heap grows by.\<close>

definition block_need :: "nat \<Rightarrow> nat" where
  "block_need n = (if n \<le> 8 then 16 else 8 * ((n + 15) div 8))"

definition grow_by :: "nat \<Rightarrow> nat" where
  "grow_by n = max (block_need n) 4096"

definition first_fit :: "nat \<Rightarrow> block list \<Rightarrow> nat list \<Rightarrow> nat \<Rightarrow> nat option" where
  "first_fit lo us fl n = find (\<lambda>x. block_need n \<le> size_at (lo + 16) us x) fl"

lemma block_need_props:
  "8 dvd block_need n" "16 \<le> block_need n" "n + 8 \<le> block_need n" "block_need n \<le> max 16 (n + 15)"
  by (auto simp: block_need_def max_def)

lemma grow_by_props: "8 dvd grow_by n" "16 \<le> grow_by n" "block_need n \<le> grow_by n"
  using block_need_props[of n] by (auto simp: grow_by_def max_def)

lemma word_div_8: "n < 2 ^ 32 \<Longrightarrow> (of_nat n :: u32) div 8 = of_nat (n div 8)"
  by (rule word_unat_eq_iff[THEN iffD2]) (simp add: unat_div_distrib unat_of_nat div_less_dividend order.strict_trans1[OF div_le_dividend])

lemma adjusted_size_eq:
  assumes "n + 15 < 2 ^ 32" shows "adjusted_size (of_nat n) = of_nat (block_need n)"
proof -
  have "(of_nat n :: u32) \<le> DSIZE \<longleftrightarrow> n \<le> 8"
    using assms of_nat_le_iff_u32[of n 8] by (simp add: DSIZE_def)
  moreover have "8 * ((of_nat (n + 15) :: u32) div 8) = of_nat (8 * ((n + 15) div 8))"
    using word_div_8[OF assms] by simp
  ultimately show ?thesis
    by (simp add: adjusted_size_def block_need_def DSIZE_def OVERHEAD_def add.commute[of _ 15])
qed

lemma of_nat_pos_u32: "0 < n \<Longrightarrow> n < 2 ^ 32 \<Longrightarrow> \<not> (of_nat n :: u32) \<le> 0"
  using of_nat_le_iff_u32[of n 0] by simp

lemma grow_words:
  assumes "n + 15 < 2 ^ 32"
  shows "MAX_c (of_nat (block_need n)) CHUNKSIZE = of_nat (grow_by n)" "grow_by n < 2 ^ 32"
proof -
  have "block_need n < 2 ^ 32" using block_need_props(4)[of n] assms by auto
  then show "MAX_c (of_nat (block_need n)) CHUNKSIZE = of_nat (grow_by n)" "grow_by n < 2 ^ 32"
    using of_nat_less_iff_u32[of 4096 "block_need n"]
    by (auto simp: MAX_c_def CHUNKSIZE_eq grow_by_def max_def)
qed

lemma first_fit_block:
  assumes I: "mm_inv s lo us fl" and f: "first_fit lo us fl n = Some p"
  obtains xs c ys where "us = xs @ (c, False) # ys" "p = lo + 16 + total xs" "block_need n \<le> c" "p \<in> set fl"
proof -
  note i = mm_invD[OF I] and d = heap_rawD[OF mm_invD(3)[OF I]]
  from f have p: "p \<in> set fl" "block_need n \<le> size_at (lo + 16) us p"
    unfolding first_fit_def find_Some_iff by auto
  then obtain c where c: "(p, c, False) \<in> set (places (lo + 16) us)" using i(4) by (auto simp: free_at_def)
  from places_split[OF c] that p size_at_places[OF c] d(5) show ?thesis by auto
qed

lemma mm_malloc_fit:
  assumes I: "mm_inv s lo us fl" and n: "0 < n" "n + 15 < 2 ^ 32"
    and f: "first_fit lo us fl n = Some p"
  shows "mm_malloc (of_nat n) s = Inr (of_nat p, place (of_nat p) (of_nat (block_need n)) s)"
proof -
  obtain xs c ys where u: "us = xs @ (c, False) # ys" "p = lo + 16 + total xs"
    using first_fit_block[OF I f] .
  have b: "block_need n < 2 ^ 32" using block_need_props(4)[of n] n by auto
  have "p + c \<le> lo + heap_limit" "lo + heap_limit < 2 ^ 32"
    using heap_rawD(3,4)[OF mm_invD(3)[OF I]] u by auto
  then have "(of_nat p :: u32) \<noteq> 0" using u by (subst of_nat_eq_0_iff_u32) auto
  then show ?thesis
    using find_fit_refines[OF I b] f of_nat_pos_u32[of n] n
    by (simp add: mm_malloc_def first_fit_def adjusted_size_eq)
qed

lemma mm_malloc_extend:
  assumes I: "mm_inv s lo us fl" and n: "0 < n" "n + 15 < 2 ^ 32"
    and f: "first_fit lo us fl n = None"
  shows "mm_malloc (of_nat n) s
    = (case extend_heap (of_nat (grow_by n) div WSIZE) s of (bp, s1) \<Rightarrow>
         if bp = 0 then Inr (0, s1) else Inr (bp, place bp (of_nat (block_need n)) s1))"
proof -
  have b: "block_need n < 2 ^ 32" using block_need_props(4)[of n] n by auto
  show ?thesis
    using find_fit_refines[OF I b] f of_nat_pos_u32[of n] n grow_words[OF n(2)]
    by (simp add: mm_malloc_def first_fit_def adjusted_size_eq split_beta Let_def)
qed

lemma sbrk_full:
  assumes A: "arena s lo u" and n: "n < 2 ^ 32" "heap_limit < u + n"
    and w: "lo + u + n < 2 ^ 32 \<or> 2 ^ 31 \<le> n"
  shows "mem_sbrk (of_nat n) s
    = (- 1, s\<lparr>mem_errno := ENOMEM, mem_stderr := mem_stderr s @ [sbrk_failed_msg]\<rparr>)"
  using w
proof
  assume "2 ^ 31 \<le> n"
  then have "sint (of_nat n :: u32) < 0" using n(1) by (simp add: sint_of_nat_u32)
  then show ?thesis by (simp add: mem_sbrk_def Let_def)
qed (use mem_sbrk_arena_fail[OF A n(2)] in simp)

lemma extend_heap_fail:
  assumes A: "arena s lo u" and n: "8 dvd n" "n < 2 ^ 32" "heap_limit < u + n"
    and w: "lo + u + n < 2 ^ 32 \<or> 2 ^ 31 \<le> n"
  shows "extend_heap (of_nat n div WSIZE) s
    = (0, s\<lparr>mem_errno := ENOMEM, mem_stderr := mem_stderr s @ [sbrk_failed_msg]\<rparr>)"
  using sbrk_full[OF A n(2,3) w] even_words[OF n(1,2)] by (simp add: extend_heap_def Let_def)

text \<open>What a caller relies on: a successful call adds one allocated block and keeps the others.\<close>

definition handed_out :: "nat \<Rightarrow> block list \<Rightarrow> (nat \<times> nat) set" where
  "handed_out lo us = {(p, k). (p, k, True) \<in> set (places (lo + 16) us)}"

lemma payloads_handed_out: "payloads lo us = (\<Union>(p, k) \<in> handed_out lo us. {p..<p + k - 8})"
  by (simp add: payloads_def handed_out_def set_eq_iff Bex_def)

lemma handed_out_coalesced:
  "coalesced xs n ys = (xs', n', ys') \<Longrightarrow>
    handed_out lo (xs' @ (n', False) # ys') = handed_out lo (xs @ (n, False) # ys)"
  by (simp only: handed_out_def coalesced_allocated)

lemma handed_out_placed:
  assumes "p = lo + 16 + total xs" "a \<le> c"
  shows "handed_out lo (xs @ placed a c @ ys)
    = insert (p, if a + 16 \<le> c then a else c) (handed_out lo (xs @ (c, False) # ys))"
  using assms by (auto simp: handed_out_def placed_def add.assoc)

lemma handed_out_new:
  assumes "sized (xs @ (c, False) # ys)" "p = lo + 16 + total xs"
  shows "(p, k) \<notin> handed_out lo (xs @ (c, False) # ys)"
proof
  assume "(p, k) \<in> handed_out lo (xs @ (c, False) # ys)"
  then have x: "(p, k, True) \<in> set (places (lo + 16) (xs @ (c, False) # ys))" by (simp add: handed_out_def)
  have "(p, c, False) \<in> set (places (lo + 16) (xs @ (c, False) # ys))" using assms(2) by simp
  from places_apart[OF assms(1) x this] places_sized(2)[OF assms(1) x]
    places_sized(2)[OF assms(1) this] show False by auto
qed

text \<open>A request for which no sum of the code wraps around in a region at \<open>lo\<close>.\<close>

definition request_ok :: "nat \<Rightarrow> nat \<Rightarrow> bool" where
  "request_ok lo n \<longleftrightarrow> 0 < n \<and> n + 15 < 2 ^ 32
     \<and> (lo + heap_limit + grow_by n < 2 ^ 32 \<or> 2 ^ 31 \<le> grow_by n)"

lemma coalesced_end: "\<exists>us' k. coalesced us n [] = (us', k + n, [])"
  by (auto simp: coalesced_def)

lemma coalesced_end_size:
  assumes "coalesced us n [] = (us', n', [])" shows "n \<le> n'" "handed_out lo (us' @ [(n', False)]) = handed_out lo us"
proof -
  show "n \<le> n'" using coalesced_end[of us n] assms by auto
  have "handed_out lo (us @ [(n, False)]) = handed_out lo us" by (simp add: handed_out_def)
  then show "handed_out lo (us' @ [(n', False)]) = handed_out lo us"
    using handed_out_coalesced[OF assms] by simp
qed

lemma arena_request:
  assumes "arena s lo u" "request_ok lo n" "heap_limit < u + grow_by n"
  shows "lo + u + grow_by n < 2 ^ 32 \<or> 2 ^ 31 \<le> grow_by n"
  using assms by (auto simp: arena_def request_ok_def)

definition out_of_memory :: "mm \<Rightarrow> mm" where
  "out_of_memory s = s\<lparr>mem_errno := ENOMEM, mem_stderr := mem_stderr s @ [sbrk_failed_msg]\<rparr>"

end
