(* ===== verification/Mm_Spec.thy ===== *)
theory Mm_Spec
  imports Mm_Alloc
begin

text \<open>
  The properties of the explicit list allocator: what a client of \<open>mm_init\<close>, \<open>mm_malloc\<close> and
  \<open>mm_free\<close> relies on, and the exact effect of each outcome on the blocks and the free list. The
  concrete heaps at the end of the first section are those the witnesses use.
\<close>

section \<open>Combining the outcomes\<close>

lemma mm_inv_cong:
  assumes "mem s' = mem s" "mem_start_brk s' = mem_start_brk s" "mem_brk s' = mem_brk s"
    "mem_max_addr s' = mem_max_addr s" "heap_listp s' = heap_listp s" "free_listp s' = free_listp s"
  shows "mm_inv s' lo us fl = mm_inv s lo us fl"
  by (simp add: mm_inv_def arena_def heap_raw_def free_list_def assms)

text \<open>The state in which \<open>mm_malloc\<close> has grown the heap and is about to place the block.\<close>

lemma grow_refines:
  assumes I: "mm_inv s lo us fl" and n: "n + 15 < 2 ^ 32"
    and fit: "16 + total us + grow_by n \<le> heap_limit"
    and C: "coalesced us (grow_by n) [] = (us', c, [])" and p: "p = lo + 16 + total us'"
  shows "fst (extend_heap (of_nat (grow_by n) div WSIZE) s) = of_nat p" "(of_nat p :: u32) \<noteq> 0"
    "mm_inv (snd (extend_heap (of_nat (grow_by n) div WSIZE) s)) lo (us' @ [(c, False)]) (p # outside p c fl)"
    "same_bytes (mem s) (mem (snd (extend_heap (of_nat (grow_by n) div WSIZE) s)))
      (payloads lo us \<union> not_region lo)"
proof -
  note i = mm_invD[OF I]
  have K: "heap_raw (mem s) (payloads lo us \<union> not_region lo) s (lo + 8) (lo + heap_limit) ((8, True) # us) fl"
    using heap_raw_keep[OF i(3)] payload_kept[OF I] by auto
  note e = extend_heap_refines[OF i(1,2) K i(4-6) grow_by_props(1,2) fit C p]
  from e show "fst (extend_heap (of_nat (grow_by n) div WSIZE) s) = of_nat p"
    "mm_inv (snd (extend_heap (of_nat (grow_by n) div WSIZE) s)) lo (us' @ [(c, False)]) (p # outside p c fl)"
    "same_bytes (mem s) (mem (snd (extend_heap (of_nat (grow_by n) div WSIZE) s)))
      (payloads lo us \<union> not_region lo)" by auto
  from heap_rawD(3,4)[OF mm_invD(3)[OF e(2)]] p show "(of_nat p :: u32) \<noteq> 0"
    by (subst of_nat_eq_0_iff_u32) auto
qed

lemma mm_malloc_fit_refines:
  assumes I: "mm_inv s lo us fl" and n: "request_ok lo n" and f: "first_fit lo us fl n = Some p"
    and us: "us = xs @ (c, False) # ys" "p = lo + 16 + total xs"
  shows "\<exists>s'. mm_malloc (of_nat n) s = Inr (of_nat p, s')
    \<and> mm_inv s' lo (xs @ placed (block_need n) c @ ys) (place_list p (block_need n) c fl)
    \<and> same_bytes (mem s) (mem s') (payloads lo us \<union> not_region lo)
    \<and> block_need n \<le> c"
proof -
  note pr = block_need_props[of n]
  have c: "block_need n \<le> c"
  proof -
    obtain xs' c' ys' where u': "us = xs' @ (c', False) # ys'" "p = lo + 16 + total xs'" "block_need n \<le> c'"
      using first_fit_block[OF I f] .
    have "(p, c', False) \<in> set (places (lo + 16) us)" unfolding u'(1) using u'(2) by simp
    moreover have "(p, c, False) \<in> set (places (lo + 16) us)" unfolding us(1) using us(2) by simp
    ultimately have "c' = c"
      using size_at_places heap_rawD(5)[OF mm_invD(3)[OF I]] by (metis sized_simps(3))
    with u' show ?thesis by simp
  qed
  have "mm_malloc (of_nat n) s = Inr (of_nat p, place (of_nat p) (of_nat (block_need n)) s)"
    using n by (intro mm_malloc_fit[OF I _ _ f]) (auto simp: request_ok_def)
  with place_refines[OF I[unfolded us(1)] us(2) pr(2,1) c] us(1) c show ?thesis by auto
qed

lemma mm_malloc_grow_refines:
  assumes I: "mm_inv s lo us fl" and n: "request_ok lo n" and f: "first_fit lo us fl n = None"
    and fit: "16 + total us + grow_by n \<le> heap_limit"
    and C: "coalesced us (grow_by n) [] = (us', c, [])" and p: "p = lo + 16 + total us'"
  shows "\<exists>s'. mm_malloc (of_nat n) s = Inr (of_nat p, s')
    \<and> mm_inv s' lo (us' @ placed (block_need n) c) (place_list p (block_need n) c (p # outside p c fl))
    \<and> same_bytes (mem s) (mem s') (payloads lo us \<union> not_region lo)
    \<and> block_need n \<le> c"
proof -
  note pr = block_need_props[of n]
  have n': "0 < n" "n + 15 < 2 ^ 32" using n by (auto simp: request_ok_def)
  note g = grow_refines[OF I n'(2) fit C p]
  have c: "block_need n \<le> c" using coalesced_end_size(1)[OF C] grow_by_props(3)[of n] by simp
  have "payloads lo us = payloads lo (us' @ [(c, False)])"
    using coalesced_end_size(2)[OF C] by (simp add: payloads_handed_out)
  with place_refines[OF g(3) p pr(2,1) c] g(4) have
    "mm_inv (place (of_nat p) (of_nat (block_need n)) (snd (extend_heap (of_nat (grow_by n) div WSIZE) s))) lo
        (us' @ placed (block_need n) c) (place_list p (block_need n) c (p # outside p c fl))"
    "same_bytes (mem s) (mem (place (of_nat p) (of_nat (block_need n))
        (snd (extend_heap (of_nat (grow_by n) div WSIZE) s)))) (payloads lo us \<union> not_region lo)"
    by (auto intro: same_bytes_trans)
  with mm_malloc_extend[OF I n' f] g(1,2) c show ?thesis by (simp add: split_beta)
qed

lemma mm_malloc_fail_refines:
  assumes I: "mm_inv s lo us fl" and n: "request_ok lo n" and f: "first_fit lo us fl n = None"
    and full: "heap_limit < 16 + total us + grow_by n"
  shows "mm_malloc (of_nat n) s = Inr (0, out_of_memory s)" "mm_inv (out_of_memory s) lo us fl"
proof -
  note i = mm_invD[OF I]
  have n': "0 < n" "n + 15 < 2 ^ 32" using n by (auto simp: request_ok_def)
  have "extend_heap (of_nat (grow_by n) div WSIZE) s = (0, out_of_memory s)"
    unfolding out_of_memory_def
    using arena_request[OF i(1) n full] grow_words(2)[OF n'(2)] full
    by (intro extend_heap_fail[OF i(1) grow_by_props(1)]) auto
  with mm_malloc_extend[OF I n' f] show "mm_malloc (of_nat n) s = Inr (0, out_of_memory s)" by simp
  show "mm_inv (out_of_memory s) lo us fl"
    using I mm_inv_cong[of "out_of_memory s" s] by (simp add: out_of_memory_def)
qed

definition malloc_outcome :: "nat \<Rightarrow> nat \<Rightarrow> mm \<Rightarrow> block list \<Rightarrow> c_stop + (u32 \<times> mm) \<Rightarrow> bool" where
  "malloc_outcome lo n s us r \<longleftrightarrow> (\<exists>p k s' us' fl'. r = Inr (of_nat p, s') \<and> mm_inv s' lo us' fl'
     \<and> handed_out lo us' = insert (p, k) (handed_out lo us) \<and> (\<forall>j. (p, j) \<notin> handed_out lo us)
     \<and> n + 8 \<le> k \<and> total us \<le> total us'
     \<and> same_bytes (mem s) (mem s') (payloads lo us \<union> not_region lo))"

lemma malloc_outcome_placed:
  assumes I: "mm_inv s' lo (xs @ placed (block_need n) c @ ys) fl'" and c: "block_need n \<le> c"
    and z: "sized (xs @ (c, False) # ys)" and h: "handed_out lo (xs @ (c, False) # ys) = handed_out lo us"
    and b: "same_bytes (mem s) (mem s') (payloads lo us \<union> not_region lo)"
    and t: "total us \<le> total (xs @ (c, False) # ys)"
    and r: "r = Inr (of_nat (lo + 16 + total xs), s')"
  shows "malloc_outcome lo n s us r"
proof -
  let ?k = "if block_need n + 16 \<le> c then block_need n else c"
  have "n + 8 \<le> ?k" using c block_need_props(3)[of n] by auto
  moreover have "total us \<le> total (xs @ placed (block_need n) c @ ys)" using t c by (auto simp: placed_def)
  moreover note I b r handed_out_placed[OF refl c, of lo xs ys] handed_out_new[OF z refl] h
  ultimately show ?thesis unfolding malloc_outcome_def by metis
qed

lemma mm_malloc_cases:
  assumes I: "mm_inv s lo us fl" and n: "request_ok lo n"
  shows "malloc_outcome lo n s us (mm_malloc (of_nat n) s)
    \<or> (mm_malloc (of_nat n) s = Inr (0, out_of_memory s) \<and> mm_inv (out_of_memory s) lo us fl
      \<and> first_fit lo us fl n = None \<and> heap_limit < 16 + total us + grow_by n)"
proof (cases "first_fit lo us fl n")
  case (Some p)
  obtain xs c ys where u: "us = xs @ (c, False) # ys" "p = lo + 16 + total xs"
    using first_fit_block[OF I Some] .
  have "sized us" using heap_rawD(5)[OF mm_invD(3)[OF I]] by simp
  moreover obtain s' where "mm_malloc (of_nat n) s = Inr (of_nat p, s')"
    "mm_inv s' lo (xs @ placed (block_need n) c @ ys) (place_list p (block_need n) c fl)"
    "same_bytes (mem s) (mem s') (payloads lo us \<union> not_region lo)" "block_need n \<le> c"
    using mm_malloc_fit_refines[OF I n Some u] by blast
  ultimately show ?thesis using u malloc_outcome_placed order_refl by metis
next
  case None
  show ?thesis
  proof (cases "16 + total us + grow_by n \<le> heap_limit")
    case True
    obtain us' k where C: "coalesced us (grow_by n) [] = (us', k + grow_by n, [])"
      using coalesced_end by blast
    let ?c = "k + grow_by n" and ?p = "lo + 16 + total us'"
    obtain s' where s': "mm_malloc (of_nat n) s = Inr (of_nat ?p, s')"
      "mm_inv s' lo (us' @ placed (block_need n) ?c @ []) (place_list ?p (block_need n) ?c (?p # outside ?p ?c fl))"
      "same_bytes (mem s) (mem s') (payloads lo us \<union> not_region lo)" "block_need n \<le> ?c"
      using mm_malloc_grow_refines[OF I n None True C refl] by auto
    have n': "n + 15 < 2 ^ 32" using n by (simp add: request_ok_def)
    have z: "sized (us' @ [(?c, False)])"
      using heap_rawD(5)[OF mm_invD(3)[OF grow_refines(3)[OF I n' True C refl]]] by simp
    have "total us \<le> total (us' @ [(?c, False)])" using coalesced_total[OF C] by simp
    from malloc_outcome_placed[OF s'(2,4) z coalesced_end_size(2)[OF C] s'(3) this s'(1)] show ?thesis ..
  qed (use mm_malloc_fail_refines[OF I n None] None in auto)
qed

section \<open>A concrete heap\<close>

definition start_mm :: mm where
  "start_mm = \<lparr>mem = (\<lambda>_. 0), mem_start_brk = 4096, mem_brk = 4096, mem_max_addr = 20975616,
     mem_errno = 0, mem_stderr = [], heap_listp = 0, free_listp = 0\<rparr>"

definition heap_0 :: mm where "heap_0 = snd (mm_init start_mm)"
definition heap_1 :: mm where "heap_1 = place 4112 112 heap_0"

lemma start_mm_arena: "arena start_mm 4096 0"
  by (simp add: arena_def start_mm_def heap_limit_def dvd_def)

lemma heap_0_inv: "mm_inv heap_0 4096 [(4096, False)] [4112]"
  using mm_init_refines(2)[OF start_mm_arena] by (simp add: heap_0_def)

lemma start_pos: "(4112 :: nat) = 4096 + 16 + total []"
  by simp

lemma heap_1_inv: "mm_inv heap_1 4096 [(112, True), (3984, False)] [4224]"
  using place_refines(1)[OF _ start_pos, of heap_0 4096 "[]" "[4112]" 112] heap_0_inv
  by (simp add: heap_1_def placed_def place_list_def)

lemma request_100: "request_ok 4096 100" "first_fit 4096 [(4096, False)] [4112] 100 = Some 4112"
  by (simp_all add: request_ok_def first_fit_def grow_by_def block_need_def heap_limit_def)

lemma request_5000: "request_ok 4096 5000" "first_fit 4096 [(4096, False)] [4112] 5000 = None"
  by (simp_all add: request_ok_def first_fit_def grow_by_def block_need_def heap_limit_def)

section \<open>The properties\<close>

text \<open>C1. A call of \<open>mm_malloc\<close> on a correct heap, for a request without wrap-around, returns: either
  it hands out one new block that lies apart from the handed out ones, is large enough for the
  request and its tags, leaves a correct heap in which every other block is still handed out, and
  changes no byte of their payloads or outside the region; or no free block fits, the region is
  exhausted, the result is \<open>NULL\<close> and the heap is as before.\<close>

theorem mm_malloc_correct:
  assumes "mm_inv s lo us fl" "request_ok lo n"
  shows "malloc_outcome lo n s us (mm_malloc (of_nat n) s)
    \<or> (mm_malloc (of_nat n) s = Inr (0, out_of_memory s) \<and> mm_inv (out_of_memory s) lo us fl
      \<and> first_fit lo us fl n = None \<and> heap_limit < 16 + total us + grow_by n)"
  by (rule mm_malloc_cases[OF assms])

theorem mm_malloc_correct_witness:
  "malloc_outcome 4096 100 heap_0 [(4096, False)] (mm_malloc 100 heap_0)"
  using mm_malloc_correct[OF heap_0_inv request_100(1)] request_100(2) by simp

text \<open>C6. First fit: when some node of the free list is large enough, \<open>mm_malloc\<close> takes the first one;
  the block is split when at least 16 bytes remain, the rest replacing it at the head of the list.\<close>

theorem mm_malloc_first_fit:
  assumes "mm_inv s lo us fl" "request_ok lo n" "first_fit lo us fl n = Some p"
    and "us = xs @ (c, False) # ys" "p = lo + 16 + total xs"
  shows "\<exists>s'. mm_malloc (of_nat n) s = Inr (of_nat p, s')
    \<and> mm_inv s' lo (xs @ placed (block_need n) c @ ys) (place_list p (block_need n) c fl)
    \<and> same_bytes (mem s) (mem s') (payloads lo us \<union> not_region lo) \<and> block_need n \<le> c"
  by (rule mm_malloc_fit_refines[OF assms])

theorem mm_malloc_first_fit_witness:
  "\<exists>s'. mm_malloc 100 heap_0 = Inr (4112, s') \<and> mm_inv s' 4096 [(112, True), (3984, False)] [4224]"
  using mm_malloc_first_fit[OF heap_0_inv request_100 _ start_pos, of 4096 "[]"]
  by (auto simp: placed_def place_list_def block_need_def)

text \<open>C7. Growing: when no free block fits and the region has room, the heap grows by the larger of the
  block size and 4096 bytes, the new memory is merged with a free last block, and the request is
  placed at the start of the result.\<close>

theorem mm_malloc_grows:
  assumes "mm_inv s lo us fl" "request_ok lo n" "first_fit lo us fl n = None"
    and "16 + total us + grow_by n \<le> heap_limit" "coalesced us (grow_by n) [] = (us', c, [])"
    and "p = lo + 16 + total us'"
  shows "\<exists>s'. mm_malloc (of_nat n) s = Inr (of_nat p, s')
    \<and> mm_inv s' lo (us' @ placed (block_need n) c) (place_list p (block_need n) c (p # outside p c fl))
    \<and> same_bytes (mem s) (mem s') (payloads lo us \<union> not_region lo) \<and> block_need n \<le> c"
  by (rule mm_malloc_grow_refines[OF assms])

theorem mm_malloc_grows_witness:
  "\<exists>s'. mm_malloc 5000 heap_0 = Inr (4112, s') \<and> mm_inv s' 4096 [(5008, True), (4096, False)] [9120]"
  using mm_malloc_grows[OF heap_0_inv request_5000 _ _ start_pos, of 9104]
  by (auto simp: placed_def place_list_def block_need_def grow_by_def heap_limit_def coalesced_def outside_def)

text \<open>C5. \<open>mm_free\<close> of a handed out block merges it with its free neighbours, puts the merged block at
  the head of the free list in place of the nodes it absorbed, leaves a correct heap without
  adjacent free blocks, and changes no byte of another payload or outside the region.\<close>

theorem mm_free_correct:
  assumes "mm_inv s lo (xs @ (n, True) # ys) fl" "p = lo + 16 + total xs"
    and "coalesced xs n ys = (xs', n', ys')" "q = lo + 16 + total xs'"
  shows "mm_inv (mm_free (of_nat p) s) lo (xs' @ (n', False) # ys') (q # outside q n' fl)
    \<and> same_bytes (mem s) (mem (mm_free (of_nat p) s)) (payloads lo (xs' @ (n', False) # ys') \<union> not_region lo)"
  using mm_free_refines[OF assms] by blast

theorem mm_free_correct_witness:
  "mm_inv (mm_free 4112 heap_1) 4096 [(4096, False)] [4112]"
  using mm_free_correct[OF _ start_pos _ start_pos, of heap_1 112 "[(3984, False)]" "[4224]" 4096 "[]"] heap_1_inv
  by (simp add: coalesced_def outside_def)

text \<open>\<open>mm_init\<close> on an unused region succeeds and leaves one free block of 4096 bytes.\<close>

theorem mm_init_correct:
  assumes "arena s lo 0"
  shows "fst (mm_init s) = 0 \<and> mm_inv (snd (mm_init s)) lo [(4096, False)] [lo + 16]
    \<and> same_bytes (mem s) (mem (snd (mm_init s))) (not_region lo)"
  using mm_init_refines[OF assms] by blast

theorem mm_init_correct_witness: "fst (mm_init start_mm) = 0"
  using mm_init_correct[OF start_mm_arena] by simp



text \<open>C8. Round trip: freeing a block right after a first-fit \<open>mm_malloc\<close> gives back the blocks there
  were, and no byte of a payload handed out before has changed.\<close>

theorem malloc_free_roundtrip:
  assumes "mm_inv s lo us fl" "request_ok lo n" "first_fit lo us fl n = Some p"
  shows "\<exists>s' fl'. mm_malloc (of_nat n) s = Inr (of_nat p, s')
    \<and> mm_inv (mm_free (of_nat p) s') lo us fl'
    \<and> same_bytes (mem s) (mem (mm_free (of_nat p) s')) (payloads lo us \<union> not_region lo)"
proof -
  obtain xs c ys where u: "us = xs @ (c, False) # ys" "p = lo + 16 + total xs"
    using first_fit_block[OF assms(1,3)] .
  obtain s' where s': "mm_malloc (of_nat n) s = Inr (of_nat p, s')"
    "mm_inv s' lo (xs @ placed (block_need n) c @ ys) (place_list p (block_need n) c fl)"
    "same_bytes (mem s) (mem s') (payloads lo us \<union> not_region lo)" "block_need n \<le> c"
    using mm_malloc_fit_refines[OF assms u] by blast
  note f = free_block_listed(4,5)[OF assms(1)[unfolded u(1)] u(2)]
  have "\<exists>k zs. placed (block_need n) c @ ys = (k, True) # zs \<and> coalesced xs k zs = (xs, c, ys)"
  proof (cases "block_need n + 16 \<le> c")
    case True
    then have "coalesced xs (block_need n) ((c - block_need n, False) # ys) = (xs, c, ys)"
      using f(1) by (auto simp: coalesced_def)
    with True show ?thesis by (simp add: placed_def)
  next
    case False
    have "coalesced xs c ys = (xs, c, ys)" using f by (cases ys) (auto simp: coalesced_def)
    with False show ?thesis by (simp add: placed_def)
  qed
  then obtain k zs where k: "placed (block_need n) c @ ys = (k, True) # zs" "coalesced xs k zs = (xs, c, ys)"
    by blast
  note m = mm_free_refines[OF s'(2)[unfolded k(1)] u(2) k(2) u(2)]
  from m s'(1,3) u(1) show ?thesis by (blast intro: same_bytes_trans)
qed

theorem malloc_free_roundtrip_witness:
  "\<exists>s' fl'. mm_malloc 100 heap_0 = Inr (4112, s') \<and> mm_inv (mm_free 4112 s') 4096 [(4096, False)] fl'"
  using malloc_free_roundtrip[OF heap_0_inv request_100] by auto

text \<open>C10. The loop of \<open>find_fit\<close> ends on every correct heap, with the first node of the free list whose
  block has the size asked for, or \<open>NULL\<close>.\<close>

theorem find_fit_correct:
  assumes "mm_inv s lo us fl" "a < 2 ^ 32"
  shows "find_fit (of_nat a) s
    = Some (case find (\<lambda>x. a \<le> size_at (lo + 16) us x) fl of None \<Rightarrow> 0 | Some x \<Rightarrow> of_nat x)"
  by (rule find_fit_refines[OF assms])

theorem find_fit_correct_witness: "find_fit 4000 heap_1 = Some 0"
  using find_fit_correct[OF heap_1_inv, of 4000] by simp

end
