(* ===== verification/C_Text.thy ===== *)
theory C_Text
  imports C_Prelude
begin

text \<open>
  The text functions of the C library that the programs use: decimal output of \<open>printf\<close>,
  \<open>isdigit\<close>, \<open>isspace\<close>, \<open>atoi\<close>, \<open>strchr\<close>. Strings are character lists without the final NUL.
\<close>

fun nat_digits :: "nat \<Rightarrow> string" where
  "nat_digits n = (if n < 10 then [char_of (n + 48)] else nat_digits (n div 10) @ [char_of (n mod 10 + 48)])"

declare nat_digits.simps [simp del]

definition newline :: string where "newline = [char_of (10 :: nat)]"

definition int_string :: "int \<Rightarrow> string" where
  "int_string i = (if i < 0 then CHR ''-'' # nat_digits (nat (- i)) else nat_digits (nat i))"

text \<open>\<open>%p\<close> prints a pointer in hexadecimal.\<close>

fun hex_digits :: "nat \<Rightarrow> string" where
  "hex_digits n = (let d = (''0123456789abcdef'' ! (n mod 16)) in if n < 16 then [d] else hex_digits (n div 16) @ [d])"

declare hex_digits.simps [simp del]

definition pointer_text :: "u32 \<Rightarrow> string" where
  "pointer_text p = (if p = 0 then ''(nil)'' else ''0x'' @ hex_digits (unat p))"

definition isdigit :: "char \<Rightarrow> bool" where
  "isdigit c \<longleftrightarrow> 48 \<le> (of_char c :: nat) \<and> (of_char c :: nat) \<le> 57"

definition isspace :: "char \<Rightarrow> bool" where
  "isspace c \<longleftrightarrow> c = CHR '' '' \<or> (9 \<le> (of_char c :: nat) \<and> (of_char c :: nat) \<le> 13)"

text \<open>\<open>atoi\<close> on leading digits; a value that is no \<open>int\<close> is undefined behaviour.\<close>

definition digits_value :: "string \<Rightarrow> nat" where
  "digits_value s = foldl (\<lambda>v c. 10 * v + (of_char c - 48)) 0 s"

definition atoi :: "string \<Rightarrow> int option" where
  "atoi s = (let v = digits_value (takeWhile isdigit s) in if v < 2 ^ 31 then Some (int v) else None)"

text \<open>\<open>strchr(s, c)\<close>: the text before the first \<open>c\<close> and the text after it.\<close>

definition strchr :: "string \<Rightarrow> char \<Rightarrow> (string \<times> string) option" where
  "strchr s c = (if c \<in> set s then Some (takeWhile (\<lambda>d. d \<noteq> c) s, tl (dropWhile (\<lambda>d. d \<noteq> c) s)) else None)"

lemma strchr_split: "c \<notin> set w \<Longrightarrow> strchr (w @ c # r) c = Some (w, r)"
proof -
  assume "c \<notin> set w"
  then have "\<forall>d \<in> set w. d \<noteq> c" by auto
  then have "takeWhile (\<lambda>d. d \<noteq> c) (w @ c # r) = w" "dropWhile (\<lambda>d. d \<noteq> c) (w @ c # r) = c # r"
    by (simp_all add: takeWhile_append2 dropWhile_append2)
  then show ?thesis by (simp add: strchr_def)
qed

lemma strchr_SomeD: "strchr s c = Some (w, r) \<Longrightarrow> s = w @ c # r \<and> c \<notin> set w"
proof -
  assume a: "strchr s c = Some (w, r)"
  then have "c \<in> set s" by (auto simp: strchr_def split: if_splits)
  then obtain u v where s: "s = u @ c # v" "c \<notin> set u" by (meson split_list_first)
  with strchr_split[of c u v] a show ?thesis by simp
qed

lemma strchr_length: "strchr s c = Some (w, r) \<Longrightarrow> length s = Suc (length w + length r)"
  by (drule strchr_SomeD) simp

lemma digit_char: "n < 10 \<Longrightarrow> isdigit (char_of (n + 48)) \<and> (of_char (char_of (n + 48) :: char) :: nat) = n + 48"
  by (simp add: isdigit_def)

lemma nat_digits_isdigit: "\<forall>c \<in> set (nat_digits n). isdigit c"
  by (induction n rule: nat_digits.induct) (subst nat_digits.simps, use digit_char in auto)

lemma digits_value_nat_digits: "digits_value (nat_digits n) = n"
proof (induction n rule: nat_digits.induct)
  case (1 n)
  then show ?case
    using digit_char[of n] digit_char[of "n mod 10"]
    by (subst nat_digits.simps) (auto simp: digits_value_def)
qed

text \<open>Printing a number and reading it back.\<close>

lemma atoi_int_string:
  assumes "0 \<le> i" "i < 2 ^ 31" shows "atoi (int_string i) = Some i"
proof -
  have "takeWhile isdigit (nat_digits (nat i)) = nat_digits (nat i)"
    using nat_digits_isdigit by (simp add: takeWhile_eq_all_conv)
  then have "digits_value (takeWhile isdigit (nat_digits (nat i))) = nat i"
    by (simp only: digits_value_nat_digits)
  then show ?thesis using assms by (simp add: atoi_def int_string_def Let_def)
qed

end
