(* ===== verification/Mm_Realloc.thy ===== *)
theory Mm_Realloc
  imports Mm C_Text
begin

text \<open>
  The rest of \<^verbatim>\<open>mm.c\<close>: \<open>mm_realloc\<close> with a definition for each of its branches, and the functions
  that check and print the heap.
\<close>

section \<open>Reallocation\<close>

text \<open>The block gets smaller: its end becomes a free block.\<close>

definition realloc_shrink :: "u32 \<Rightarrow> u32 \<Rightarrow> u32 \<Rightarrow> mm \<Rightarrow> u32 \<times> mm" where
  "realloc_shrink ptr newsize copySize s =
     (let s1 = PUT (HDRP ptr) (PACK newsize 1) s;
          s2 = PUT (FTRP (mem s1) ptr) (PACK newsize 1) s1;
          asize = copySize - newsize;
          s3 = PUT (HDRP (NEXT_BLKP (mem s2) ptr)) (PACK asize 0) s2;
          s4 = PUT (FTRP (mem s3) (NEXT_BLKP (mem s3) ptr)) (PACK asize 0) s3;
          newp = NEXT_BLKP (mem s4) ptr
      in (ptr, snd (coalesce newp s4)))"

text \<open>The next block is free and large enough: both become one block, which is not split.\<close>

definition realloc_next :: "u32 \<Rightarrow> u32 \<Rightarrow> u32 \<Rightarrow> mm \<Rightarrow> u32 \<times> mm" where
  "realloc_next ptr newsize copySize s =
     (let freesize = GET_SIZE (mem s) (HDRP (NEXT_BLKP (mem s) ptr)) - (newsize - copySize);
          s1 = removeBlock (NEXT_BLKP (mem s) ptr) s;
          s2 = PUT (HDRP ptr) (PACK (newsize + freesize) 1) s1;
          s3 = PUT (FTRP (mem s2) ptr) (PACK (newsize + freesize) 1) s2
      in (ptr, s3))"

text \<open>The bytes of the block are copied down into the free block before it; the copy is undefined when
  the two ranges overlap.\<close>

definition memcpy :: "u32 \<Rightarrow> u32 \<Rightarrow> u32 \<Rightarrow> mm \<Rightarrow> c_stop + mm" where
  "memcpy dst src n s =
     (if regions_overlap dst src n then Inl (Undefined ''memcpy'') else Inr (s\<lparr>mem := mem_copy (mem s) dst src n\<rparr>))"

definition realloc_prev :: "u32 \<Rightarrow> u32 \<Rightarrow> u32 \<Rightarrow> mm \<Rightarrow> c_stop + u32 \<times> mm" where
  "realloc_prev ptr newsize copySize s =
     (let freesize = GET_SIZE (mem s) (HDRP (PREV_BLKP (mem s) ptr)) - (newsize - copySize);
          s1 = removeBlock (PREV_BLKP (mem s) ptr) s;
          newp = PREV_BLKP (mem s1) ptr;
          s2 = PUT (HDRP newp) (PACK (newsize + freesize) 1) s1;
          s3 = PUT (FTRP (mem s2) newp) (PACK (newsize + freesize) 1) s2
      in case memcpy newp ptr copySize s3 of Inl e \<Rightarrow> Inl e | Inr s4 \<Rightarrow> Inr (newp, s4))"

definition realloc_both :: "u32 \<Rightarrow> u32 \<Rightarrow> u32 \<Rightarrow> mm \<Rightarrow> c_stop + u32 \<times> mm" where
  "realloc_both ptr newsize copySize s =
     (let freesize = GET_SIZE (mem s) (HDRP (NEXT_BLKP (mem s) ptr))
            + GET_SIZE (mem s) (HDRP (PREV_BLKP (mem s) ptr)) - (newsize - copySize);
          s1 = removeBlock (PREV_BLKP (mem s) ptr) s;
          s2 = removeBlock (NEXT_BLKP (mem s1) ptr) s1;
          newp = PREV_BLKP (mem s2) ptr;
          s3 = PUT (HDRP newp) (PACK (newsize + freesize) 1) s2;
          s4 = PUT (FTRP (mem s3) newp) (PACK (newsize + freesize) 1) s3
      in case memcpy newp ptr copySize s4 of Inl e \<Rightarrow> Inl e | Inr s5 \<Rightarrow> Inr (newp, s5))"

text \<open>The block is the last one of the heap: the heap grows by \<open>CHUNKSIZE\<close>, however much is asked for.\<close>

definition realloc_last :: "u32 \<Rightarrow> u32 \<Rightarrow> u32 \<Rightarrow> mm \<Rightarrow> u32 \<times> mm" where
  "realloc_last ptr newsize copySize s =
     (let (bp, s1) = extend_heap (CHUNKSIZE div WSIZE) s
      in if bp = 0 then (0, s1)
         else
           let freesize = GET_SIZE (mem s1) (HDRP (NEXT_BLKP (mem s1) ptr)) - (newsize - copySize);
               s2 = removeBlock (NEXT_BLKP (mem s1) ptr) s1;
               s3 = PUT (HDRP ptr) (PACK newsize 1) s2;
               s4 = PUT (FTRP (mem s3) ptr) (PACK newsize 1) s3;
               s5 = PUT (HDRP (NEXT_BLKP (mem s4) ptr)) (PACK freesize 1) s4;
               s6 = PUT (FTRP (mem s5) (NEXT_BLKP (mem s5) ptr)) (PACK freesize 1) s5
           in (ptr, mm_free (NEXT_BLKP (mem s6) ptr) s6))"

text \<open>None of the cases: a new block, a copy, and the old block is freed.\<close>

definition realloc_move :: "u32 \<Rightarrow> u32 \<Rightarrow> u32 \<Rightarrow> mm \<Rightarrow> c_stop + u32 \<times> mm" where
  "realloc_move ptr sz copySize s =
     (case mm_malloc sz s of
        Inl e \<Rightarrow> Inl e
      | Inr (newp, s1) \<Rightarrow>
          if newp = 0 then Inl (Exits 1)
          else case memcpy newp ptr (if sz < copySize then sz else copySize) s1 of
                 Inl e \<Rightarrow> Inl e
               | Inr s2 \<Rightarrow> Inr (newp, mm_free ptr s2))"

text \<open>A pointer of the simulated heap is given to the C library's \<open>free\<close> when the size is 0.\<close>

definition mm_realloc :: "u32 \<Rightarrow> u32 \<Rightarrow> mm \<Rightarrow> c_stop + u32 \<times> mm" where
  "mm_realloc ptr sz s =
     (if ptr = 0 then mm_malloc sz s
      else if sz \<le> 0 then Inl (Undefined ''free'')
      else
        let newsize = adjusted_size sz;
            copySize = GET_SIZE (mem s) (HDRP ptr);
            nextp = NEXT_BLKP (mem s) ptr;
            prevp = PREV_BLKP (mem s) ptr;
            next_free = (GET_ALLOC (mem s) (HDRP nextp) = 0);
            prev_free = (GET_ALLOC (mem s) (HDRP prevp) = 0);
            next_size = GET_SIZE (mem s) (HDRP nextp);
            prev_size = GET_SIZE (mem s) (HDRP prevp)
        in if newsize = copySize then Inr (ptr, s)
           else if newsize + MINIMUM \<le> copySize then Inr (realloc_shrink ptr newsize copySize s)
           else if newsize > copySize \<and> next_free \<and> newsize - copySize \<le> next_size
             then Inr (realloc_next ptr newsize copySize s)
           else if newsize > copySize \<and> prev_free \<and> newsize - copySize \<le> prev_size
             then realloc_prev ptr newsize copySize s
           else if newsize > copySize \<and> prev_free \<and> next_free \<and> newsize - copySize \<le> prev_size + next_size
             then realloc_both ptr newsize copySize s
           else if newsize > copySize \<and> next_size = 0 then Inr (realloc_last ptr newsize copySize s)
           else realloc_move ptr sz copySize s)"

section \<open>Checking the heap\<close>

text \<open>The functions below only print: they answer the texts they print, \<open>None\<close> where a walk over a
  cyclic list does not end.\<close>

definition printblock :: "memory \<Rightarrow> u32 \<Rightarrow> string list" where
  "printblock m bp =
     (let hsize = GET_SIZE m (HDRP bp);
          halloc = GET_ALLOC m (HDRP bp);
          fsize = GET_SIZE m (FTRP m bp);
          falloc = GET_ALLOC m (FTRP m bp)
      in if hsize = 0 then [pointer_text bp @ '': EOL'' @ newline]
         else [pointer_text bp @ '': header: ['' @ int_string (sint hsize) @ '':''
                 @ (if halloc \<noteq> 0 then ''a'' else ''f'') @ ''] footer: ['' @ int_string (sint fsize) @ '':''
                 @ (if falloc \<noteq> 0 then ''a'' else ''f'') @ '']'' @ newline])"

partial_function (option) inFreelist_from :: "memory \<Rightarrow> u32 \<Rightarrow> u32 \<Rightarrow> bool option" where
  "inFreelist_from m bp p =
     (if p = 0 then Some False else if p = bp then Some True else inFreelist_from m bp (next_of m p))"

definition inFreelist :: "mm \<Rightarrow> u32 \<Rightarrow> bool option" where
  "inFreelist s bp = inFreelist_from (mem s) bp (free_listp s)"

definition checkblock :: "mm \<Rightarrow> u32 \<Rightarrow> string list option" where
  "checkblock s bp =
     (let m = mem s;
          out = (if bp mod 8 \<noteq> 0 then [''Error: '' @ pointer_text bp @ '' is not doubleword aligned'' @ newline] else [])
            @ (if GET m (HDRP bp) \<noteq> GET m (FTRP m bp) then [''Error: header does not match footer'' @ newline] else [])
      in if GET_ALLOC m (HDRP bp) = 0 then
           Option.bind (inFreelist s bp) (\<lambda>listed. Some (out
             @ (if GET_ALLOC m (HDRP (PREV_BLKP m bp)) = 0 \<or> GET_ALLOC m (HDRP (NEXT_BLKP m bp)) = 0
                then [''Error: contiguous free blocks next to '' @ pointer_text bp @ newline] else [])
             @ (if \<not> listed then [''Error: free block at '' @ pointer_text bp @ '' is not in free list'' @ newline] else [])))
         else Some out)"

text \<open>The two halves of \<open>checkfreeblock\<close> do the same with the fields \<open>prev\<close> and \<open>next\<close>.\<close>

definition checklink :: "mm \<Rightarrow> u32 \<Rightarrow> string list" where
  "checklink s q =
     (if q \<noteq> 0 then
        (if q < mem_heap_lo s \<or> q > mem_heap_hi s
         then [''Error: pointer '' @ pointer_text q @ '' is not within heap bounds '' @ newline] else [])
        @ (if GET_ALLOC (mem s) (HDRP q) \<noteq> 0
           then [''Error: pointer '' @ pointer_text q @ '' points to an allocated block '' @ newline] else [])
      else [])"

definition checkfreeblock :: "mm \<Rightarrow> u32 \<Rightarrow> string list" where
  "checkfreeblock s p = checklink s (prev_of (mem s) p) @ checklink s (next_of (mem s) p)"

text \<open>The loop over the blocks with the check of the epilogue, and the loop over the free list, which
  looks at the bit of the word at \<open>p\<close> itself, the field \<open>prev\<close>.\<close>

partial_function (option) checkblocks :: "bool \<Rightarrow> mm \<Rightarrow> u32 \<Rightarrow> string list option" where
  "checkblocks verbose s bp =
     (if GET_SIZE (mem s) (HDRP bp) > 0 then
        Option.bind (checkblock s bp) (\<lambda>out.
        Option.bind (checkblocks verbose s (NEXT_BLKP (mem s) bp)) (\<lambda>rest.
          Some ((if verbose then printblock (mem s) bp else []) @ out @ rest)))
      else
        Some ((if verbose then printblock (mem s) bp else [])
          @ (if GET_SIZE (mem s) (HDRP bp) \<noteq> 0 \<or> GET_ALLOC (mem s) (HDRP bp) = 0
             then [''Bad epilogue header'' @ newline] else [])))"

partial_function (option) checkfreelist :: "mm \<Rightarrow> u32 \<Rightarrow> string list option" where
  "checkfreelist s p =
     (if p = 0 then Some []
      else
        Option.bind (checkfreelist s (next_of (mem s) p)) (\<lambda>rest.
          Some ((if GET_ALLOC (mem s) p \<noteq> 0 then [''Error: '' @ pointer_text p @ '' is not free'' @ newline] else [])
            @ checkfreeblock s p @ rest)))"

definition mm_checkheap :: "bool \<Rightarrow> mm \<Rightarrow> string list option" where
  "mm_checkheap verbose s =
     (let m = mem s; bp = heap_listp s
      in Option.bind (checkblock s bp) (\<lambda>first.
         Option.bind (checkblocks verbose s bp) (\<lambda>blocks.
         Option.bind (checkfreelist s (free_listp s)) (\<lambda>frees.
           Some ((if verbose then [''Heap ('' @ pointer_text bp @ ''):'' @ newline] else [])
             @ (if GET_SIZE m (HDRP bp) \<noteq> DSIZE \<or> GET_ALLOC m (HDRP bp) = 0
                then [''Bad prologue header'' @ newline] else [])
             @ first @ blocks @ frees)))))"

partial_function (option) printfreelist_from :: "memory \<Rightarrow> u32 \<Rightarrow> string list option" where
  "printfreelist_from m p =
     (if p = 0 then Some []
      else Option.bind (printfreelist_from m (next_of m p)) (\<lambda>rest. Some (printblock m p @ rest)))"

definition printfreelist :: "mm \<Rightarrow> string list option" where
  "printfreelist s = printfreelist_from (mem s) (free_listp s)"

end
