(* ===== verification/Alloc_Interface.thy ===== *)
theory Alloc_Interface
  imports Mm_Layout
begin

text \<open>
  What the driver \<^verbatim>\<open>mdriver.c\<close> is linked with: the four functions of \<^verbatim>\<open>mm.h\<close>, and the contract that the
  two allocators of the directory keep. A client sees a set of live payloads, each its address and
  the number of bytes it may use; \<open>inv s lo L\<close> says that in state \<open>s\<close> these are \<open>L\<close>, in the region
  that starts at \<open>lo\<close>. \<open>request lo n\<close> are the sizes the contract covers.
\<close>

section \<open>Copying and filling\<close>

lemma word_offset_less:
  assumes "b < 2 ^ 32" "q + c \<le> 2 ^ 32" "q < 2 ^ 32" "c < 2 ^ 32"
  shows "(of_nat b - of_nat q :: u32) < of_nat c \<longleftrightarrow> q \<le> b \<and> b < q + c"
proof (cases "q \<le> b")
  case True
  then have "(of_nat b - of_nat q :: u32) = of_nat (b - q)" by simp
  then show ?thesis using of_nat_less_iff_u32[of "b - q" c] assms True by auto
next
  case False
  have "(of_nat b - of_nat q :: u32) = of_nat (2 ^ 32 + b) - of_nat q"
    by (simp add: of_nat_add del: fold_words)
  also have "\<dots> = of_nat (2 ^ 32 + b - q)" using assms(3) by simp
  finally show ?thesis using of_nat_less_iff_u32[of "2 ^ 32 + b - q" c] assms False by simp
qed

lemma regions_apart:
  assumes "p + c \<le> q \<or> q + c \<le> p" "p + c \<le> 2 ^ 32" "q + c \<le> 2 ^ 32" "p < 2 ^ 32" "q < 2 ^ 32" "c < 2 ^ 32"
  shows "\<not> regions_overlap (of_nat q) (of_nat p) (of_nat c)"
  using word_offset_less[of q p c] word_offset_less[of p q c] assms by (auto simp: regions_overlap_def)

lemma changes_mem_copy:
  assumes "q + c \<le> 2 ^ 32" "q < 2 ^ 32" "c < 2 ^ 32"
  shows "changes m (mem_copy m (of_nat q) src (of_nat c)) {q..<q + c}"
  using word_offset_less[of _ q c] assms by (auto simp: changes_def mem_copy_def)

lemma mem_copy_at:
  assumes "q + c \<le> 2 ^ 32" "q < 2 ^ 32" "c < 2 ^ 32" "i < c"
  shows "mem_copy m (of_nat q) (of_nat p) (of_nat c) (of_nat (q + i)) = m (of_nat (p + i))"
  using word_offset_less[of "q + i" q c] assms by (simp add: mem_copy_def)

lemma changes_mem_set:
  assumes "q + c \<le> 2 ^ 32" "q < 2 ^ 32" "c < 2 ^ 32"
  shows "changes m (mem_set m (of_nat q) v (of_nat c)) {q..<q + c}"
  using word_offset_less[of _ q c] assms by (auto simp: changes_def mem_set_def)

lemma mem_set_at:
  assumes "q + c \<le> 2 ^ 32" "q < 2 ^ 32" "c < 2 ^ 32" "i < c"
  shows "mem_set m (of_nat q) v (of_nat c) (of_nat (q + i)) = v"
  using word_offset_less[of "q + i" q c] assms by (simp add: mem_set_def)

section \<open>The interface\<close>

record 's alloc_ops =
  op_init :: "'s \<Rightarrow> int \<times> 's"
  op_malloc :: "u32 \<Rightarrow> 's \<Rightarrow> c_stop + u32 \<times> 's"
  op_realloc :: "u32 \<Rightarrow> u32 \<Rightarrow> 's \<Rightarrow> c_stop + u32 \<times> 's"
  op_free :: "u32 \<Rightarrow> 's \<Rightarrow> 's"

definition live_bytes :: "(nat \<times> nat) set \<Rightarrow> nat set" where
  "live_bytes L = (\<Union>(p, k) \<in> L. {p..<p + k})"

text \<open>The heap does not shrink.\<close>

definition grows :: "'a memsys_scheme \<Rightarrow> 'b memsys_scheme \<Rightarrow> bool" where
  "grows s s' \<longleftrightarrow> unat (mem_heapsize s) \<le> unat (mem_heapsize s')"

lemma grows_arena: "arena s lo u \<Longrightarrow> arena s' lo' u' \<Longrightarrow> grows s s' \<longleftrightarrow> u \<le> u'"
  by (simp only: grows_def heapsize_arena)

locale allocator =
  fixes ops :: "('x memsys_scheme) alloc_ops"
    and inv :: "'x memsys_scheme \<Rightarrow> nat \<Rightarrow> (nat \<times> nat) set \<Rightarrow> bool"
    and request :: "nat \<Rightarrow> nat \<Rightarrow> bool"
  assumes init_inv: "arena s lo 0 \<Longrightarrow> fst (op_init ops s) = 0 \<and> inv (snd (op_init ops s)) lo {}
      \<and> 0 < unat (mem_heapsize (snd (op_init ops s)))"
    and inv_arena: "inv s lo L \<Longrightarrow> \<exists>u. arena s lo u"
    and inv_finite: "inv s lo L \<Longrightarrow> finite L"
    and inv_live: "inv s lo L \<Longrightarrow> (p, k) \<in> L \<Longrightarrow>
      8 dvd p \<and> 0 < k \<and> unat (mem_heap_lo s) \<le> p \<and> p + k \<le> unat (mem_heap_hi s)"
    and inv_apart: "inv s lo L \<Longrightarrow> (p, k) \<in> L \<Longrightarrow> (q, j) \<in> L \<Longrightarrow>
      (p, k) = (q, j) \<or> p + k \<le> q \<or> q + j \<le> p"
    and malloc_inv: "inv s lo L \<Longrightarrow> request lo n \<Longrightarrow>
      (\<exists>p k s'. op_malloc ops (of_nat n) s = Inr (of_nat p, s') \<and> inv s' lo (insert (p, k) L)
         \<and> (\<forall>j. (p, j) \<notin> L) \<and> n \<le> k \<and> same_bytes (mem s) (mem s') (live_bytes L) \<and> grows s s')
      \<or> (\<exists>s'. op_malloc ops (of_nat n) s = Inr (0, s') \<and> inv s' lo L \<and> mem s' = mem s)"
    and free_inv: "inv s lo L \<Longrightarrow> (p, k) \<in> L \<Longrightarrow> inv (op_free ops (of_nat p) s) lo (L - {(p, k)})
      \<and> same_bytes (mem s) (mem (op_free ops (of_nat p) s)) (live_bytes (L - {(p, k)}))
      \<and> grows s (op_free ops (of_nat p) s)"
    and write_inv: "inv s lo L \<Longrightarrow> (p, k) \<in> L \<Longrightarrow> changes (mem s) m {p..<p + k} \<Longrightarrow>
      inv (s\<lparr>mem := m\<rparr>) lo L"

text \<open>The allocator whose \<open>mm_realloc\<close> keeps the contents, or ends the program for want of memory.\<close>

locale reallocator = allocator +
  assumes realloc_inv: "inv s lo L \<Longrightarrow> (p, k) \<in> L \<Longrightarrow> request lo n \<Longrightarrow>
      op_realloc ops (of_nat p) (of_nat n) s = Inl (Exits 1)
      \<or> (\<exists>q j s'. op_realloc ops (of_nat p) (of_nat n) s = Inr (of_nat q, s')
         \<and> inv s' lo (insert (q, j) (L - {(p, k)})) \<and> (\<forall>i. (q, i) \<notin> L - {(p, k)}) \<and> n \<le> j
         \<and> same_bytes (mem s) (mem s') (live_bytes (L - {(p, k)})) \<and> grows s s'
         \<and> (\<forall>i < min k n. mem s' (of_nat (q + i)) = mem s (of_nat (p + i))))"

section \<open>Moving a payload\<close>

context allocator
begin

text \<open>What follows the allocation in a \<open>mm_realloc\<close> that moves: \<open>c\<close> bytes are copied to the new payload
  \<open>(q, j)\<close> and the old one is freed.\<close>

lemma move_payload:
  assumes I: "inv s lo (insert (q, j) L)" and q: "\<forall>i. (q, i) \<notin> L" and p: "(p, k) \<in> L" and c: "c \<le> j"
    and s': "s' = op_free ops (of_nat p) (s\<lparr>mem := mem_copy (mem s) (of_nat q) (of_nat p) (of_nat c)\<rparr>)"
  shows "inv s' lo (insert (q, j) (L - {(p, k)}))" "same_bytes (mem s) (mem s') (live_bytes (L - {(p, k)}))"
    "grows s s'" "\<forall>i < min k c. mem s' (of_nat (q + i)) = mem s (of_nat (p + i))"
proof -
  let ?m = "mem_copy (mem s) (of_nat q) (of_nat p) (of_nat c)"
  have hi: "x + y < 2 ^ 32" if "(x, y) \<in> insert (q, j) L" for x y
    using inv_live[OF I that] unat_less_u32[of "mem_heap_hi s"] by linarith
  have b: "q + c \<le> 2 ^ 32" "q < 2 ^ 32" "c < 2 ^ 32" using hi[of q j] c by auto
  have ch: "changes (mem s) ?m {q..<q + j}"
    using c by (intro changes_mono[OF changes_mem_copy[OF b]]) auto
  have pq: "(p, k) \<noteq> (q, j)" using p q by blast
  have e: "insert (q, j) L - {(p, k)} = insert (q, j) (L - {(p, k)})" using pq by auto
  have p': "(p, k) \<in> insert (q, j) L" using p by simp
  note f = free_inv[OF write_inv[OF I insertI1 ch] p', unfolded e, folded s']
  show "inv s' lo (insert (q, j) (L - {(p, k)}))" using f by simp
  show "grows s s'" using f by (simp add: grows_def mem_heapsize_def)
  have s: "same_bytes ?m (mem s') (live_bytes (insert (q, j) (L - {(p, k)})))" using f by simp
  have ap: "x \<notin> {q..<q + j} \<and> x < 2 ^ 32" if "(p', k') \<in> L" "x \<in> {p'..<p' + k'}" for p' k' x
  proof -
    have "(p', k') \<in> insert (q, j) L" using that(1) by simp
    from inv_apart[OF I this insertI1] hi[OF this] that q show ?thesis by auto
  qed
  have dj: "live_bytes (L - {(p, k)}) \<inter> {q..<q + j} = {}" "\<forall>x \<in> live_bytes (L - {(p, k)}). x < 2 ^ 32"
    using ap unfolding live_bytes_def by blast+
  from same_bytes_trans[OF changes_same_bytes[OF ch dj] s]
  show "same_bytes (mem s) (mem s') (live_bytes (L - {(p, k)}))" by (auto simp: live_bytes_def)
  show "\<forall>i < min k c. mem s' (of_nat (q + i)) = mem s (of_nat (p + i))"
  proof (intro allI impI)
    fix i assume i: "i < min k c"
    then have "q + i \<in> live_bytes (insert (q, j) (L - {(p, k)}))" using c by (auto simp: live_bytes_def)
    then have "mem s' (of_nat (q + i)) = ?m (of_nat (q + i))" using s by (simp only: same_bytes_def)
    also have "\<dots> = mem s (of_nat (p + i))" using i by (intro mem_copy_at[OF b]) simp
    finally show "mem s' (of_nat (q + i)) = mem s (of_nat (p + i))" .
  qed
qed

end

end
