(* ===== verification/Live_Blocks.thy ===== *)
theory Live_Blocks
  imports Mm_Alloc Alloc_Interface
begin

text \<open>
  The client's view of a heap layout: the payloads of the allocated blocks with their usable sizes,
  and the fact that writing into a payload leaves the layout of the heap alone.
\<close>

definition live_payloads :: "nat \<Rightarrow> block list \<Rightarrow> (nat \<times> nat) set" where
  "live_payloads lo us = (\<lambda>(p, k). (p, k - 8)) ` handed_out lo us"

definition large_blocks :: "block list \<Rightarrow> bool" where
  "large_blocks us \<longleftrightarrow> (\<forall>(n, al) \<in> set us. 16 \<le> n)"

lemma live_payloadsE:
  assumes "(p, k) \<in> live_payloads lo us" "large_blocks us"
  shows "(p, k + 8, True) \<in> set (places (lo + 16) us)" "8 \<le> k"
proof -
  obtain n where n: "(p, n, True) \<in> set (places (lo + 16) us)" "k = n - 8"
    using assms(1) by (auto simp: live_payloads_def handed_out_def)
  have "16 \<le> n" using places_range(3)[OF n(1)] assms(2) by (auto simp: large_blocks_def)
  with n show "(p, k + 8, True) \<in> set (places (lo + 16) us)" "8 \<le> k" by simp_all
qed

lemma live_payloads_at:
  assumes "(p, n, True) \<in> set (places (lo + 16) us)" shows "(p, n - 8) \<in> live_payloads lo us"
  using assms by (force simp: live_payloads_def handed_out_def)

lemma live_bytes_payloads:
  assumes "large_blocks us" shows "live_bytes (live_payloads lo us) = payloads lo us"
proof -
  have "{p..<p + (n - 8)} = {p..<p + n - 8}" if "(p, n) \<in> handed_out lo us" for p n
  proof -
    have "(n, True) \<in> set us" using that places_range(3)[of p n True "lo + 16" us] by (simp add: handed_out_def)
    then have "16 \<le> n" using assms by (auto simp: large_blocks_def)
    then show ?thesis by simp
  qed
  then show ?thesis
    unfolding live_bytes_def live_payloads_def payloads_handed_out
    by (auto simp: case_prod_beta intro!: SUP_cong)
qed

lemma finite_live_payloads [simp]: "finite (live_payloads lo us)"
proof -
  have "handed_out lo us \<subseteq> (\<lambda>(p, n, al). (p, n)) ` set (places (lo + 16) us)"
    by (force simp: handed_out_def)
  then have "finite (handed_out lo us)" by (rule finite_subset) simp
  then show ?thesis by (simp add: live_payloads_def)
qed

text \<open>Where the live payloads are, and that they do not meet.\<close>

lemma live_payloads_place:
  assumes "(p, k) \<in> live_payloads lo us" "large_blocks us" "sized us" "8 dvd lo" "arena s lo (16 + total us)"
  shows "8 dvd p \<and> 0 < k \<and> unat (mem_heap_lo s) \<le> p \<and> p + k \<le> unat (mem_heap_hi s)"
proof -
  note e = live_payloadsE[OF assms(1,2)] and a = arenaD[OF assms(5)]
  have d: "8 dvd p" using places_dvd[OF assms(3) _ e(1)] assms(4) by simp
  note r = places_range[OF e(1)]
  have lh: "unat (mem_heap_lo s) = lo" using a(3,5) by (simp add: mem_heap_lo_def unat_of_nat_u32)
  have "mem_heap_hi s = of_nat (lo + (16 + total us)) - 1" using a(6) by (simp add: mem_heap_hi_def)
  also have "\<dots> = of_nat (lo + (16 + total us) - 1)" using of_nat_sub_u32[of 1 "lo + (16 + total us)"] by simp
  finally have "unat (mem_heap_hi s) = lo + (16 + total us) - 1"
    using a(3,4) by (simp add: unat_of_nat_u32)
  with lh d r e(2) show ?thesis by simp
qed

lemma live_payloads_apart:
  assumes "(p, k) \<in> live_payloads lo us" "(q, j) \<in> live_payloads lo us" "large_blocks us" "sized us"
  shows "(p, k) = (q, j) \<or> p + k \<le> q \<or> q + j \<le> p"
  using places_apart[OF assms(4) live_payloadsE(1)[OF assms(1,3)] live_payloadsE(1)[OF assms(2,3)]] by auto

text \<open>The live payloads after a block was taken or given back.\<close>

lemma live_payloads_coalesced:
  assumes "coalesced xs n ys = (xs', n', ys')" "sized (xs @ (n, True) # ys)" "p = lo + 16 + total xs"
  shows "live_payloads lo (xs' @ (n', False) # ys') = live_payloads lo (xs @ (n, True) # ys) - {(p, n - 8)}"
proof -
  have at: "(p, n, True) \<in> set (places (lo + 16) (xs @ (n, True) # ys))" using assms(3) by simp
  have "handed_out lo (xs @ (n, False) # ys) = handed_out lo (xs @ (n, True) # ys) - {(p, n)}"
  proof -
    have "q \<noteq> p" if "(q, k, True) \<in> set (places (lo + 16) xs) \<union> set (places (p + n) ys)" for q k
      using that assms(3) places_range[of q k True "lo + 16" xs] places_range(1)[of q k True "p + n" ys]
        places_sized(2)[of xs q k True] assms(2) by fastforce
    then show ?thesis using assms(3) by (auto simp: handed_out_def add.assoc)
  qed
  moreover have "inj_on (\<lambda>(p, k). (p, k - 8)) (handed_out lo (xs @ (n, True) # ys))"
  proof -
    have "k = k'" if "(q, k) \<in> handed_out lo (xs @ (n, True) # ys)" "(q, k') \<in> handed_out lo (xs @ (n, True) # ys)"
      for q k k'
    proof -
      from that have k: "(q, k, True) \<in> set (places (lo + 16) (xs @ (n, True) # ys))"
      "(q, k', True) \<in> set (places (lo + 16) (xs @ (n, True) # ys))" by (simp_all add: handed_out_def)
      from places_apart[OF assms(2) k] places_sized(2)[OF assms(2) k(1)] places_sized(2)[OF assms(2) k(2)]
      show ?thesis by auto
    qed
    then show ?thesis by (auto simp: inj_on_def)
  qed
  moreover have "{(p, n)} \<subseteq> handed_out lo (xs @ (n, True) # ys)" using at by (simp add: handed_out_def)
  ultimately show ?thesis
    unfolding live_payloads_def handed_out_coalesced[OF assms(1)]
    by (simp add: inj_on_image_set_diff[OF _ Diff_subset])
qed

lemma live_payloads_placed:
  assumes "p = lo + 16 + total xs" "a \<le> c" "sized (xs @ (c, False) # ys)" "large_blocks (xs @ (c, False) # ys)"
    "n + 8 \<le> a"
  shows "\<exists>k. live_payloads lo (xs @ placed a c @ ys) = insert (p, k) (live_payloads lo (xs @ (c, False) # ys))
    \<and> n \<le> k" "(p, j) \<notin> live_payloads lo (xs @ (c, False) # ys)"
proof -
  show "(p, j) \<notin> live_payloads lo (xs @ (c, False) # ys)"
  proof
    assume "(p, j) \<in> live_payloads lo (xs @ (c, False) # ys)"
    from live_payloadsE(1)[OF this assms(4)] have "(p, j + 8) \<in> handed_out lo (xs @ (c, False) # ys)"
      by (simp add: handed_out_def)
    with handed_out_new[OF assms(3,1)] show False by blast
  qed
  show "\<exists>k. live_payloads lo (xs @ placed a c @ ys) = insert (p, k) (live_payloads lo (xs @ (c, False) # ys)) \<and> n \<le> k"
    unfolding live_payloads_def handed_out_placed[OF assms(1,2)] using assms(2,5)
    by (intro exI[of _ "(if a + 16 \<le> c then a else c) - 8"]) auto
qed

section \<open>Writing into a payload\<close>

lemma heap_raw_poke:
  assumes H: "heap_raw m0 K s base hi bs fl" and c: "changes (mem s) m W"
    and W: "W \<inter> writable base hi bs (set fl) = {}"
  shows "heap_raw m {} (s\<lparr>mem := m\<rparr>) base hi bs fl"
proof -
  note d = heap_rawD[OF H]
  have cl: "cell (set fl) p n al \<inter> W = {}" if "(p, n, al) \<in> set (places base bs)" for p n al
    using writable_cell[OF that, of "set fl" hi] W by blast
  have t: "tagged m base bs"
    using d(1-5) cl by (intro changes_tagged[OF c d(6)]) (auto simp: cell_def Int_Un_distrib2)
  have ep: "{base + total bs - 4..<base + total bs - 4 + 4} \<subseteq> writable base hi bs (set fl)"
    using d(2,3) by (auto simp: writable_def)
  have "8 dvd base + total bs" using d(1) total_dvd[OF d(5)] by simp
  then have "load32 m (of_nat (base + total bs - 4)) = load32 (mem s) (of_nat (base + total bs - 4))"
    using ep W d(3,4) by (intro changes_load32[OF c dvd_8_diff_4]) auto
  moreover have "free_list (s\<lparr>mem := m\<rparr>) fl"
    using link_bytes_writable[OF d(9), of hi] W by (intro free_list_changes[OF d(8), where W = W]) (use c in auto)
  ultimately show ?thesis using d t by (auto simp: heap_raw_def kept_def)
qed

lemma payload_unwritable:
  assumes H: "heap_raw m0 K s (lo + 8) (lo + heap_limit) ((8, True) # us) fl"
    and L: "\<And>p n. (p, n, True) \<in> set (places (lo + 16) us) \<Longrightarrow> p \<notin> set fl"
    and p: "(p, k) \<in> live_payloads lo us" "large_blocks us"
  shows "{p..<p + k} \<inter> writable (lo + 8) (lo + heap_limit) ((8, True) # us) (set fl) = {}"
proof -
  have "{p..<p + k} \<subseteq> live_bytes (live_payloads lo us)" using p(1) by (auto simp: live_bytes_def)
  then have "{p..<p + k} \<subseteq> payloads lo us" by (simp add: live_bytes_payloads[OF p(2)])
  moreover have "payloads lo us \<inter> writable (lo + 8) (lo + heap_limit) ((8, True) # us) (set fl) = {}"
    using payload_kept_raw(1)[OF H] L by blast
  ultimately show ?thesis by blast
qed

end
