(* ===== verification/Mm_Interface.thy ===== *)
theory Mm_Interface
  imports Mm_Spec Mm_Realloc Live_Blocks
begin

text \<open>
  The explicit list allocator keeps the contract of \<^verbatim>\<open>mm.h\<close> without \<open>mm_realloc\<close>: the locale
  \<open>allocator\<close> holds for the functions of \<^verbatim>\<open>mm.c\<close>. (Its \<open>mm_realloc\<close> does not keep the one of
  \<open>reallocator\<close>, see theory \<open>Mm_Realloc_Props\<close>.)
\<close>

definition mm_ops :: "mm alloc_ops" where
  "mm_ops = \<lparr>op_init = mm_init, op_malloc = mm_malloc, op_realloc = mm_realloc, op_free = mm_free\<rparr>"

definition mm_live :: "mm \<Rightarrow> nat \<Rightarrow> (nat \<times> nat) set \<Rightarrow> bool" where
  "mm_live s lo L \<longleftrightarrow> (\<exists>us fl. mm_inv s lo us fl \<and> L = live_payloads lo us)"

lemma mm_inv_facts:
  assumes "mm_inv s lo us fl"
  shows "large_blocks us" "sized us" "8 dvd lo" "arena s lo (16 + total us)"
    "\<And>p n. (p, n, True) \<in> set (places (lo + 16) us) \<Longrightarrow> p \<notin> set fl"
proof -
  note i = mm_invD[OF assms]
  show "large_blocks us" "sized us" "8 dvd lo" "arena s lo (16 + total us)"
    using i heap_rawD(5)[OF i(3)] arenaD(2)[OF i(1)] by (auto simp: large_blocks_def)
  show "p \<notin> set fl" if "(p, n, True) \<in> set (places (lo + 16) us)" for p n
    using allocated_unlisted[OF that] i(4) heap_rawD(5)[OF i(3)] by simp
qed

lemma mm_inv_write:
  assumes I: "mm_inv s lo us fl" and p: "(p, k) \<in> live_payloads lo us" and c: "changes (mem s) m {p..<p + k}"
  shows "mm_inv (s\<lparr>mem := m\<rparr>) lo us fl"
proof -
  note i = mm_invD[OF I] and f = mm_inv_facts[OF I]
  have "heap_raw m {} (s\<lparr>mem := m\<rparr>) (lo + 8) (lo + heap_limit) ((8, True) # us) fl"
    by (rule heap_raw_poke[OF i(3) c payload_unwritable[OF i(3) f(5) p f(1)]])
  with i show ?thesis by (simp add: mm_inv_def arena_def)
qed

lemma mm_live_free:
  assumes I: "mm_inv s lo us fl" and p: "(p, k) \<in> live_payloads lo us"
  shows "mm_live (mm_free (of_nat p) s) lo (live_payloads lo us - {(p, k)})
    \<and> same_bytes (mem s) (mem (mm_free (of_nat p) s)) (live_bytes (live_payloads lo us - {(p, k)}))
    \<and> grows s (mm_free (of_nat p) s)"
proof -
  note f = mm_inv_facts[OF I]
  obtain xs ys where u: "us = xs @ (k + 8, True) # ys" "p = lo + 16 + total xs"
    using places_split[OF live_payloadsE(1)[OF p f(1)]] by blast
  obtain xs' n' ys' where C: "coalesced xs (k + 8) ys = (xs', n', ys')" by (metis prod_cases3)
  note r = mm_free_refines[OF I[unfolded u(1)] u(2) C refl]
  have e: "live_payloads lo (xs' @ (n', False) # ys') = live_payloads lo us - {(p, k)}"
    using live_payloads_coalesced[OF C f(2)[unfolded u(1)] u(2)] u(1) by simp
  have "live_bytes (live_payloads lo us - {(p, k)}) \<subseteq> payloads lo (xs' @ (n', False) # ys')"
    using live_bytes_payloads[OF mm_inv_facts(1)[OF r(1)], of lo] e by simp
  moreover have "grows s (mm_free (of_nat p) s)"
    unfolding grows_arena[OF f(4) mm_inv_facts(4)[OF r(1)]] using coalesced_total[OF C] u(1) by simp
  ultimately show ?thesis using r e by (auto simp: mm_live_def intro: same_bytes_mono)
qed

lemma mm_live_malloc:
  assumes I: "mm_inv s lo us fl" and n: "request_ok lo n" and L: "L = live_payloads lo us"
  shows "(\<exists>p k s'. mm_malloc (of_nat n) s = Inr (of_nat p, s') \<and> mm_live s' lo (insert (p, k) L)
         \<and> (\<forall>j. (p, j) \<notin> L) \<and> n \<le> k \<and> same_bytes (mem s) (mem s') (live_bytes L) \<and> grows s s')
      \<or> (\<exists>s'. mm_malloc (of_nat n) s = Inr (0, s') \<and> mm_live s' lo L \<and> mem s' = mem s)"
proof -
  note f = mm_inv_facts[OF I]
  have b: "live_bytes L \<subseteq> payloads lo us" using live_bytes_payloads[OF f(1)] L by simp
  from mm_malloc_cases[OF I n] show ?thesis
  proof
    assume "malloc_outcome lo n s us (mm_malloc (of_nat n) s)"
    then obtain p k s' us' fl' where o: "mm_malloc (of_nat n) s = Inr (of_nat p, s')" "mm_inv s' lo us' fl'"
      "handed_out lo us' = insert (p, k) (handed_out lo us)" "\<forall>j. (p, j) \<notin> handed_out lo us" "n + 8 \<le> k" "total us \<le> total us'"
      "same_bytes (mem s) (mem s') (payloads lo us \<union> not_region lo)"
      by (auto simp: malloc_outcome_def)
    have "live_payloads lo us' = insert (p, k - 8) L" using o(3) L by (simp add: live_payloads_def)
    moreover have "\<forall>j. (p, j) \<notin> L" using o(4) L by (auto simp: live_payloads_def)
    moreover have "same_bytes (mem s) (mem s') (live_bytes L)" using o(7) b by (auto intro: same_bytes_mono)
    moreover have "grows s s'" unfolding grows_arena[OF f(4) mm_inv_facts(4)[OF o(2)]] using o(6) by simp
    ultimately show ?thesis using o(1,2,5)
      by (intro disjI1 exI[of _ p] exI[of _ "k - 8"] exI[of _ s']) (auto simp: mm_live_def)
  next
    assume "mm_malloc (of_nat n) s = Inr (0, out_of_memory s) \<and> mm_inv (out_of_memory s) lo us fl
      \<and> first_fit lo us fl n = None \<and> heap_limit < 16 + total us + grow_by n"
    moreover have "mem (out_of_memory s) = mem s" by (simp add: out_of_memory_def)
    ultimately show ?thesis using L by (auto simp: mm_live_def)
  qed
qed

interpretation mm_alloc: allocator mm_ops mm_live request_ok
proof unfold_locales
  fix s :: mm and lo n p q k j :: nat and L m
  show "fst (op_init mm_ops s) = 0 \<and> mm_live (snd (op_init mm_ops s)) lo {}
      \<and> 0 < unat (mem_heapsize (snd (op_init mm_ops s)))" if a: "arena s lo 0"
  proof -
    have "live_payloads lo [(4096, False)] = {}" by (simp add: live_payloads_def handed_out_def)
    moreover have "unat (mem_heapsize (snd (mm_init s))) = 16 + total [(4096, False)]"
      by (rule heapsize_arena[OF mm_inv_facts(4)[OF mm_init_refines(2)[OF a]]])
    ultimately show ?thesis using mm_init_refines[OF a] by (auto simp: mm_ops_def mm_live_def)
  qed
  assume "mm_live s lo L"
  then obtain us fl where I: "mm_inv s lo us fl" "L = live_payloads lo us" by (auto simp: mm_live_def)
  note f = mm_inv_facts[OF I(1)]
  show "\<exists>u. arena s lo u" "finite L" using f(4) I(2) by auto
  show "8 dvd p \<and> 0 < k \<and> unat (mem_heap_lo s) \<le> p \<and> p + k \<le> unat (mem_heap_hi s)" if "(p, k) \<in> L"
    using that live_payloads_place[OF _ f(1-4)] I(2) by simp
  show "(p, k) = (q, j) \<or> p + k \<le> q \<or> q + j \<le> p" if "(p, k) \<in> L" "(q, j) \<in> L"
    using that live_payloads_apart[OF _ _ f(1,2)] I(2) by simp
  show "(\<exists>p k s'. op_malloc mm_ops (of_nat n) s = Inr (of_nat p, s') \<and> mm_live s' lo (insert (p, k) L)
         \<and> (\<forall>j. (p, j) \<notin> L) \<and> n \<le> k \<and> same_bytes (mem s) (mem s') (live_bytes L) \<and> grows s s')
      \<or> (\<exists>s'. op_malloc mm_ops (of_nat n) s = Inr (0, s') \<and> mm_live s' lo L \<and> mem s' = mem s)"
    if "request_ok lo n"
    using mm_live_malloc[OF I(1) that I(2)] by (simp add: mm_ops_def)
  show "mm_live (op_free mm_ops (of_nat p) s) lo (L - {(p, k)})
      \<and> same_bytes (mem s) (mem (op_free mm_ops (of_nat p) s)) (live_bytes (L - {(p, k)}))
      \<and> grows s (op_free mm_ops (of_nat p) s)" if "(p, k) \<in> L"
    using mm_live_free[OF I(1)] that I(2) by (simp add: mm_ops_def)
  show "mm_live (s\<lparr>mem := m\<rparr>) lo L" if "(p, k) \<in> L" "changes (mem s) m {p..<p + k}"
    using mm_inv_write[OF I(1)] that I(2) unfolding mm_live_def by blast
qed

end
