(* ===== verification/Ff.thy ===== *)
theory Ff
  imports Mm_Macros C_Text
begin

text \<open>
  The second allocator, \<^verbatim>\<open>malloclab-handout2/mm-firstfit.c\<close>: the free blocks are found by walking over
  all blocks of the heap, there is no list of them. Its macros are those of \<^verbatim>\<open>mm.c\<close>
  (theory \<open>Mm_Macros\<close>). The functions have the names of the code with the prefix \<open>ff_\<close>.
\<close>

record ff = memsys +
  ff_heap_listp :: u32

section \<open>Coalescing and growing the heap\<close>

definition ff_coalesce :: "u32 \<Rightarrow> ff \<Rightarrow> u32 \<times> ff" where
  "ff_coalesce bp s =
     (let prev_alloc = GET_ALLOC (mem s) (FTRP (mem s) (PREV_BLKP (mem s) bp));
          next_alloc = GET_ALLOC (mem s) (HDRP (NEXT_BLKP (mem s) bp));
          sz = GET_SIZE (mem s) (HDRP bp)
      in if prev_alloc \<noteq> 0 \<and> next_alloc \<noteq> 0 then (bp, s)
         else if prev_alloc \<noteq> 0 \<and> next_alloc = 0 then
           let sz = sz + GET_SIZE (mem s) (HDRP (NEXT_BLKP (mem s) bp));
               s1 = PUT (HDRP bp) (PACK sz 0) s;
               s2 = PUT (FTRP (mem s1) bp) (PACK sz 0) s1
           in (bp, s2)
         else if prev_alloc = 0 \<and> next_alloc \<noteq> 0 then
           let sz = sz + GET_SIZE (mem s) (HDRP (PREV_BLKP (mem s) bp));
               s1 = PUT (FTRP (mem s) bp) (PACK sz 0) s;
               s2 = PUT (HDRP (PREV_BLKP (mem s1) bp)) (PACK sz 0) s1
           in (PREV_BLKP (mem s2) bp, s2)
         else
           let sz = sz + (GET_SIZE (mem s) (HDRP (PREV_BLKP (mem s) bp)) +
                            GET_SIZE (mem s) (FTRP (mem s) (NEXT_BLKP (mem s) bp)));
               s1 = PUT (HDRP (PREV_BLKP (mem s) bp)) (PACK sz 0) s;
               s2 = PUT (FTRP (mem s1) (NEXT_BLKP (mem s1) bp)) (PACK sz 0) s1
           in (PREV_BLKP (mem s2) bp, s2))"

definition ff_extend_heap :: "u32 \<Rightarrow> ff \<Rightarrow> u32 \<times> ff" where
  "ff_extend_heap words s =
     (let sz = (if words mod 2 \<noteq> 0 then (words + 1) * WSIZE else words * WSIZE);
          (bp, s1) = mem_sbrk sz s
      in if bp = - 1 then (0, s1)
         else
           let s2 = PUT (HDRP bp) (PACK sz 0) s1;
               s3 = PUT (FTRP (mem s2) bp) (PACK sz 0) s2;
               s4 = PUT (HDRP (NEXT_BLKP (mem s3) bp)) (PACK 0 1) s3
           in ff_coalesce bp s4)"

definition ff_init :: "ff \<Rightarrow> int \<times> ff" where
  "ff_init s =
     (let (p, s1) = mem_sbrk (4 * WSIZE) s;
          s2 = s1\<lparr>ff_heap_listp := p\<rparr>
      in if p = 0 then (- 1, s2)
         else
           let s3 = PUT (ff_heap_listp s2) 0 s2;
               s4 = PUT (ff_heap_listp s3 + WSIZE) (PACK OVERHEAD 1) s3;
               s5 = PUT (ff_heap_listp s4 + DSIZE) (PACK OVERHEAD 1) s4;
               s6 = PUT (ff_heap_listp s5 + WSIZE + DSIZE) (PACK 0 1) s5;
               s7 = s6\<lparr>ff_heap_listp := ff_heap_listp s6 + DSIZE\<rparr>;
               (bp, s8) = ff_extend_heap (CHUNKSIZE div WSIZE) s7
           in (if bp = 0 then - 1 else 0, s8))"

section \<open>Allocating and freeing\<close>

definition ff_place :: "u32 \<Rightarrow> u32 \<Rightarrow> ff \<Rightarrow> ff" where
  "ff_place bp asize s =
     (let csize = GET_SIZE (mem s) (HDRP bp)
      in if csize - asize \<ge> DSIZE + OVERHEAD then
           let s1 = PUT (HDRP bp) (PACK asize 1) s;
               s2 = PUT (FTRP (mem s1) bp) (PACK asize 1) s1;
               bp' = NEXT_BLKP (mem s2) bp;
               s3 = PUT (HDRP bp') (PACK (csize - asize) 0) s2
           in PUT (FTRP (mem s3) bp') (PACK (csize - asize) 0) s3
         else
           let s1 = PUT (HDRP bp) (PACK csize 1) s
           in PUT (FTRP (mem s1) bp) (PACK csize 1) s1)"

text \<open>The loop of \<open>find_fit\<close> from the block \<open>bp\<close>; \<open>None\<close>: no epilogue is ever reached.\<close>

partial_function (option) ff_find_fit_from :: "memory \<Rightarrow> u32 \<Rightarrow> u32 \<Rightarrow> u32 option" where
  "ff_find_fit_from m asize bp =
     (if GET_SIZE m (HDRP bp) > 0 then
        if GET_ALLOC m (HDRP bp) = 0 \<and> asize \<le> GET_SIZE m (HDRP bp) then Some bp
        else ff_find_fit_from m asize (NEXT_BLKP m bp)
      else Some 0)"

definition ff_find_fit :: "u32 \<Rightarrow> ff \<Rightarrow> u32 option" where
  "ff_find_fit asize s = ff_find_fit_from (mem s) asize (ff_heap_listp s)"

definition ff_malloc :: "u32 \<Rightarrow> ff \<Rightarrow> c_stop + (u32 \<times> ff)" where
  "ff_malloc sz s =
     (if sz \<le> 0 then Inr (0, s)
      else
        let asize = adjusted_size sz
        in case ff_find_fit asize s of
             None \<Rightarrow> Inl Diverges
           | Some bp \<Rightarrow>
               if bp \<noteq> 0 then Inr (bp, ff_place bp asize s)
               else
                 let extendsize = MAX_c asize CHUNKSIZE;
                     (bp', s1) = ff_extend_heap (extendsize div WSIZE) s
                 in if bp' = 0 then Inr (0, s1)
                    else Inr (bp', ff_place bp' asize s1))"

definition ff_free :: "u32 \<Rightarrow> ff \<Rightarrow> ff" where
  "ff_free bp s =
     (let sz = GET_SIZE (mem s) (HDRP bp);
          s1 = PUT (HDRP bp) (PACK sz 0) s;
          s2 = PUT (FTRP (mem s1) bp) (PACK sz 0) s1
      in snd (ff_coalesce bp s2))"

text \<open>\<open>mm_realloc\<close> prints a message and exits when there is no memory, and, as \<open>mm_malloc(0)\<close> is
  \<open>NULL\<close>, also for the size 0.\<close>

definition ff_realloc :: "u32 \<Rightarrow> u32 \<Rightarrow> ff \<Rightarrow> c_stop + (u32 \<times> ff)" where
  "ff_realloc ptr sz s =
     (case ff_malloc sz s of
        Inl e \<Rightarrow> Inl e
      | Inr (newp, s1) \<Rightarrow>
          if newp = 0 then Inl (Exits 1)
          else
            let copySize = GET_SIZE (mem s1) (HDRP ptr);
                copySize = (if sz < copySize then sz else copySize)
            in if regions_overlap newp ptr copySize then Inl (Undefined ''memcpy'')
               else Inr (newp, ff_free ptr (s1\<lparr>mem := mem_copy (mem s1) newp ptr copySize\<rparr>)))"

section \<open>Checking the heap\<close>

text \<open>The functions below only print: they answer the texts they print. \<open>%d\<close> prints a \<open>size_t\<close> as
  the \<open>int\<close> with the same bits.\<close>

definition ff_printblock :: "memory \<Rightarrow> u32 \<Rightarrow> string list" where
  "ff_printblock m bp =
     (let hsize = GET_SIZE m (HDRP bp);
          halloc = GET_ALLOC m (HDRP bp);
          fsize = GET_SIZE m (FTRP m bp);
          falloc = GET_ALLOC m (FTRP m bp)
      in if hsize = 0 then [pointer_text bp @ '': EOL'' @ newline]
         else [pointer_text bp @ '': header: ['' @ int_string (sint hsize) @ '':''
                 @ (if halloc \<noteq> 0 then ''a'' else ''f'') @ ''] footer: ['' @ int_string (sint fsize) @ '':''
                 @ (if falloc \<noteq> 0 then ''a'' else ''f'') @ '']'' @ newline])"

definition ff_checkblock :: "memory \<Rightarrow> u32 \<Rightarrow> string list" where
  "ff_checkblock m bp =
     (if bp mod 8 \<noteq> 0 then [''Error: '' @ pointer_text bp @ '' is not doubleword aligned'' @ newline] else [])
     @ (if GET m (HDRP bp) \<noteq> GET m (FTRP m bp) then [''Error: header does not match footer'' @ newline] else [])"

text \<open>The loop over the blocks and what follows it; \<open>None\<close>: it does not end.\<close>

partial_function (option) ff_checkblocks :: "bool \<Rightarrow> memory \<Rightarrow> u32 \<Rightarrow> string list option" where
  "ff_checkblocks verbose m bp =
     (if GET_SIZE m (HDRP bp) > 0 then
        Option.bind (ff_checkblocks verbose m (NEXT_BLKP m bp))
          (\<lambda>out. Some ((if verbose then ff_printblock m bp else []) @ ff_checkblock m bp @ out))
      else
        Some ((if verbose then ff_printblock m bp else [])
          @ (if GET_SIZE m (HDRP bp) \<noteq> 0 \<or> GET_ALLOC m (HDRP bp) = 0
             then [''Bad epilogue header'' @ newline] else [])))"

definition ff_checkheap :: "bool \<Rightarrow> ff \<Rightarrow> string list option" where
  "ff_checkheap verbose s =
     (let m = mem s; bp = ff_heap_listp s
      in map_option (\<lambda>out. (if verbose then [''Heap ('' @ pointer_text bp @ ''):'' @ newline] else [])
            @ (if GET_SIZE m (HDRP bp) \<noteq> DSIZE \<or> GET_ALLOC m (HDRP bp) = 0
               then [''Bad prologue header'' @ newline] else [])
            @ ff_checkblock m bp @ out)
          (ff_checkblocks verbose m bp))"

end
