(* ===== verification/Ff_Correct.thy ===== *)
theory Ff_Correct
  imports Mm_Alloc Ff
begin

text \<open>
  The first fit allocator against the same layout of the heap as \<^verbatim>\<open>mm.c\<close>, with no list of free blocks:
  \<open>ff_inv s lo us\<close> says that the region of \<open>s\<close> starts at \<open>lo\<close> and holds the padding, the prologue, the
  blocks \<open>us\<close> and the epilogue. The block operations are those of the other allocator, so its lemmas
  on layouts (theories \<open>Mm_Heap\<close> to \<open>Mm_Alloc\<close>) are used with an empty free list.
\<close>

definition as_mm :: "ff \<Rightarrow> mm" where
  "as_mm s = \<lparr>mem = mem s, mem_start_brk = mem_start_brk s, mem_brk = mem_brk s,
     mem_max_addr = mem_max_addr s, mem_errno = mem_errno s, mem_stderr = mem_stderr s,
     heap_listp = ff_heap_listp s, free_listp = 0\<rparr>"

definition ff_inv :: "ff \<Rightarrow> nat \<Rightarrow> block list \<Rightarrow> bool" where
  "ff_inv s lo us \<longleftrightarrow> arena s lo (16 + total us) \<and> ff_heap_listp s = of_nat (lo + 8)
     \<and> heap_raw (mem s) {} (as_mm s) (lo + 8) (lo + heap_limit) ((8, True) # us) []
     \<and> settled us \<and> (\<forall>(n, al) \<in> set us. 16 \<le> n)"

lemma as_mm_fields [simp]:
  "mem (as_mm s) = mem s" "free_listp (as_mm s) = 0" "heap_listp (as_mm s) = ff_heap_listp s"
  "mem_start_brk (as_mm s) = mem_start_brk s" "mem_brk (as_mm s) = mem_brk s"
  "mem_max_addr (as_mm s) = mem_max_addr s"
  by (simp_all add: as_mm_def)

lemma with_mem_ff [simp]:
  "ff_heap_listp (with_mem (s :: ff) m) = ff_heap_listp s" "as_mm (with_mem s m) = with_mem (as_mm s) m"
  by (simp_all add: with_mem_def as_mm_def)

lemma ff_invD:
  assumes "ff_inv s lo us"
  shows "arena s lo (16 + total us)" "ff_heap_listp s = of_nat (lo + 8)"
    "heap_raw (mem s) {} (as_mm s) (lo + 8) (lo + heap_limit) ((8, True) # us) []"
    "settled us" "\<forall>(n, al) \<in> set us. 16 \<le> n"
  using assms by (auto simp: ff_inv_def)

lemma ff_inv_bounds:
  assumes "ff_inv s lo us"
  shows "0 < lo" "8 dvd lo" "lo + heap_limit < 2 ^ 32" "16 + total us \<le> heap_limit" "sized us"
  using arenaD[OF ff_invD(1)[OF assms]] heap_rawD(5)[OF ff_invD(3)[OF assms]] by auto

lemma heap_raw_retag_free:
  assumes "heap_raw m0 K (as_mm s) base hi (xs @ mid @ ys) []" "p = base + total xs"
    and "n = total mid" "16 \<le> n" "K \<inter> region p n = {}"
  shows "heap_raw m0 K (as_mm (with_mem s (retagged (mem s) p n al))) base hi (xs @ (n, al) # ys) []"
  using assms by (intro heap_raw_retag[OF assms(1-4)]) auto

section \<open>Coalescing\<close>

text \<open>What \<open>coalesce\<close> reads around the free block at \<open>p\<close>.\<close>

lemma ff_around:
  assumes H: "heap_raw m0 K (as_mm s) base hi (zs @ (k, c) # (n, False) # ys) []"
    and b: "b = base + total zs" "p = b + k"
  shows "block_at (mem s) b k c" "block_at (mem s) p n False" "16 \<le> n" "\<not> c \<Longrightarrow> 16 \<le> k" "16 \<le> p" "16 \<le> b"
    "GET_ALLOC (mem s) (FTRP (mem s) (PREV_BLKP (mem s) (of_nat p))) = of_bool c"
    "GET_ALLOC (mem s) (HDRP (NEXT_BLKP (mem s) (of_nat p))) = of_bool (ys = [] \<or> snd (hd ys))"
    "GET_SIZE (mem s) (HDRP (of_nat p)) = of_nat n"
proof -
  have H': "heap_raw m0 K (as_mm s) base hi ((zs @ [(k, c)]) @ (n, False) # ys) []" using H by simp
  have p: "p = base + total (zs @ [(k, c)])" using b by simp
  show 1: "block_at (mem s) b k c" "block_at (mem s) p n False"
    using heap_raw_split_block[OF H b(1)] heap_raw_split_block[OF H' p] by simp_all
  show 2: "16 \<le> n" "\<not> c \<Longrightarrow> 16 \<le> k" using heap_rawD(5)[OF H] by auto
  show 3: "16 \<le> p" "16 \<le> b" using 1 by (auto simp: block_at_def)
  show "GET_ALLOC (mem s) (FTRP (mem s) (PREV_BLKP (mem s) (of_nat p))) = of_bool c"
    using block_at_reads[OF 1(1)] b(2) by simp
  have "(case ys of [] \<Rightarrow> True | (k, c) # _ \<Rightarrow> c) \<longleftrightarrow> ys = [] \<or> snd (hd ys)" by (auto split: list.split)
  then show "GET_ALLOC (mem s) (HDRP (NEXT_BLKP (mem s) (of_nat p))) = of_bool (ys = [] \<or> snd (hd ys))"
    using heap_raw_next_alloc[OF H' p] block_at_reads[OF 1(2)] 2 3 by simp
  show "GET_SIZE (mem s) (HDRP (of_nat p)) = of_nat n" using block_at_reads[OF 1(2)] 3 by simp
qed

text \<open>The cases: the result, and the tags that are rewritten.\<close>

lemma ff_coalesce_none:
  assumes H: "heap_raw m0 K (as_mm s) base hi (zs @ (k, True) # (n, False) # ys) []"
    and b: "b = base + total zs" "p = b + k" and ys: "ys = [] \<or> snd (hd ys)"
  shows "ff_coalesce (of_nat p) s = (of_nat p, s)"
  using ff_around(7,8)[OF H b] ys by (simp add: ff_coalesce_def Let_def)

lemma ff_coalesce_prev:
  assumes H: "heap_raw m0 K (as_mm s) base hi (zs @ (k, False) # (n, False) # ys) []"
    and b: "b = base + total zs" "p = b + k" and ys: "ys = [] \<or> snd (hd ys)"
  shows "ff_coalesce (of_nat p) s = (of_nat b, with_mem s (retagged (mem s) b (k + n) False))"
proof -
  note f = ff_around[OF H b]
  note m = merge_prev_stores[OF f(1,2) b(2) f(4) f(3) refl refl refl]
  from f m block_at_reads[OF f(1)] block_at_reads[OF f(2)] ys show ?thesis
    by (simp add: ff_coalesce_def Let_def)
qed

lemma ff_coalesce_next:
  assumes H: "heap_raw m0 K (as_mm s) base hi (zs @ (k, True) # (n, False) # (j, False) # ws) []"
    and b: "b = base + total zs" "p = b + k"
  shows "ff_coalesce (of_nat p) s = (of_nat p, with_mem s (retagged (mem s) p (n + j) False))"
proof -
  note f = ff_around[OF H b]
  have bj: "block_at (mem s) (p + n) j False"
    using heap_raw_split_block[of m0 K "as_mm s" base hi "zs @ [(k, True), (n, False)]" j False ws "[]" "p + n"] H b
    by simp
  from f merge_next_stores[OF f(2) bj refl refl] block_at_reads[OF f(2)] block_at_reads[OF bj] show ?thesis
    by (simp add: ff_coalesce_def Let_def)
qed

lemma ff_coalesce_both:
  assumes H: "heap_raw m0 K (as_mm s) base hi (zs @ (k, False) # (n, False) # (j, False) # ws) []"
    and b: "b = base + total zs" "p = b + k"
  shows "ff_coalesce (of_nat p) s = (of_nat b, with_mem s (retagged (mem s) b (k + n + j) False))"
proof -
  note f = ff_around[OF H b]
  have bj: "block_at (mem s) (p + n) j False"
    using heap_raw_split_block[of m0 K "as_mm s" base hi "zs @ [(k, False), (n, False)]" j False ws "[]" "p + n"] H b
    by simp
  have j: "16 \<le> j" using heap_rawD(5)[OF H] by simp
  from f merge_both_stores[OF f(1,2) bj b(2) f(4) f(3) j refl refl refl]
    block_at_reads[OF f(1)] block_at_reads[OF f(2)] block_at_reads[OF bj] show ?thesis
    by (simp add: ff_coalesce_def Let_def)
qed

lemma heap_raw_merge_free:
  assumes H: "heap_raw m0 K (as_mm s) base hi (xs @ mid @ ys) []" and p: "p = base + total xs"
    and n: "n = total mid" "16 \<le> n" and f: "\<forall>(k, al) \<in> set mid. \<not> al"
  shows "heap_raw m0 K (as_mm (with_mem s (retagged (mem s) p n False))) base hi (xs @ (n, False) # ys) []"
  using heap_raw_retag_free[OF H p n] free_region_kept[OF H p f] n(1) by simp

theorem ff_coalesce_heap:
  assumes H: "heap_raw m0 K (as_mm s) base hi (xs @ (n, False) # ys) []" and p: "p = base + total xs" "xs \<noteq> []"
    and C: "coalesced xs n ys = (xs', n', ys')" and q: "q = base + total xs'"
  shows "\<exists>m. ff_coalesce (of_nat p) s = (of_nat q, with_mem s m)
    \<and> heap_raw m0 K (as_mm (with_mem s m)) base hi (xs' @ (n', False) # ys') []"
proof -
  obtain zs k c where xs: "xs = zs @ [(k, c)]" using p(2) by (metis append_butlast_last_id surj_pair)
  define b where "b = base + total zs"
  have b: "b = base + total zs" "p = b + k" using p xs by (simp_all add: b_def)
  have H': "heap_raw m0 K (as_mm s) base hi (zs @ (k, c) # (n, False) # ys) []" using H xs by simp
  note f = ff_around[OF H' b]
  show ?thesis
    using C
  proof (cases rule: coalesced_cases)
    case 1
    then have "c" using xs by simp
    with ff_coalesce_none[OF _ b] 1 H' have "ff_coalesce (of_nat p) s = (of_nat p, with_mem s (mem s))"
      by (simp add: with_mem_def)
    moreover have "with_mem s (mem s) = s" by (simp add: with_mem_def)
    ultimately show ?thesis using 1 H p q by (intro exI[of _ "mem s"]) simp
  next
    case (2 j)
    then have "c" "ys = (j, False) # ys'" using xs by simp_all
    with ff_coalesce_next[OF _ b] H' heap_raw_merge_free[of m0 K s base hi xs "[(n, False), (j, False)]" ys' p "n + j"]
      2 H p q f(3) show ?thesis by auto
  next
    case (3 j)
    then have "\<not> c" "xs' = zs" "j = k" using xs by simp_all
    with ff_coalesce_prev[OF _ b] H' heap_raw_merge_free[of m0 K s base hi zs "[(k, False), (n, False)]" ys b "k + n"]
      3 b q f(3) show ?thesis by auto
  next
    case (4 i j)
    then have "\<not> c" "xs' = zs" "i = k" "ys = (j, False) # ys'" using xs by simp_all
    with ff_coalesce_both[OF _ b] H' b q 4(2) f(3) heap_raw_merge_free[of m0 K s base hi zs
      "[(k, False), (n, False), (j, False)]" ys' b "k + n + j"] show ?thesis by (auto simp: add.assoc)
  qed
qed

text \<open>The end of \<open>mm_free\<close> and \<open>extend_heap\<close>: the coalesced heap is a heap again.\<close>

lemma ff_coalesce_inv:
  assumes H: "heap_raw m0 K (as_mm s) (lo + 8) (lo + heap_limit) ((8, True) # xs @ (n, False) # ys) []"
    and p: "p = lo + 16 + total xs"
    and A: "arena s lo (16 + total (xs @ (n, False) # ys))" "ff_heap_listp s = of_nat (lo + 8)"
    and B: "settled xs" "settled ys" "\<forall>(k, al) \<in> set (xs @ (n, False) # ys). 16 \<le> k"
    and C: "coalesced xs n ys = (xs', n', ys')" and q: "q = lo + 16 + total xs'"
  shows "fst (ff_coalesce (of_nat p) s) = of_nat q"
    and "ff_inv (snd (ff_coalesce (of_nat p) s)) lo (xs' @ (n', False) # ys')"
    and "same_bytes m0 (mem (snd (ff_coalesce (of_nat p) s))) K"
proof -
  have C8: "coalesced ((8, True) # xs) n ys = ((8, True) # xs', n', ys')"
    by (simp add: coalesced_prologue C)
  have p8: "p = lo + 8 + total ((8, True) # xs)" using p by simp
  obtain m where m: "ff_coalesce (of_nat p) s = (of_nat q, with_mem s m)"
    and R: "heap_raw m0 K (as_mm (with_mem s m)) (lo + 8) (lo + heap_limit) (((8, True) # xs') @ (n', False) # ys') []"
    using ff_coalesce_heap[OF _ p8 _ C8, of m0 K s "lo + heap_limit" q] H q by auto
  have "total (xs' @ (n', False) # ys') = total (xs @ (n, False) # ys)"
    using coalesced_total[OF C] by simp
  then have "arena (with_mem s m) lo (16 + total (xs' @ (n', False) # ys'))"
    using A(1) by (simp add: arena_def)
  then show "fst (ff_coalesce (of_nat p) s) = of_nat q"
    "ff_inv (snd (ff_coalesce (of_nat p) s)) lo (xs' @ (n', False) # ys')"
    "same_bytes m0 (mem (snd (ff_coalesce (of_nat p) s))) K"
    using m A(2) heap_raw_forget[OF R] heap_raw_same_bytes[OF R] coalesced_settled[OF C B(1,2)] coalesced_large[OF C B(3)]
    by (simp_all add: ff_inv_def)
qed

section \<open>Freeing a block\<close>

lemma ff_payload_kept:
  assumes I: "ff_inv s lo us" and P: "P \<subseteq> payloads lo us \<union> not_region lo"
  shows "heap_raw (mem s) P (as_mm s) (lo + 8) (lo + heap_limit) ((8, True) # us) []"
  using heap_raw_keep[OF ff_invD(3)[OF I], of P] payload_kept_raw[OF ff_invD(3)[OF I]] P by auto

lemma ff_free_refines:
  assumes I: "ff_inv s lo (xs @ (n, True) # ys)" and p: "p = lo + 16 + total xs"
    and C: "coalesced xs n ys = (xs', n', ys')"
  shows "ff_inv (ff_free (of_nat p) s) lo (xs' @ (n', False) # ys')"
    and "same_bytes (mem s) (mem (ff_free (of_nat p) s))
      (payloads lo (xs' @ (n', False) # ys') \<union> not_region lo)"
proof -
  note i = ff_invD[OF I]
  let ?K = "payloads lo (xs @ (n, False) # ys) \<union> not_region lo"
  have H: "heap_raw (mem s) ?K (as_mm s) (lo + 8) (lo + heap_limit) (((8, True) # xs) @ [(n, True)] @ ys) []"
    using ff_payload_kept[OF I, of ?K] payloads_free_subset[of lo xs n ys True] by auto
  have n: "16 \<le> n" using i(5) by simp
  have p8: "p = lo + 8 + total ((8, True) # xs)" using p by simp
  have b: "block_at (mem s) p n True"
    using heap_raw_split_block[OF _ p8, of _ _ "as_mm s" _ n True ys "[]"] i(3) by simp
  then have d: "8 dvd n" "16 \<le> p" by (auto simp: block_at_def)
  define s2 where "s2 = with_mem s (retagged (mem s) p n False)"
  have e: "ff_free (of_nat p) s = snd (ff_coalesce (of_nat p) s2)"
    using retag_PUT[OF b n, of False] block_at_reads[OF b] PACK_tag(2)[of n] d
    by (simp add: ff_free_def Let_def s2_def)
  have sz: "sized (xs @ (n, False) # ys)" using ff_inv_bounds(5)[OF I] n by simp
  have at: "(p, n, True) \<in> set (places (lo + 8) (((8, True) # xs) @ (n, True) # ys))"
    using p by (simp add: add.commute add.left_commute)
  have "?K \<inter> region p n = {}"
    using free_block_payloads[OF sz p] not_region_block[OF at] ff_inv_bounds(4)[OF I] by auto
  then have H2: "heap_raw (mem s) ?K (as_mm s2) (lo + 8) (lo + heap_limit) (((8, True) # xs) @ (n, False) # ys) []"
    using heap_raw_retag_free[OF H p8] n by (simp add: s2_def)
  have "arena s2 lo (16 + total (xs @ (n, False) # ys))" using i(1) by (simp add: s2_def arena_def)
  from ff_coalesce_inv[OF _ p this _ _ _ _ C refl, of "mem s" ?K] H2 i(2,4,5) n
  show "ff_inv (ff_free (of_nat p) s) lo (xs' @ (n', False) # ys')"
    "same_bytes (mem s) (mem (ff_free (of_nat p) s)) (payloads lo (xs' @ (n', False) # ys') \<union> not_region lo)"
    by (auto simp: e s2_def payloads_coalesced[OF C])
qed

end
