(* ===== verification/Ff_Malloc.thy ===== *)
theory Ff_Malloc
  imports Ff_Correct
begin

text \<open>
  \<open>mm_malloc\<close> and \<open>mm_init\<close> of the first fit allocator: the walk over the blocks ends at the epilogue
  with the first free block that is large enough, the block found or the heap's new last block is
  split when the rest can be a block, and every other block and its payload stay as they were.
\<close>

section \<open>Placing a block\<close>

lemma heap_raw_split:
  assumes H: "heap_raw m0 K (as_mm s) base hi (xs @ (c, False) # ys) []" and p: "p = base + total xs"
    and a: "16 \<le> a" "8 dvd a" "a + 16 \<le> c"
  shows "heap_raw m0 K (as_mm (with_mem s (split_tags (mem s) p a c))) base hi (xs @ [(a, True), (c - a, False)] @ ys) []"
    and "block_at (retagged (mem s) p a True) p a True"
proof -
  have b: "block_at (mem s) p c False" using heap_raw_split_block[OF H p] by simp
  then have d: "16 \<le> p" "8 dvd p" "8 dvd c" "p + c < 2 ^ 32" "8 dvd c - a" "8 dvd p + a"
    using a(2) by (auto simp: block_at_def)
  let ?m = "retagged (mem s) p a True" and ?m' = "split_tags (mem s) p a c"
  note r = retagged_props[OF d(1,2) a(2) _ _, of "mem s" True]
  have q: "16 \<le> p + a" "8 \<le> c - a" "16 \<le> c - a" "p + a + (c - a) < 2 ^ 32" "8 \<le> a" "p + a < 2 ^ 32"
    using d a by auto
  note r' = retagged_props[OF q(1) d(6,5) q(2,4), of ?m False]
  show 1: "block_at ?m p a True" using r(2) a q by simp
  have ch: "changes ?m ?m' ({p + a - 4..<p + a} \<union> {p + a + (c - a) - 8..<p + a + (c - a) - 4})"
    using r'(1) by (simp add: split_tags_def)
  have 2: "block_at ?m' p a True"
    using a d by (intro block_at_changes[OF 1 ch]) auto
  have 3: "block_at ?m' (p + a) (c - a) False" using r'(2) q(3) by (simp add: split_tags_def)
  have W: "({p - 4..<p} \<union> {p + a - 8..<p + a - 4})
      \<union> ({p + a - 4..<p + a} \<union> {p + a + (c - a) - 8..<p + a + (c - a) - 4}) \<subseteq> region p c"
    using a d by (auto simp: region_def)
  have c: "changes (mem s) ?m' (region p c)"
    by (rule changes_mono[OF changes_trans[OF r(1) ch] W]) (use q in auto)
  have H': "heap_raw m0 K (as_mm s) base hi (xs @ [(c, False)] @ ys) []" using H by simp
  show "heap_raw m0 K (as_mm (with_mem s ?m')) base hi (xs @ [(a, True), (c - a, False)] @ ys) []"
  proof (rule heap_raw_update[OF H' p])
    show "changes (mem (as_mm s)) (mem (as_mm (with_mem s ?m'))) (region p (total [(c, False)]) \<union> link_bytes [])"
      using c by simp
    show "tagged (mem (as_mm (with_mem s ?m'))) p [(a, True), (c - a, False)]"
      using 2 3 by (simp add: block_at_def)
    show "free_list (as_mm (with_mem s ?m')) []" using heap_rawD(8)[OF H] by (simp add: free_list_def)
    show "K \<inter> region p (total [(c, False)]) = {}" using free_region_kept[OF H' p] by simp
  qed (use a d q in auto)
qed

lemma ff_place_stores:
  assumes H: "heap_raw m0 K (as_mm s) base hi (xs @ (c, False) # ys) []" and p: "p = base + total xs"
    and a: "16 \<le> a" "8 dvd a" "a \<le> c"
  shows "ff_place (of_nat p) (of_nat a) s
    = with_mem s (if a + 16 \<le> c then split_tags (mem s) p a c else retagged (mem s) p c True)"
proof -
  have b: "block_at (mem s) p c False" using heap_raw_split_block[OF H p] by simp
  then have d: "16 \<le> p" "8 dvd p" "8 dvd c" "p + c < 2 ^ 32" "8 dvd c - a" "8 \<le> c"
    using a(2) by (auto simp: block_at_def)
  have ge: "(16 :: u32) \<le> of_nat (c - a) \<longleftrightarrow> a + 16 \<le> c"
    using a d of_nat_le_iff_u32[of 16 "c - a"] by auto
  show ?thesis
  proof (cases "a + 16 \<le> c")
    case True
    note s = heap_raw_split[OF H p a(1,2) True]
    have q: "8 \<le> c - a" "8 \<le> p + a" "p + a + (c - a) < 2 ^ 32" using True d by auto
    show ?thesis
      using True ge block_at_reads[OF b] block_at_reads[OF s(2)] PACK_tag(1)[OF a(2)] PACK_tag(2)[OF d(5)]
        retag_any[of a p "mem s" True] retag_any[OF d(5) q, of "retagged (mem s) p a True" False] a d
      by (simp add: ff_place_def Let_def mm_constants split_tags_def)
  next
    case False
    then show ?thesis
      using ge block_at_reads[OF b] PACK_tag(1)[OF d(3)] retag_any[of c p "mem s" True] a d
      by (simp add: ff_place_def Let_def mm_constants)
  qed
qed

lemma ff_place_refines:
  assumes I: "ff_inv s lo (xs @ (c, False) # ys)" and p: "p = lo + 16 + total xs"
    and a: "16 \<le> a" "8 dvd a" "a \<le> c"
  shows "ff_inv (ff_place (of_nat p) (of_nat a) s) lo (xs @ placed a c @ ys)"
    and "same_bytes (mem s) (mem (ff_place (of_nat p) (of_nat a) s))
      (payloads lo (xs @ (c, False) # ys) \<union> not_region lo)"
proof -
  note i = ff_invD[OF I]
  let ?K = "payloads lo (xs @ (c, False) # ys) \<union> not_region lo"
  have p8: "p = lo + 8 + total ((8, True) # xs)" using p by simp
  have H: "heap_raw (mem s) ?K (as_mm s) (lo + 8) (lo + heap_limit) (((8, True) # xs) @ (c, False) # ys) []"
    using ff_payload_kept[OF I order_refl] by simp
  have H1: "heap_raw (mem s) ?K (as_mm s) (lo + 8) (lo + heap_limit) (((8, True) # xs) @ [(c, False)] @ ys) []"
    using H by simp
  have K: "?K \<inter> region p c = {}" using free_region_kept[OF H1 p8] by simp
  have c: "16 \<le> c" using i(5) by simp
  define m where "m = (if a + 16 \<le> c then split_tags (mem s) p a c else retagged (mem s) p c True)"
  have e: "ff_place (of_nat p) (of_nat a) s = with_mem s m"
    unfolding m_def by (rule ff_place_stores[OF H p8 a])
  have R: "heap_raw (mem s) ?K (as_mm (with_mem s m)) (lo + 8) (lo + heap_limit) ((8, True) # xs @ placed a c @ ys) []"
    using heap_raw_split(1)[OF H p8 a(1,2)] heap_raw_retag_free[OF H1 p8 _ c K] by (simp add: m_def placed_def)
  have "total (xs @ placed a c @ ys) = total (xs @ (c, False) # ys)" using a(3) by (simp add: placed_def)
  then have "arena (with_mem s m) lo (16 + total (xs @ placed a c @ ys))" using i(1) by (simp add: arena_def)
  then show "ff_inv (ff_place (of_nat p) (of_nat a) s) lo (xs @ placed a c @ ys)"
    using heap_raw_forget[OF R] i(2,4,5) a by (auto simp: e ff_inv_def placed_def)
  show "same_bytes (mem s) (mem (ff_place (of_nat p) (of_nat a) s)) ?K"
    using heap_raw_same_bytes[OF R] by (simp add: e)
qed

section \<open>Searching the heap\<close>

definition ff_fits :: "nat \<Rightarrow> nat \<times> nat \<times> bool \<Rightarrow> bool" where
  "ff_fits a x \<longleftrightarrow> (case x of (p, n, al) \<Rightarrow> \<not> al \<and> a \<le> n)"

lemma ff_walk:
  assumes "\<And>p n al. (p, n, al) \<in> set (places b bs) \<Longrightarrow> block_at m p n al"
    and "load32 m (of_nat (b + total bs - 4)) = tag 0 True" "4 \<le> b" "b + total bs < 2 ^ 32" "a < 2 ^ 32"
  shows "ff_find_fit_from m (of_nat a) (of_nat b)
    = Some (case find (ff_fits a) (places b bs) of None \<Rightarrow> 0 | Some (p, _, _) \<Rightarrow> of_nat p)"
  using assms
proof (induction bs arbitrary: b)
  case Nil
  then have "GET_SIZE m (of_nat (b - 4)) = 0" using GET_SIZE_tag[of m "of_nat (b - 4)" 0 True] by simp
  with Nil show ?case by (subst ff_find_fit_from.simps) simp
next
  case (Cons x xs)
  obtain n al where x: "x = (n, al)" by (cases x)
  have b: "block_at m b n al" using Cons.prems(1) x by simp
  then have n: "0 < n" "n < 2 ^ 32" by (auto simp: block_at_def)
  then have pos: "0 < (of_nat n :: u32)" using of_nat_less_iff_u32[of 0 n] by simp
  have "ff_find_fit_from m (of_nat a) (of_nat (b + n))
      = Some (case find (ff_fits a) (places (b + n) xs) of None \<Rightarrow> 0 | Some (p, _, _) \<Rightarrow> of_nat p)"
    using Cons.prems x by (intro Cons.IH) (auto simp: add.assoc)
  then show ?case
    using pos x block_at_reads[OF b] Cons.prems(3) of_nat_le_iff_u32[OF Cons.prems(5) n(2)]
    by (subst ff_find_fit_from.simps) (auto simp: ff_fits_def)
qed

lemma ff_find_fit_refines:
  assumes I: "ff_inv s lo us" and a: "a < 2 ^ 32"
  shows "ff_find_fit (of_nat a) s
    = Some (case find (ff_fits a) (places (lo + 16) us) of None \<Rightarrow> 0 | Some (p, _, _) \<Rightarrow> of_nat p)"
proof -
  note i = ff_invD[OF I] and d = heap_rawD[OF ff_invD(3)[OF I]]
  have "ff_find_fit_from (mem s) (of_nat a) (of_nat (lo + 8))
    = Some (case find (ff_fits a) (places (lo + 8) ((8, True) # us)) of None \<Rightarrow> 0 | Some (p, _, _) \<Rightarrow> of_nat p)"
    using heap_raw_block_at[OF i(3)] d(7) ff_inv_bounds[OF I] a by (intro ff_walk) auto
  then show ?thesis using i(2) by (simp add: ff_find_fit_def ff_fits_def add.commute)
qed

section \<open>Growing the heap\<close>

lemma ff_extend_grown:
  assumes A: "arena s lo (16 + u)" and n: "8 dvd n" "16 \<le> n" "16 + u + n \<le> heap_limit"
    and P: "P = lo + 16 + u" and u: "8 dvd u"
  shows "\<exists>s'. ff_extend_heap (of_nat n div WSIZE) s = ff_coalesce (of_nat P) s' \<and> as_mm s' = grown P n (as_mm s)"
proof -
  note a = arenaD[OF A]
  have b: "16 \<le> P" "P + n < 2 ^ 32" "n < 2 ^ 32" "8 dvd P" using a(1-3) n(3) P u by auto
  define s1 where "s1 = s\<lparr>mem_brk := of_nat (P + n)\<rparr>"
  define m where "m = store32 (retagged (mem s) P n False) (of_nat (P + n - 4)) (tag 0 True)"
  have sb: "mem_sbrk (of_nat n) s = (of_nat P, s1)"
    using mem_sbrk_arena_ok(1)[OF A n(3)] P by (simp add: add.assoc s1_def)
  have ne: "(of_nat P :: u32) \<noteq> - 1"
    unfolding minus_1_u32 using of_nat_eq_iff_u32[of P 4294967295] b n by simp
  have m1: "mem s1 = mem s" by (simp add: s1_def)
  have 1: "store32 (store32 (mem s) (of_nat (P - 4)) (tag n False))
      (FTRP (store32 (mem s) (of_nat (P - 4)) (tag n False)) (of_nat P)) (tag n False) = retagged (mem s) P n False"
    using b n by (intro retag_any) auto
  have "block_at (retagged (mem s) P n False) P n False" using retagged_props(2) b n by simp
  note 2 = block_at_reads(6)[OF this]
  have 3: "PACK 0 1 = tag 0 True" using PACK_tag(1)[of 0] by simp
  have "ff_extend_heap (of_nat n div WSIZE) s = ff_coalesce (of_nat P) (with_mem s1 m)"
    using sb ne m1 1 2 3 b n PACK_tag(2)[OF n(1)] even_words[OF n(1) b(3)]
    by (simp add: ff_extend_heap_def Let_def m_def)
  moreover have "as_mm (with_mem s1 m) = grown P n (as_mm s)"
    by (simp add: as_mm_def grown_def s1_def m_def with_mem_def)
  ultimately show ?thesis by blast
qed

lemma ff_extend_refines:
  assumes A: "arena s lo (16 + total us)" "ff_heap_listp s = of_nat (lo + 8)"
    and H: "heap_raw m0 K (as_mm s) (lo + 8) (lo + heap_limit) ((8, True) # us) []"
    and F: "settled us" "\<forall>(n, al) \<in> set us. 16 \<le> n"
    and n: "8 dvd n" "16 \<le> n" "16 + total us + n \<le> heap_limit"
    and C: "coalesced us n [] = (us', n', [])" and q: "q = lo + 16 + total us'"
  shows "fst (ff_extend_heap (of_nat n div WSIZE) s) = of_nat q"
    and "ff_inv (snd (ff_extend_heap (of_nat n div WSIZE) s)) lo (us' @ [(n', False)])"
    and "same_bytes m0 (mem (snd (ff_extend_heap (of_nat n div WSIZE) s))) K"
proof -
  note a = arenaD[OF A(1)]
  define P where "P = lo + 16 + total us"
  have du: "8 dvd total us" using total_dvd heap_rawD(5)[OF H] by simp
  obtain s' where s': "ff_extend_heap (of_nat n div WSIZE) s = ff_coalesce (of_nat P) s'"
    "as_mm s' = grown P n (as_mm s)"
    using ff_extend_grown[OF A(1) n P_def du] by blast
  have f: "ff_heap_listp s' = ff_heap_listp s" "mem_brk s' = of_nat (P + n)"
    "mem_start_brk s' = mem_start_brk s" "mem_max_addr s' = mem_max_addr s"
    using s'(2) by (simp_all add: as_mm_def grown_def)
  have P8: "P = lo + 8 + total ((8, True) # us)" by (simp add: P_def)
  have "heap_raw m0 K (as_mm s') (lo + 8) (lo + heap_limit) (((8, True) # us) @ [(n, False)]) []"
    using n P_def by (intro heap_raw_extend[OF H P8]) (auto simp: s'(2) grown_def)
  then have H2: "heap_raw m0 K (as_mm s') (lo + 8) (lo + heap_limit) ((8, True) # us @ [(n, False)]) []" by simp
  have 1: "arena s' lo (16 + total (us @ [(n, False)]))"
    using a n f by (simp add: arena_def P_def add.assoc)
  have 2: "ff_heap_listp s' = of_nat (lo + 8)" using A(2) f by simp
  have 3: "settled []" "\<forall>(k, al) \<in> set (us @ [(n, False)]). 16 \<le> k" using F(2) n by auto
  from ff_coalesce_inv[OF H2 P_def 1 2 F(1) 3 C q] s'(1)
  show "fst (ff_extend_heap (of_nat n div WSIZE) s) = of_nat q"
    "ff_inv (snd (ff_extend_heap (of_nat n div WSIZE) s)) lo (us' @ [(n', False)])"
    "same_bytes m0 (mem (snd (ff_extend_heap (of_nat n div WSIZE) s))) K" by simp_all
qed

lemma ff_init_refines:
  assumes A: "arena s lo 0"
  shows "fst (ff_init s) = 0" "ff_inv (snd (ff_init s)) lo [(4096, False)]"
    "same_bytes (mem s) (mem (snd (ff_init s))) (not_region lo)"
proof -
  note a = arenaD[OF A]
  have b: "lo + 16 < 2 ^ 32" "(of_nat lo :: u32) \<noteq> 0"
    using a(1,3) of_nat_eq_0_iff_u32[of lo] by (auto simp: heap_limit_def)
  define m7 where "m7 = store32 (store32 (store32 (store32 (mem s) (of_nat lo) 0) (of_nat (lo + 4)) (tag 8 True))
        (of_nat (lo + 8)) (tag 8 True)) (of_nat (lo + 12)) (tag 0 True)"
  define s7 where "s7 = s\<lparr>mem_brk := of_nat (lo + 16), mem := m7, ff_heap_listp := of_nat (lo + 8)\<rparr>"
  have h16: "0 + 16 \<le> heap_limit" by (simp add: heap_limit_def)
  have sb: "mem_sbrk 16 s = (of_nat lo, s\<lparr>mem_brk := of_nat (lo + 16)\<rparr>)"
    using mem_sbrk_arena_ok(1)[OF A h16] by simp
  have P: "PACK 8 1 = tag 8 True" "PACK 0 1 = tag 0 True"
    using PACK_tag(1)[of 8] PACK_tag(1)[of 0] by simp_all
  have e: "ff_init s = (case ff_extend_heap (CHUNKSIZE div WSIZE) s7 of (bp, s8) \<Rightarrow> (if bp = 0 then - 1 else 0, s8))"
    using sb b P by (simp add: ff_init_def Let_def mm_constants s7_def m7_def with_mem_def add.commute)
  have A7: "arena s7 lo (16 + total [])"
    using mem_sbrk_arena_ok(2)[OF A h16] by (simp add: arena_def s7_def)
  have H7: "heap_raw (mem s) (not_region lo) (as_mm s7) (lo + 8) (lo + heap_limit) [(8, True)] []"
    using A7 by (intro heap_raw_start[where s = s7]) (auto simp: s7_def m7_def)
  have w: "CHUNKSIZE div WSIZE = of_nat 4096 div WSIZE" by (simp add: CHUNKSIZE_eq)
  have C: "coalesced [] 4096 [] = ([], 4096, [])" by (simp add: coalesced_def)
  have "ff_heap_listp s7 = of_nat (lo + 8)" by (simp add: s7_def)
  note x = ff_extend_refines[OF A7 this H7 _ _ _ _ _ C refl, folded w]
  have y: "fst (ff_extend_heap (CHUNKSIZE div WSIZE) s7) = of_nat (lo + 16)"
    "ff_inv (snd (ff_extend_heap (CHUNKSIZE div WSIZE) s7)) lo [(4096, False)]"
    "same_bytes (mem s) (mem (snd (ff_extend_heap (CHUNKSIZE div WSIZE) s7))) (not_region lo)"
    using x by (simp_all add: heap_limit_def dvd_def)
  have "(of_nat (lo + 16) :: u32) \<noteq> 0" using b of_nat_eq_0_iff_u32[of "lo + 16"] by simp
  with y show "fst (ff_init s) = 0" "ff_inv (snd (ff_init s)) lo [(4096, False)]"
    "same_bytes (mem s) (mem (snd (ff_init s))) (not_region lo)"
    by (simp_all add: e split_beta)
qed

end
