(* ===== verification/Ff_Alloc.thy ===== *)
theory Ff_Alloc
  imports Ff_Malloc
begin

text \<open>
  The outcomes of \<open>mm_malloc\<close> of the first fit allocator, and \<open>mm_realloc\<close>, which always moves the
  block: the contents of the old payload are found at the start of the new one.
\<close>

section \<open>Allocation\<close>

definition too_small :: "nat \<Rightarrow> block list \<Rightarrow> bool" where
  "too_small a bs \<longleftrightarrow> (\<forall>(k, al) \<in> set bs. al \<or> k < a)"

definition ff_found :: "nat \<Rightarrow> nat \<Rightarrow> block list \<Rightarrow> u32" where
  "ff_found b a us = (case find (ff_fits a) (places b us) of None \<Rightarrow> 0 | Some (p, _, _) \<Rightarrow> of_nat p)"

text \<open>The blocks either end with no free block of the size, or split at the first one.\<close>

lemma ff_found_cases:
  obtains "too_small a us" "ff_found b a us = 0"
  | xs c ys where "us = xs @ (c, False) # ys" "too_small a xs" "a \<le> c" "ff_found b a us = of_nat (b + total xs)"
proof -
  have "(too_small a us \<and> ff_found b a us = 0) \<or> (\<exists>xs c ys. us = xs @ (c, False) # ys
      \<and> too_small a xs \<and> a \<le> c \<and> ff_found b a us = of_nat (b + total xs))" for b
  proof (induction us arbitrary: b)
    case Nil
    then show ?case by (simp add: too_small_def ff_found_def)
  next
    case (Cons x us)
    obtain n al where x: "x = (n, al)" by (cases x)
    show ?case
    proof (cases "\<not> al \<and> a \<le> n")
      case True
      then have "x # us = [] @ (n, False) # us" "ff_found b a (x # us) = of_nat (b + total [])"
        using x by (simp_all add: ff_found_def ff_fits_def)
      then show ?thesis using True by (intro disjI2 exI conjI) (auto simp: too_small_def)
    next
      case False
      then have e: "ff_found b a (x # us) = ff_found (b + n) a us"
        and t: "\<And>xs. too_small a (x # xs) = too_small a xs"
        using x by (auto simp: ff_found_def ff_fits_def too_small_def)
      from Cons[of "b + n"] show ?thesis
      proof (elim disjE exE conjE)
        fix xs c ys
        assume "us = xs @ (c, False) # ys" "too_small a xs" "a \<le> c" "ff_found (b + n) a us = of_nat (b + n + total xs)"
        then have "x # us = (x # xs) @ (c, False) # ys \<and> too_small a (x # xs) \<and> a \<le> c
            \<and> ff_found b a (x # us) = of_nat (b + total (x # xs))" using e t x by (simp add: add.assoc)
        then show ?thesis by blast
      qed (use e t in simp)
    qed
  qed
  then show ?thesis using that by blast
qed

definition ff_out_of_memory :: "ff \<Rightarrow> ff" where
  "ff_out_of_memory s = s\<lparr>mem_errno := ENOMEM, mem_stderr := mem_stderr s @ [sbrk_failed_msg]\<rparr>"

lemma ff_malloc_unfold:
  assumes I: "ff_inv s lo us" and n: "0 < n" "n + 15 < 2 ^ 32"
  shows "ff_malloc (of_nat n) s =
    (let bp = ff_found (lo + 16) (block_need n) us in
     if bp \<noteq> 0 then Inr (bp, ff_place bp (of_nat (block_need n)) s)
     else case ff_extend_heap (of_nat (grow_by n) div WSIZE) s of (bp, s1) \<Rightarrow>
         if bp = 0 then Inr (0, s1) else Inr (bp, ff_place bp (of_nat (block_need n)) s1))"
proof -
  have b: "block_need n < 2 ^ 32" using block_need_props(4)[of n] n by auto
  show ?thesis
    using ff_find_fit_refines[OF I b] of_nat_pos_u32[of n] n grow_words[OF n(2)]
    by (simp add: ff_malloc_def adjusted_size_eq split_beta Let_def ff_found_def)
qed

text \<open>The outcome of \<open>mm_malloc\<close> as \<open>ff_outcome xs c ys\<close>: the free block \<open>c\<close> between \<open>xs\<close> and \<open>ys\<close> was taken.\<close>

definition ff_outcome :: "nat \<Rightarrow> nat \<Rightarrow> ff \<Rightarrow> block list \<Rightarrow> nat \<Rightarrow> block list \<Rightarrow> ff \<Rightarrow> bool" where
  "ff_outcome lo n s xs c ys s' \<longleftrightarrow> block_need n \<le> c \<and> ff_inv s' lo (xs @ placed (block_need n) c @ ys)
     \<and> same_bytes (mem s) (mem s') (payloads lo (xs @ (c, False) # ys) \<union> not_region lo)"

lemma ff_malloc_fit:
  assumes I: "ff_inv s lo (xs @ (c, False) # ys)" and n: "0 < n" "n + 15 < 2 ^ 32"
    and f: "too_small (block_need n) xs" "block_need n \<le> c"
  shows "\<exists>s'. ff_malloc (of_nat n) s = Inr (of_nat (lo + 16 + total xs), s') \<and> ff_outcome lo n s xs c ys s'"
proof -
  let ?us = "xs @ (c, False) # ys" and ?p = "lo + 16 + total xs"
  note b = ff_inv_bounds[OF I]
  have e: "ff_found (lo + 16) (block_need n) ?us = of_nat ?p"
  proof (rule ff_found_cases[of "block_need n" ?us "lo + 16"])
    fix xs' c' ys' assume s: "?us = xs' @ (c', False) # ys'" "too_small (block_need n) xs'" "block_need n \<le> c'"
      "ff_found (lo + 16) (block_need n) ?us = of_nat (lo + 16 + total xs')"
    have "xs = xs'"
    proof -
      from s(1) obtain zs where "xs = xs' @ zs \<and> zs @ (c, False) # ys = (c', False) # ys'
          \<or> xs @ zs = xs' \<and> (c, False) # ys = zs @ (c', False) # ys'"
        unfolding append_eq_append_conv2 by blast
      then show ?thesis using f s(2,3) by (cases zs) (auto simp: too_small_def)
    qed
    with s(4) show ?thesis by simp
  qed (use f in \<open>auto simp: too_small_def\<close>)
  have "(of_nat ?p :: u32) \<noteq> 0" using b by (subst of_nat_eq_0_iff_u32) auto
  then show ?thesis
    using ff_malloc_unfold[OF I n] e ff_place_refines[OF I refl block_need_props(2,1) f(2)] f(2)
    by (simp add: ff_outcome_def Let_def)
qed

lemma ff_malloc_grow:
  assumes I: "ff_inv s lo us" and n: "0 < n" "n + 15 < 2 ^ 32"
    and f: "too_small (block_need n) us" "16 + total us + grow_by n \<le> heap_limit"
    and C: "coalesced us (grow_by n) [] = (us', c, [])"
  shows "\<exists>s'. ff_malloc (of_nat n) s = Inr (of_nat (lo + 16 + total us'), s') \<and> ff_outcome lo n s us' c [] s'"
proof -
  let ?p = "lo + 16 + total us'"
  note i = ff_invD[OF I] and pr = block_need_props[of n]
  have e: "ff_found (lo + 16) (block_need n) us = 0"
    using f(1) by (cases rule: ff_found_cases[of "block_need n" us "lo + 16"]) (auto simp: too_small_def)
  have K: "heap_raw (mem s) (payloads lo us \<union> not_region lo) (as_mm s) (lo + 8) (lo + heap_limit) ((8, True) # us) []"
    using ff_payload_kept[OF I order_refl] by simp
  note x = ff_extend_refines[OF i(1,2) K i(4,5) grow_by_props(1,2) f(2) C refl]
  have "(of_nat ?p :: u32) \<noteq> 0" using ff_inv_bounds[OF x(2)] by (subst of_nat_eq_0_iff_u32) auto
  moreover have c: "block_need n \<le> c" using coalesced_end_size(1)[OF C] grow_by_props(3)[of n] by simp
  moreover have "payloads lo us = payloads lo (us' @ [(c, False)])"
    using coalesced_end_size(2)[OF C] by (simp add: payloads_handed_out)
  ultimately show ?thesis
    using ff_malloc_unfold[OF I n] e x(1,3) ff_place_refines[OF x(2) refl pr(2,1) c]
    by (auto simp: ff_outcome_def split_beta intro: same_bytes_trans)
qed

lemma ff_malloc_fail:
  assumes I: "ff_inv s lo us" and n: "request_ok lo n" and f: "too_small (block_need n) us"
    and full: "heap_limit < 16 + total us + grow_by n"
  shows "ff_malloc (of_nat n) s = Inr (0, ff_out_of_memory s)" "ff_inv (ff_out_of_memory s) lo us"
proof -
  note i = ff_invD[OF I]
  have n': "0 < n" "n + 15 < 2 ^ 32" using n by (auto simp: request_ok_def)
  have e: "ff_found (lo + 16) (block_need n) us = 0"
    using f by (cases rule: ff_found_cases[of "block_need n" us "lo + 16"]) (auto simp: too_small_def)
  have "mem_sbrk (of_nat (grow_by n)) s = (- 1, ff_out_of_memory s)"
    unfolding ff_out_of_memory_def
    using arena_request[OF i(1) n full] grow_words(2)[OF n'(2)] full by (intro sbrk_full[OF i(1)]) auto
  then have "ff_extend_heap (of_nat (grow_by n) div WSIZE) s = (0, ff_out_of_memory s)"
    using even_words[OF grow_by_props(1) grow_words(2)[OF n'(2)]] by (simp add: ff_extend_heap_def Let_def)
  with ff_malloc_unfold[OF I n'] e show "ff_malloc (of_nat n) s = Inr (0, ff_out_of_memory s)" by simp
  have "as_mm (ff_out_of_memory s) = out_of_memory (as_mm s)"
    by (simp add: as_mm_def ff_out_of_memory_def out_of_memory_def)
  with I show "ff_inv (ff_out_of_memory s) lo us"
    by (simp add: ff_inv_def ff_out_of_memory_def out_of_memory_def arena_def heap_raw_def free_list_def)
qed

end
