(* ===== verification/Ff_Interface.thy ===== *)
theory Ff_Interface
  imports Ff_Alloc Live_Blocks
begin

text \<open>
  The first fit allocator keeps the whole contract of \<^verbatim>\<open>mm.h\<close>: the locale \<open>reallocator\<close> holds for
  its functions, \<open>mm_realloc\<close> included.
\<close>

definition ff_ops :: "ff alloc_ops" where
  "ff_ops = \<lparr>op_init = ff_init, op_malloc = ff_malloc, op_realloc = ff_realloc, op_free = ff_free\<rparr>"

definition ff_live :: "ff \<Rightarrow> nat \<Rightarrow> (nat \<times> nat) set \<Rightarrow> bool" where
  "ff_live s lo L \<longleftrightarrow> (\<exists>us. ff_inv s lo us \<and> L = live_payloads lo us)"

lemma ff_inv_facts:
  assumes "ff_inv s lo us"
  shows "large_blocks us" "sized us" "8 dvd lo" "arena s lo (16 + total us)"
  using ff_invD[OF assms] ff_inv_bounds[OF assms] by (auto simp: large_blocks_def)

lemma ff_inv_write:
  assumes I: "ff_inv s lo us" and p: "(p, k) \<in> live_payloads lo us" and c: "changes (mem s) m {p..<p + k}"
  shows "ff_inv (s\<lparr>mem := m\<rparr>) lo us"
proof -
  note i = ff_invD[OF I]
  have "{p..<p + k} \<inter> writable (lo + 8) (lo + heap_limit) ((8, True) # us) (set []) = {}"
    by (rule payload_unwritable[OF i(3) _ p ff_inv_facts(1)[OF I]]) simp
  from heap_raw_poke[OF i(3) _ this, of m] c
  have "heap_raw m {} (as_mm s\<lparr>mem := m\<rparr>) (lo + 8) (lo + heap_limit) ((8, True) # us) []" by simp
  moreover have "as_mm (s\<lparr>mem := m\<rparr>) = as_mm s\<lparr>mem := m\<rparr>" by (simp add: as_mm_def)
  ultimately show ?thesis using i by (simp add: ff_inv_def arena_def)
qed

lemma ff_live_free:
  assumes I: "ff_inv s lo us" and p: "(p, k) \<in> live_payloads lo us"
  shows "ff_live (ff_free (of_nat p) s) lo (live_payloads lo us - {(p, k)})
    \<and> same_bytes (mem s) (mem (ff_free (of_nat p) s)) (live_bytes (live_payloads lo us - {(p, k)}))
    \<and> grows s (ff_free (of_nat p) s)"
proof -
  note f = ff_inv_facts[OF I]
  obtain xs ys where u: "us = xs @ (k + 8, True) # ys" "p = lo + 16 + total xs"
    using places_split[OF live_payloadsE(1)[OF p f(1)]] by blast
  obtain xs' n' ys' where C: "coalesced xs (k + 8) ys = (xs', n', ys')" by (metis prod_cases3)
  note r = ff_free_refines[OF I[unfolded u(1)] u(2) C]
  have e: "live_payloads lo (xs' @ (n', False) # ys') = live_payloads lo us - {(p, k)}"
    using live_payloads_coalesced[OF C f(2)[unfolded u(1)] u(2)] u(1) by simp
  have "live_bytes (live_payloads lo us - {(p, k)}) \<subseteq> payloads lo (xs' @ (n', False) # ys')"
    using live_bytes_payloads[OF ff_inv_facts(1)[OF r(1)], of lo] e by simp
  moreover have "grows s (ff_free (of_nat p) s)"
    unfolding grows_arena[OF f(4) ff_inv_facts(4)[OF r(1)]] using coalesced_total[OF C] u(1) by simp
  ultimately show ?thesis using r e by (auto simp: ff_live_def intro: same_bytes_mono)
qed

lemma ff_outcome_live:
  assumes o: "ff_outcome lo n s xs c ys s'" and z: "sized (xs @ (c, False) # ys)"
    and e: "live_payloads lo (xs @ (c, False) # ys) = live_payloads lo us" "large_blocks (xs @ (c, False) # ys)"
    and p: "p = lo + 16 + total xs" and A: "arena s lo (16 + t)" "t \<le> total (xs @ (c, False) # ys)"
  shows "\<exists>k us'. ff_inv s' lo us' \<and> live_payloads lo us' = insert (p, k) (live_payloads lo us)
    \<and> (\<forall>j. (p, j) \<notin> live_payloads lo us) \<and> n \<le> k
    \<and> same_bytes (mem s) (mem s') (live_bytes (live_payloads lo us)) \<and> grows s s'"
proof -
  from o have o': "block_need n \<le> c" "ff_inv s' lo (xs @ placed (block_need n) c @ ys)"
    "same_bytes (mem s) (mem s') (payloads lo (xs @ (c, False) # ys) \<union> not_region lo)"
    by (auto simp: ff_outcome_def)
  note l = live_payloads_placed[OF p o'(1) z e(2) block_need_props(3)]
  have "live_bytes (live_payloads lo us) \<subseteq> payloads lo (xs @ (c, False) # ys)"
    using live_bytes_payloads[OF e(2), of lo] e(1) by simp
  moreover have "grows s s'"
    unfolding grows_arena[OF A(1) ff_inv_facts(4)[OF o'(2)]] using A(2) o'(1) by (auto simp: placed_def)
  moreover note o'(2,3) l e(1)
  ultimately show ?thesis by (metis (no_types, lifting) le_supI1 same_bytes_mono)
qed

lemma ff_live_malloc:
  assumes I: "ff_inv s lo us" and n: "request_ok lo n"
  shows "(\<exists>p k us' s'. ff_malloc (of_nat n) s = Inr (of_nat p, s') \<and> ff_inv s' lo us'
        \<and> live_payloads lo us' = insert (p, k) (live_payloads lo us)
        \<and> (\<forall>j. (p, j) \<notin> live_payloads lo us) \<and> n \<le> k
        \<and> same_bytes (mem s) (mem s') (live_bytes (live_payloads lo us)) \<and> grows s s')
      \<or> (ff_malloc (of_nat n) s = Inr (0, ff_out_of_memory s) \<and> ff_inv (ff_out_of_memory s) lo us)"
proof -
  note f = ff_inv_facts[OF I]
  have n': "0 < n" "n + 15 < 2 ^ 32" using n by (auto simp: request_ok_def)
  show ?thesis
  proof (rule ff_found_cases[of "block_need n" us 0])
    fix xs c ys assume u: "us = xs @ (c, False) # ys" "too_small (block_need n) xs" "block_need n \<le> c"
    obtain s' where s': "ff_malloc (of_nat n) s = Inr (of_nat (lo + 16 + total xs), s')" "ff_outcome lo n s xs c ys s'"
      using ff_malloc_fit[OF I[unfolded u(1)] n' u(2,3)] by blast
    from ff_outcome_live[OF s'(2) _ _ _ refl f(4), of us] f(1,2) u(1) s'(1) show ?thesis by blast
  next
    assume t: "too_small (block_need n) us"
    show ?thesis
    proof (cases "16 + total us + grow_by n \<le> heap_limit")
      case True
      obtain us' k where C: "coalesced us (grow_by n) [] = (us', k + grow_by n, [])"
        using coalesced_end by blast
      obtain s' where s': "ff_malloc (of_nat n) s = Inr (of_nat (lo + 16 + total us'), s')"
        "ff_outcome lo n s us' (k + grow_by n) [] s'"
        using ff_malloc_grow[OF I n' t True C] by blast
      have z: "sized (us @ [(grow_by n, False)])" "large_blocks (us @ [(grow_by n, False)])"
        using f(1,2) grow_by_props[of n] by (auto simp: large_blocks_def)
      have zl: "sized (us' @ [(k + grow_by n, False)])" "large_blocks (us' @ [(k + grow_by n, False)])"
        using C z by (cases rule: coalesced_cases; auto simp: large_blocks_def)+
      have "live_payloads lo (us' @ [(k + grow_by n, False)]) = live_payloads lo us"
        using coalesced_end_size(2)[OF C] by (simp add: live_payloads_def)
      moreover have "total us \<le> total (us' @ [(k + grow_by n, False)])" using coalesced_total[OF C] by simp
      ultimately show ?thesis using ff_outcome_live[OF s'(2) zl(1) _ zl(2) refl f(4)] s'(1) by blast
    next
      case False
      with ff_malloc_fail[OF I n t] show ?thesis by simp
    qed
  qed
qed

interpretation ff_alloc: allocator ff_ops ff_live request_ok
proof unfold_locales
  fix s :: ff and lo n p q k j :: nat and L m
  show "fst (op_init ff_ops s) = 0 \<and> ff_live (snd (op_init ff_ops s)) lo {}
      \<and> 0 < unat (mem_heapsize (snd (op_init ff_ops s)))" if a: "arena s lo 0"
  proof -
    have "live_payloads lo [(4096, False)] = {}" by (simp add: live_payloads_def handed_out_def)
    moreover have "unat (mem_heapsize (snd (ff_init s))) = 16 + total [(4096, False)]"
      by (rule heapsize_arena[OF ff_inv_facts(4)[OF ff_init_refines(2)[OF a]]])
    ultimately show ?thesis using ff_init_refines[OF a] by (auto simp: ff_ops_def ff_live_def)
  qed
  assume "ff_live s lo L"
  then obtain us where I: "ff_inv s lo us" "L = live_payloads lo us" by (auto simp: ff_live_def)
  note f = ff_inv_facts[OF I(1)]
  show "\<exists>u. arena s lo u" "finite L" using f(4) I(2) by auto
  show "8 dvd p \<and> 0 < k \<and> unat (mem_heap_lo s) \<le> p \<and> p + k \<le> unat (mem_heap_hi s)" if "(p, k) \<in> L"
    using that live_payloads_place[OF _ f(1-4)] I(2) by simp
  show "(p, k) = (q, j) \<or> p + k \<le> q \<or> q + j \<le> p" if "(p, k) \<in> L" "(q, j) \<in> L"
    using that live_payloads_apart[OF _ _ f(1,2)] I(2) by simp
  show "(\<exists>p k s'. op_malloc ff_ops (of_nat n) s = Inr (of_nat p, s') \<and> ff_live s' lo (insert (p, k) L)
         \<and> (\<forall>j. (p, j) \<notin> L) \<and> n \<le> k \<and> same_bytes (mem s) (mem s') (live_bytes L) \<and> grows s s')
      \<or> (\<exists>s'. op_malloc ff_ops (of_nat n) s = Inr (0, s') \<and> ff_live s' lo L \<and> mem s' = mem s)"
    if "request_ok lo n"
    using ff_live_malloc[OF I(1) that]
  proof (elim disjE exE conjE)
    fix p k us' s' assume "ff_malloc (of_nat n) s = Inr (of_nat p, s')" "ff_inv s' lo us'"
      "live_payloads lo us' = insert (p, k) (live_payloads lo us)" "\<forall>j. (p, j) \<notin> live_payloads lo us" "n \<le> k"
      "same_bytes (mem s) (mem s') (live_bytes (live_payloads lo us))" "grows s s'"
    then show ?thesis using I(2)
      by (intro disjI1 exI[of _ p] exI[of _ k] exI[of _ s']) (auto simp: ff_ops_def ff_live_def)
  next
    assume "ff_malloc (of_nat n) s = Inr (0, ff_out_of_memory s)" "ff_inv (ff_out_of_memory s) lo us"
    then show ?thesis using I(2)
      by (intro disjI2 exI[of _ "ff_out_of_memory s"]) (auto simp: ff_ops_def ff_live_def ff_out_of_memory_def)
  qed
  show "ff_live (op_free ff_ops (of_nat p) s) lo (L - {(p, k)})
      \<and> same_bytes (mem s) (mem (op_free ff_ops (of_nat p) s)) (live_bytes (L - {(p, k)}))
      \<and> grows s (op_free ff_ops (of_nat p) s)" if "(p, k) \<in> L"
    using ff_live_free[OF I(1)] that I(2) by (simp add: ff_ops_def)
  show "ff_live (s\<lparr>mem := m\<rparr>) lo L" if "(p, k) \<in> L" "changes (mem s) m {p..<p + k}"
    using ff_inv_write[OF I(1)] that I(2) unfolding ff_live_def by blast
qed

section \<open>Reallocation\<close>

text \<open>What \<open>mm_realloc\<close> reads after a successful \<open>mm_malloc\<close>: the size it copies, and that the ranges do
  not overlap.\<close>

lemma ff_realloc_reads:
  assumes I: "ff_inv s lo us" and L: "live_payloads lo us = insert (q, j) L" "\<forall>i. (q, i) \<notin> L"
    and p: "(p, k) \<in> L" and n: "n \<le> j" and c: "c = min n (k + 8)"
  shows "GET_SIZE (mem s) (HDRP (of_nat p)) = of_nat (k + 8)" "(of_nat q :: u32) \<noteq> 0"
    "(if (of_nat n :: u32) < of_nat (k + 8) then of_nat n else of_nat (k + 8)) = (of_nat c :: u32)"
    "\<not> regions_overlap (of_nat q) (of_nat p) (of_nat c)"
proof -
  note f = ff_inv_facts[OF I] and b = ff_inv_bounds[OF I]
  have pq: "(p, k) \<in> live_payloads lo us" "(q, j) \<in> live_payloads lo us" "p \<noteq> q" using L p by auto
  note e = live_payloadsE[OF pq(1) f(1)] live_payloadsE[OF pq(2) f(1)]
  note r = places_range[OF e(1)] places_range[OF e(3)]
  have at: "(p, k + 8, True) \<in> set (places (lo + 8) ((8, True) # us))" using e(1) by (simp add: add.commute)
  have bl: "block_at (mem s) p (k + 8) True"
    using heap_raw_block_at[OF ff_invD(3)[OF I] at] by simp
  then show "GET_SIZE (mem s) (HDRP (of_nat p)) = of_nat (k + 8)"
    using block_at_reads[OF bl] by (simp add: block_at_def)
  have u: "q + (j + 8) < 2 ^ 32" "p + (k + 8) < 2 ^ 32" "0 < q" using r b by auto
  then show "(of_nat q :: u32) \<noteq> 0" by (subst of_nat_eq_0_iff_u32) auto
  show "(if (of_nat n :: u32) < of_nat (k + 8) then of_nat n else of_nat (k + 8)) = (of_nat c :: u32)"
    using u n c by (simp add: of_nat_less_iff_u32)
  have "p + (k + 8) \<le> q \<or> q + (j + 8) \<le> p" using places_apart[OF f(2) e(1,3)] pq(3) by auto
  then show "\<not> regions_overlap (of_nat q) (of_nat p) (of_nat c)"
    using c n u by (intro regions_apart) auto
qed

lemma ff_live_realloc:
  assumes I: "ff_inv s lo us" and L: "L = live_payloads lo us" and p: "(p, k) \<in> L" and n: "request_ok lo n"
  shows "ff_realloc (of_nat p) (of_nat n) s = Inl (Exits 1)
      \<or> (\<exists>q j s'. ff_realloc (of_nat p) (of_nat n) s = Inr (of_nat q, s')
         \<and> ff_live s' lo (insert (q, j) (L - {(p, k)})) \<and> (\<forall>i. (q, i) \<notin> L - {(p, k)}) \<and> n \<le> j
         \<and> same_bytes (mem s) (mem s') (live_bytes (L - {(p, k)})) \<and> grows s s'
         \<and> (\<forall>i < min k n. mem s' (of_nat (q + i)) = mem s (of_nat (p + i))))"
  using ff_live_malloc[OF I n]
proof (elim disjE exE conjE)
  assume "ff_malloc (of_nat n) s = Inr (0, ff_out_of_memory s)"
  then show ?thesis by (simp add: ff_realloc_def)
next
  fix q j us1 s1
  assume a: "ff_malloc (of_nat n) s = Inr (of_nat q, s1)" "ff_inv s1 lo us1"
    "live_payloads lo us1 = insert (q, j) (live_payloads lo us)" "\<forall>j. (q, j) \<notin> live_payloads lo us" "n \<le> j"
    "same_bytes (mem s) (mem s1) (live_bytes (live_payloads lo us))" "grows s s1"
  define c where "c = min n (k + 8)"
  note r = ff_realloc_reads[OF a(2) a(3)[folded L] a(4)[folded L] p a(5) c_def]
  define s2 where "s2 = ff_free (of_nat p) (s1\<lparr>mem := mem_copy (mem s1) (of_nat q) (of_nat p) (of_nat c)\<rparr>)"
  have v: "ff_live s1 lo (insert (q, j) L)" using a(2,3) L by (auto simp: ff_live_def)
  have c: "c \<le> j" "min k c = min k n" using a(5) by (auto simp: c_def)
  have "\<forall>j. (q, j) \<notin> L" using a(4) L by simp
  note m = ff_alloc.move_payload[OF v this p c(1), of s2, unfolded c(2)]
  have s2: "s2 = op_free ff_ops (of_nat p) (s1\<lparr>mem := mem_copy (mem s1) (of_nat q) (of_nat p) (of_nat c)\<rparr>)"
    by (simp add: s2_def ff_ops_def)
  have "ff_realloc (of_nat p) (of_nat n) s = Inr (of_nat q, s2)"
    using a(1) r
    by (cases "(of_nat n :: u32) < of_nat (k + 8)") (simp_all add: ff_realloc_def Let_def s2_def)
  moreover have "same_bytes (mem s) (mem s2) (live_bytes (L - {(p, k)}))"
    using a(6) L by (intro same_bytes_trans[OF _ m(2)[OF s2]]) (auto simp: live_bytes_def same_bytes_def)
  moreover have "mem s1 (of_nat (p + i)) = mem s (of_nat (p + i))" if "i < min k n" for i
    using a(6) p L that by (fastforce simp: same_bytes_def live_bytes_def)
  moreover have "grows s s2" using m(3)[OF s2] a(7) by (simp add: grows_def)
  ultimately show ?thesis
    using m(1,4)[OF s2] a(4,5) L by (intro disjI2 exI[of _ q] exI[of _ j] exI[of _ s2]) auto
qed

interpretation ff_realloc_alloc: reallocator ff_ops ff_live request_ok
proof unfold_locales
  fix s :: ff and lo n p k :: nat and L
  assume "ff_live s lo L" and pn: "(p, k) \<in> L" "request_ok lo n"
  then obtain us where I: "ff_inv s lo us" "L = live_payloads lo us" by (auto simp: ff_live_def)
  show "op_realloc ff_ops (of_nat p) (of_nat n) s = Inl (Exits 1)
      \<or> (\<exists>q j s'. op_realloc ff_ops (of_nat p) (of_nat n) s = Inr (of_nat q, s')
         \<and> ff_live s' lo (insert (q, j) (L - {(p, k)})) \<and> (\<forall>i. (q, i) \<notin> L - {(p, k)}) \<and> n \<le> j
         \<and> same_bytes (mem s) (mem s') (live_bytes (L - {(p, k)})) \<and> grows s s'
         \<and> (\<forall>i < min k n. mem s' (of_nat (q + i)) = mem s (of_nat (p + i))))"
    using ff_live_realloc[OF I pn] by (simp add: ff_ops_def)
qed

end
