(* ===== verification/Ff_Props.thy ===== *)
theory Ff_Props
  imports Ff_Interface
begin

text \<open>
  The properties of the first fit allocator, and the concrete heap that the witnesses use.
\<close>

definition start_ff :: ff where
  "start_ff = \<lparr>mem = (\<lambda>_. 0), mem_start_brk = 4096, mem_brk = 4096, mem_max_addr = 20975616,
     mem_errno = 0, mem_stderr = [], ff_heap_listp = 0\<rparr>"

definition ff_heap_0 :: ff where "ff_heap_0 = snd (ff_init start_ff)"

lemma start_ff_arena: "arena start_ff 4096 0"
  by (simp add: arena_def start_ff_def heap_limit_def dvd_def)

lemma ff_heap_0_inv: "ff_inv ff_heap_0 4096 [(4096, False)]"
  using ff_init_refines(2)[OF start_ff_arena] by (simp add: ff_heap_0_def)

text \<open>C19. First fit in address order: \<open>mm_malloc\<close> of \<^verbatim>\<open>mm-firstfit.c\<close> takes the first free block of the
  heap that is large enough, splits it when at least 16 bytes remain, leaves a correct heap and changes
  no byte of another payload or outside the region.\<close>

theorem ff_malloc_first_fit:
  assumes "ff_inv s lo (xs @ (c, False) # ys)" "0 < n" "n + 15 < 2 ^ 32"
    and "too_small (block_need n) xs" "block_need n \<le> c"
  shows "\<exists>s'. ff_malloc (of_nat n) s = Inr (of_nat (lo + 16 + total xs), s')
    \<and> ff_inv s' lo (xs @ placed (block_need n) c @ ys)
    \<and> same_bytes (mem s) (mem s') (payloads lo (xs @ (c, False) # ys) \<union> not_region lo)"
  using ff_malloc_fit[OF assms] by (auto simp: ff_outcome_def)

theorem ff_malloc_first_fit_witness:
  "\<exists>s'. ff_malloc 100 ff_heap_0 = Inr (4112, s') \<and> ff_inv s' 4096 [(112, True), (3984, False)]"
  using ff_malloc_first_fit[of ff_heap_0 4096 "[]" 4096 "[]" 100] ff_heap_0_inv
  by (auto simp: too_small_def block_need_def placed_def)

text \<open>\<open>mm_free\<close> of \<^verbatim>\<open>mm-firstfit.c\<close> merges the block with its free neighbours, leaves a correct heap
  without adjacent free blocks and changes no byte of another payload or outside the region.\<close>

theorem ff_free_correct:
  assumes "ff_inv s lo (xs @ (n, True) # ys)" "p = lo + 16 + total xs" "coalesced xs n ys = (xs', n', ys')"
  shows "ff_inv (ff_free (of_nat p) s) lo (xs' @ (n', False) # ys')
    \<and> same_bytes (mem s) (mem (ff_free (of_nat p) s)) (payloads lo (xs' @ (n', False) # ys') \<union> not_region lo)"
  using ff_free_refines[OF assms] by blast

theorem ff_free_correct_witness:
  "\<exists>s. ff_malloc 100 ff_heap_0 = Inr (4112, s) \<and> ff_inv (ff_free 4112 s) 4096 [(4096, False)]"
proof -
  obtain s where s: "ff_malloc 100 ff_heap_0 = Inr (4112, s)" "ff_inv s 4096 [(112, True), (3984, False)]"
    using ff_malloc_fit[of ff_heap_0 4096 "[]" 4096 "[]" 100] ff_heap_0_inv
    by (auto simp: too_small_def block_need_def placed_def ff_outcome_def)
  from s ff_free_correct[of s 4096 "[]" 112 "[(3984, False)]" 4112 "[]" 4096 "[]"]
  show ?thesis by (auto simp: coalesced_def)
qed



end
