(* ===== verification/Driver.thy ===== *)
theory Driver
  imports Complex_Main Alloc_Interface C_Text
begin

text \<open>
  The malloc lab's driver \<^verbatim>\<open>malloclab-handout2/mdriver.c\<close>: the list of payload ranges with which it
  checks an allocator, and the runs of a trace that check correctness, measure utilization and
  are timed. It is linked with an allocator, the argument \<open>A\<close>. A pointer of the driver's own memory
  is not modelled: its lists and arrays are lists, whose records the C library's \<open>malloc\<close> is
  assumed to have room for.
\<close>

section \<open>Traces and the driver's state\<close>

text \<open>A request with its index and size; \<open>free\<close> has no size. The two fields of the header that nobody reads
  are \<open>None\<close> when the file has no number there.\<close>

datatype traceop = ALLOC int int | FREE int | REALLOC int int

record trace =
  sugg_heapsize :: "int option"
  num_ids :: int
  num_ops :: int
  trace_weight :: "int option"
  trace_ops :: "traceop list"

text \<open>The allocator's state, the ranges (first and last address) and the arrays of the trace with the
  pointers and the sizes (an element never written is \<open>None\<close>), the error count and the printed texts.\<close>

record 's driver =
  heap :: 's
  ranges :: "(u32 \<times> u32) list"
  blocks :: "u32 option list"
  block_sizes :: "u32 option list"
  errors :: nat
  out :: "string list"

definition ALIGNMENT :: u32 where "ALIGNMENT = 8"
definition LINENUM :: "int \<Rightarrow> int" where "LINENUM i = i + 5"

definition IS_ALIGNED :: "u32 \<Rightarrow> bool" where
  "IS_ALIGNED p \<longleftrightarrow> p mod ALIGNMENT = 0"

definition malloc_error :: "int \<Rightarrow> int \<Rightarrow> string \<Rightarrow> 's driver \<Rightarrow> 's driver" where
  "malloc_error tracenum opnum msg d = d\<lparr>errors := errors d + 1,
     out := out d @ [''ERROR [trace '' @ int_string tracenum @ '', line '' @ int_string (LINENUM opnum)
       @ '']: '' @ msg @ newline]\<rparr>"

text \<open>\<open>app_error\<close> and \<open>unix_error\<close> print their message and exit with status 1.\<close>

definition app_error :: "string \<Rightarrow> 's driver \<Rightarrow> c_stop + 'a" where
  "app_error msg d = Inl (Exits 1)"

definition unix_error :: "string \<Rightarrow> 's driver \<Rightarrow> c_stop + 'a" where
  "unix_error msg d = Inl (Exits 1)"

section \<open>The range list\<close>

definition range_text :: "u32 \<Rightarrow> u32 \<Rightarrow> string" where
  "range_text lo hi = ''('' @ pointer_text lo @ '':'' @ pointer_text hi @ '')''"

definition range_clash :: "u32 \<Rightarrow> u32 \<Rightarrow> u32 \<times> u32 \<Rightarrow> bool" where
  "range_clash lo hi r \<longleftrightarrow> (case r of (plo, phi) \<Rightarrow> (lo \<ge> plo \<and> lo \<le> phi) \<or> (hi \<ge> plo \<and> hi \<le> phi))"

definition add_range ::
    "u32 \<Rightarrow> int \<Rightarrow> int \<Rightarrow> int \<Rightarrow> ('x memsys_scheme) driver \<Rightarrow> c_stop + bool \<times> ('x memsys_scheme) driver" where
  "add_range lo sz tracenum opnum d =
     (let hi = lo + of_int sz - 1;
          hlo = mem_heap_lo (heap d);
          hhi = mem_heap_hi (heap d)
      in if \<not> sz > 0 then Inl (Aborts ''add_range'')
         else if \<not> IS_ALIGNED lo then
           Inr (False, malloc_error tracenum opnum (''Payload address ('' @ pointer_text lo @ '') not aligned to ''
             @ int_string (uint ALIGNMENT) @ '' bytes'') d)
         else if lo < hlo \<or> lo > hhi \<or> hi < hlo \<or> hi > hhi then
           Inr (False, malloc_error tracenum opnum (''Payload '' @ range_text lo hi @ '' lies outside heap ''
             @ range_text hlo hhi) d)
         else case find (range_clash lo hi) (ranges d) of
             Some (plo, phi) \<Rightarrow>
               Inr (False, malloc_error tracenum opnum (''Payload '' @ range_text lo hi @ '' overlaps another payload ''
                 @ range_text plo phi @ newline) d)
           | None \<Rightarrow> Inr (True, d\<lparr>ranges := (lo, hi) # ranges d\<rparr>))"

fun remove_first :: "u32 \<Rightarrow> (u32 \<times> u32) list \<Rightarrow> (u32 \<times> u32) list" where
  "remove_first lo [] = []"
| "remove_first lo ((plo, phi) # rs) = (if plo = lo then rs else (plo, phi) # remove_first lo rs)"

definition remove_range :: "u32 \<Rightarrow> 's driver \<Rightarrow> 's driver" where
  "remove_range lo d = d\<lparr>ranges := remove_first lo (ranges d)\<rparr>"

definition clear_ranges :: "'s driver \<Rightarrow> 's driver" where
  "clear_ranges d = d\<lparr>ranges := []\<rparr>"

section \<open>The arrays of the trace\<close>

definition get_at :: "'a option list \<Rightarrow> int \<Rightarrow> c_stop + 'a" where
  "get_at xs i =
     (if 0 \<le> i \<and> i < int (length xs) then
        case xs ! nat i of None \<Rightarrow> Inl (Undefined ''uninitialised'') | Some x \<Rightarrow> Inr x
      else Inl (Undefined ''array index''))"

definition set_block :: "int \<Rightarrow> u32 \<Rightarrow> 's driver \<Rightarrow> c_stop + 's driver" where
  "set_block i p d =
     (if 0 \<le> i \<and> i < int (length (blocks d)) then Inr (d\<lparr>blocks := (blocks d)[nat i := Some p]\<rparr>)
      else Inl (Undefined ''array index''))"

definition set_size :: "int \<Rightarrow> int \<Rightarrow> 's driver \<Rightarrow> c_stop + 's driver" where
  "set_size i sz d =
     (if 0 \<le> i \<and> i < int (length (block_sizes d))
      then Inr (d\<lparr>block_sizes := (block_sizes d)[nat i := Some (of_int sz)]\<rparr>)
      else Inl (Undefined ''array index''))"

definition remember :: "int \<Rightarrow> u32 \<Rightarrow> int \<Rightarrow> 's driver \<Rightarrow> c_stop + 's driver" where
  "remember i p sz d = (case set_block i p d of Inl e \<Rightarrow> Inl e | Inr d' \<Rightarrow> set_size i sz d')"

section \<open>Checking an allocator\<close>

text \<open>The byte that fills the payload of the block \<open>index\<close>.\<close>

definition fill :: "u32 \<Rightarrow> int \<Rightarrow> int \<Rightarrow> ('x memsys_scheme) driver \<Rightarrow> ('x memsys_scheme) driver" where
  "fill p index sz d =
     d\<lparr>heap := (heap d)\<lparr>mem := mem_set (mem (heap d)) p (of_int (index AND 255)) (of_int sz)\<rparr>\<rparr>"

text \<open>\<open>newp[j] != (index & 0xFF)\<close> compares a \<open>char\<close>, which is signed, with an \<open>int\<close>.\<close>

definition data_kept :: "memory \<Rightarrow> u32 \<Rightarrow> int \<Rightarrow> int \<Rightarrow> bool" where
  "data_kept m newp index oldsize \<longleftrightarrow>
     list_all (\<lambda>j. sint (m (newp + of_nat j)) = index AND 255) [0..<nat oldsize]"

text \<open>\<open>checked\<close> goes on where a check found no error.\<close>

definition checked :: "c_stop + bool \<times> 'd \<Rightarrow> ('d \<Rightarrow> c_stop + bool \<times> 'd) \<Rightarrow> c_stop + bool \<times> 'd" where
  "checked r k = (case r of Inl e \<Rightarrow> Inl e | Inr (ok, d) \<Rightarrow> if ok then k d else Inr (False, d))"

definition finished :: "c_stop + 'd \<Rightarrow> c_stop + bool \<times> 'd" where
  "finished r = (case r of Inl e \<Rightarrow> Inl e | Inr d \<Rightarrow> Inr (True, d))"

definition valid_alloc :: "('x memsys_scheme) alloc_ops \<Rightarrow> int \<Rightarrow> int \<Rightarrow> int \<Rightarrow> int \<Rightarrow> ('x memsys_scheme) driver
    \<Rightarrow> c_stop + bool \<times> ('x memsys_scheme) driver" where
  "valid_alloc A tracenum i index sz d =
     (case op_malloc A (of_int sz) (heap d) of
        Inl e \<Rightarrow> Inl e
      | Inr (p, h) \<Rightarrow>
          let d1 = d\<lparr>heap := h\<rparr>
          in if p = 0 then Inr (False, malloc_error tracenum i ''mm_malloc failed.'' d1)
             else checked (add_range p sz tracenum i d1) (\<lambda>d2. finished (remember index p sz (fill p index sz d2))))"

definition valid_realloc :: "('x memsys_scheme) alloc_ops \<Rightarrow> int \<Rightarrow> int \<Rightarrow> int \<Rightarrow> int \<Rightarrow> ('x memsys_scheme) driver
    \<Rightarrow> c_stop + bool \<times> ('x memsys_scheme) driver" where
  "valid_realloc A tracenum i index sz d =
     (case get_at (blocks d) index of Inl e \<Rightarrow> Inl e | Inr oldp \<Rightarrow>
      case op_realloc A oldp (of_int sz) (heap d) of
        Inl e \<Rightarrow> Inl e
      | Inr (newp, h) \<Rightarrow>
          let d1 = d\<lparr>heap := h\<rparr>
          in if newp = 0 then Inr (False, malloc_error tracenum i ''mm_realloc failed.'' d1)
             else checked (add_range newp sz tracenum i (remove_range oldp d1)) (\<lambda>d2.
               case get_at (block_sizes d2) index of Inl e \<Rightarrow> Inl e | Inr osz \<Rightarrow>
                 let oldsize = sint osz;
                     oldsize = (if sz < oldsize then sz else oldsize)
                 in if \<not> data_kept (mem (heap d2)) newp index oldsize then
                      Inr (False, malloc_error tracenum i
                        (''mm_realloc did not preserve the '' @ ''data from old block'') d2)
                    else finished (remember index newp sz (fill newp index sz d2))))"

definition valid_free :: "('x memsys_scheme) alloc_ops \<Rightarrow> int \<Rightarrow> ('x memsys_scheme) driver
    \<Rightarrow> c_stop + bool \<times> ('x memsys_scheme) driver" where
  "valid_free A index d =
     (case get_at (blocks d) index of
        Inl e \<Rightarrow> Inl e
      | Inr p \<Rightarrow> let d1 = remove_range p d in Inr (True, d1\<lparr>heap := op_free A p (heap d1)\<rparr>))"

text \<open>One request, and the loop of \<open>eval_mm_valid\<close> from the request number \<open>i\<close> on.\<close>

definition valid_op :: "('x memsys_scheme) alloc_ops \<Rightarrow> int \<Rightarrow> int \<Rightarrow> traceop \<Rightarrow> ('x memsys_scheme) driver
    \<Rightarrow> c_stop + bool \<times> ('x memsys_scheme) driver" where
  "valid_op A tracenum i r d =
     (case r of
         ALLOC index sz \<Rightarrow> valid_alloc A tracenum i index sz d
       | REALLOC index sz \<Rightarrow> valid_realloc A tracenum i index sz d
       | FREE index \<Rightarrow> valid_free A index d)"

fun valid_ops :: "('x memsys_scheme) alloc_ops \<Rightarrow> int \<Rightarrow> int \<Rightarrow> traceop list \<Rightarrow> ('x memsys_scheme) driver
    \<Rightarrow> c_stop + bool \<times> ('x memsys_scheme) driver" where
  "valid_ops A tracenum i [] d = Inr (True, d)"
| "valid_ops A tracenum i (r # rs) d = checked (valid_op A tracenum i r d) (valid_ops A tracenum (i + 1) rs)"

definition eval_mm_valid :: "('x memsys_scheme) alloc_ops \<Rightarrow> trace \<Rightarrow> int \<Rightarrow> ('x memsys_scheme) driver
    \<Rightarrow> c_stop + bool \<times> ('x memsys_scheme) driver" where
  "eval_mm_valid A trace tracenum d =
     (let d1 = clear_ranges (d\<lparr>heap := mem_reset_brk (heap d)\<rparr>);
          (r, h) = op_init A (heap d1);
          d2 = d1\<lparr>heap := h\<rparr>
      in if r < 0 then Inr (False, malloc_error tracenum 0 ''mm_init failed.'' d2)
         else valid_ops A tracenum 0 (trace_ops trace) d2)"

section \<open>Measuring the utilization\<close>

text \<open>\<open>int\<close> arithmetic that overflows is undefined.\<close>

definition int_ok :: "int \<Rightarrow> c_stop + int" where
  "int_ok x = (if - (2 ^ 31) \<le> x \<and> x < 2 ^ 31 then Inr x else Inl (Undefined ''int overflow''))"

text \<open>One request: the state and the total size of the live blocks after it.\<close>

definition util_op :: "'s alloc_ops \<Rightarrow> traceop \<Rightarrow> 's driver \<times> int \<Rightarrow> c_stop + 's driver \<times> int" where
  "util_op A r st =
     (let (d, total_size) = st in
      case r of
        ALLOC index sz \<Rightarrow>
          (case op_malloc A (of_int sz) (heap d) of Inl e \<Rightarrow> Inl e | Inr (p, h) \<Rightarrow>
             if p = 0 then app_error ''mm_malloc failed in eval_mm_util'' d
             else case remember index p sz (d\<lparr>heap := h\<rparr>) of Inl e \<Rightarrow> Inl e | Inr d' \<Rightarrow>
               case int_ok (total_size + sz) of Inl e \<Rightarrow> Inl e | Inr t \<Rightarrow> Inr (d', t))
      | REALLOC index newsize \<Rightarrow>
          (case get_at (block_sizes d) index of Inl e \<Rightarrow> Inl e | Inr oldsize \<Rightarrow>
           case get_at (blocks d) index of Inl e \<Rightarrow> Inl e | Inr oldp \<Rightarrow>
           case op_realloc A oldp (of_int newsize) (heap d) of Inl e \<Rightarrow> Inl e | Inr (newp, h) \<Rightarrow>
             if newp = 0 then app_error ''mm_realloc failed in eval_mm_util'' d
             else case remember index newp newsize (d\<lparr>heap := h\<rparr>) of Inl e \<Rightarrow> Inl e | Inr d' \<Rightarrow>
               case int_ok (newsize - sint oldsize) of Inl e \<Rightarrow> Inl e | Inr x \<Rightarrow>
               case int_ok (total_size + x) of Inl e \<Rightarrow> Inl e | Inr t \<Rightarrow> Inr (d', t))
      | FREE index \<Rightarrow>
          (case get_at (block_sizes d) index of Inl e \<Rightarrow> Inl e | Inr sz \<Rightarrow>
           case get_at (blocks d) index of Inl e \<Rightarrow> Inl e | Inr p \<Rightarrow>
           case int_ok (total_size - sint sz) of Inl e \<Rightarrow> Inl e | Inr t \<Rightarrow>
             Inr (d\<lparr>heap := op_free A p (heap d)\<rparr>, t)))"

text \<open>The loop with the high water mark; \<open>FREE\<close> leaves the mark alone, as its total is not larger.\<close>

fun util_ops :: "'s alloc_ops \<Rightarrow> traceop list \<Rightarrow> 's driver \<times> int \<Rightarrow> int \<Rightarrow> c_stop + 's driver \<times> int" where
  "util_ops A [] st max_total = Inr (fst st, max_total)"
| "util_ops A (r # rs) st max_total =
     (case util_op A r st of
        Inl e \<Rightarrow> Inl e
      | Inr st' \<Rightarrow> util_ops A rs st'
          (case r of FREE _ \<Rightarrow> max_total | _ \<Rightarrow> if snd st' > max_total then snd st' else max_total))"

text \<open>The result is the quotient of two numbers that a \<open>double\<close> represents exactly.\<close>

definition eval_mm_util :: "('x memsys_scheme) alloc_ops \<Rightarrow> trace \<Rightarrow> ('x memsys_scheme) driver
    \<Rightarrow> c_stop + rat \<times> ('x memsys_scheme) driver" where
  "eval_mm_util A trace d =
     (let (r, h) = op_init A (mem_reset_brk (heap d));
          d1 = d\<lparr>heap := h\<rparr>
      in if r < 0 then app_error ''mm_init failed in eval_mm_util'' d1
         else case util_ops A (trace_ops trace) (d1, 0) 0 of
             Inl e \<Rightarrow> Inl e
           | Inr (d2, max_total) \<Rightarrow> Inr (of_int max_total / of_int (uint (mem_heapsize (heap d2))), d2))"

section \<open>The runs that are timed\<close>

definition speed_op :: "(string \<Rightarrow> 's driver \<Rightarrow> c_stop + 's driver) \<Rightarrow> 's alloc_ops \<Rightarrow> traceop \<Rightarrow> 's driver
    \<Rightarrow> c_stop + 's driver" where
  "speed_op fail A r d =
     (case r of
        ALLOC index sz \<Rightarrow>
          (case op_malloc A (of_int sz) (heap d) of Inl e \<Rightarrow> Inl e | Inr (p, h) \<Rightarrow>
             if p = 0 then fail ''mm_malloc error in eval_mm_speed'' d else set_block index p (d\<lparr>heap := h\<rparr>))
      | REALLOC index newsize \<Rightarrow>
          (case get_at (blocks d) index of Inl e \<Rightarrow> Inl e | Inr oldp \<Rightarrow>
           case op_realloc A oldp (of_int newsize) (heap d) of Inl e \<Rightarrow> Inl e | Inr (newp, h) \<Rightarrow>
             if newp = 0 then fail ''mm_realloc error in eval_mm_speed'' d else set_block index newp (d\<lparr>heap := h\<rparr>))
      | FREE index \<Rightarrow>
          (case get_at (blocks d) index of Inl e \<Rightarrow> Inl e
           | Inr p \<Rightarrow> Inr (d\<lparr>heap := op_free A p (heap d)\<rparr>)))"

fun speed_ops :: "(string \<Rightarrow> 's driver \<Rightarrow> c_stop + 's driver) \<Rightarrow> 's alloc_ops \<Rightarrow> traceop list \<Rightarrow> 's driver
    \<Rightarrow> c_stop + 's driver" where
  "speed_ops fail A [] d = Inr d"
| "speed_ops fail A (r # rs) d =
     (case speed_op fail A r d of Inl e \<Rightarrow> Inl e | Inr d' \<Rightarrow> speed_ops fail A rs d')"

definition eval_mm_speed :: "('x memsys_scheme) alloc_ops \<Rightarrow> trace \<Rightarrow> ('x memsys_scheme) driver
    \<Rightarrow> c_stop + ('x memsys_scheme) driver" where
  "eval_mm_speed A trace d =
     (let (r, h) = op_init A (mem_reset_brk (heap d));
          d1 = d\<lparr>heap := h\<rparr>
      in if r < 0 then app_error ''mm_init failed in eval_mm_speed'' d1
         else speed_ops app_error A (trace_ops trace) d1)"

text \<open>The same requests for the allocator of the C library, whose state and functions are arguments.
  \<open>eval_libc_valid\<close> counts an error before it exits, \<open>eval_libc_speed\<close> is timed.\<close>

definition eval_libc_valid :: "'s alloc_ops \<Rightarrow> trace \<Rightarrow> 's driver \<Rightarrow> c_stop + bool \<times> 's driver" where
  "eval_libc_valid libc trace d = finished (speed_ops unix_error libc (trace_ops trace) d)"

definition eval_libc_speed :: "'s alloc_ops \<Rightarrow> trace \<Rightarrow> 's driver \<Rightarrow> c_stop + 's driver" where
  "eval_libc_speed libc trace d = speed_ops unix_error libc (trace_ops trace) d"

end
