(* ===== verification/Driver_Correct.thy ===== *)
theory Driver_Correct
  imports Driver
begin

text \<open>
  The driver against any allocator that keeps the contract. \<open>M\<close> is what the driver remembers of a
  trace: for each live index the payload's address, the size asked for and the usable size. The
  lemmas of the two locale contexts say that the checks of \<open>eval_mm_valid\<close> then never find an error
  other than the allocator's lack of memory, and they bound what \<open>eval_mm_util\<close> measures.
\<close>

section \<open>What the driver remembers\<close>

type_synonym table = "nat \<Rightarrow> (nat \<times> nat \<times> nat) option"

definition live_of :: "table \<Rightarrow> (nat \<times> nat) set" where
  "live_of M = {(p, k). \<exists>i n. M i = Some (p, n, k)}"

definition one_index :: "table \<Rightarrow> bool" where
  "one_index M \<longleftrightarrow> (\<forall>i j p n k n' k'. M i = Some (p, n, k) \<longrightarrow> M j = Some (p, n', k') \<longrightarrow> i = j)"

definition recorded :: "table \<Rightarrow> 's driver \<Rightarrow> bool" where
  "recorded M d \<longleftrightarrow> length (block_sizes d) = length (blocks d) \<and> one_index M
     \<and> (\<forall>i p n k. M i = Some (p, n, k) \<longrightarrow> i < length (blocks d) \<and> blocks d ! i = Some (of_nat p)
          \<and> block_sizes d ! i = Some (of_nat n) \<and> 0 < n \<and> n < 2 ^ 31 \<and> n \<le> k)"

definition range_of :: "nat \<times> nat \<times> nat \<Rightarrow> u32 \<times> u32" where
  "range_of e = (case e of (p, n, k) \<Rightarrow> (of_nat p, of_nat (p + n - 1)))"

definition ranged :: "table \<Rightarrow> (u32 \<times> u32) list \<Rightarrow> bool" where
  "ranged M rs \<longleftrightarrow> distinct (map fst rs) \<and> set rs = range_of ` ran M"

definition filled :: "table \<Rightarrow> memory \<Rightarrow> bool" where
  "filled M m \<longleftrightarrow> (\<forall>i p n k x. M i = Some (p, n, k) \<longrightarrow> x < n \<longrightarrow> m (of_nat (p + x)) = of_nat (i mod 256))"

lemma live_of_update:
  assumes "M i = None" shows "live_of (M(i \<mapsto> (p, n, k))) = insert (p, k) (live_of M)"
proof -
  have "j \<noteq> i" if "M j = Some e" for j e using assms that by auto
  then show ?thesis unfolding live_of_def by (auto split: if_splits) (metis (no_types) assms option.distinct(1))+
qed

lemma live_of_remove:
  assumes "M i = Some (p, n, k)" "one_index M" shows "live_of (M(i := None)) = live_of M - {(p, k)}"
proof -
  have "(q, l) \<noteq> (p, k)" if "M j = Some (q, m, l)" "j \<noteq> i" for j q m l
    using assms that unfolding one_index_def by blast
  then have 1: "live_of (M(i := None)) \<subseteq> live_of M - {(p, k)}"
    unfolding live_of_def by (auto split: if_splits)
  have 2: "live_of M - {(p, k)} \<subseteq> live_of (M(i := None))"
  proof
    fix x assume x: "x \<in> live_of M - {(p, k)}"
    then obtain q l j m where m: "x = (q, l)" "M j = Some (q, m, l)" by (auto simp: live_of_def)
    with x assms(1) have "j \<noteq> i" by auto
    with m have "(M(i := None)) j = Some (q, m, l)" by simp
    with m(1) show "x \<in> live_of (M(i := None))" unfolding live_of_def by blast
  qed
  from 1 2 show ?thesis ..
qed

lemma live_of_empty [simp]: "live_of (\<lambda>_. None) = {}"
  by (simp add: live_of_def)

lemma live_of_bytes:
  assumes "M i = Some (p, n, k)" "n \<le> k" "x < n" shows "p + x \<in> live_bytes (live_of M)"
  using assms by (force simp: live_bytes_def live_of_def)

lemma one_index_update:
  assumes "one_index M" "\<forall>j. (p, j) \<notin> live_of (M(i := None))" shows "one_index (M(i \<mapsto> (p, n, k)))"
  using assms unfolding one_index_def live_of_def by (auto split: if_splits)

lemma one_index_remove: "one_index M \<Longrightarrow> one_index (M(i := None))"
  unfolding one_index_def by auto

lemma recorded_remove: "recorded M d \<Longrightarrow> recorded (M(i := None)) d"
  by (auto simp: recorded_def one_index_remove)

lemma recordedD:
  assumes "recorded M d" "M i = Some (p, n, k)"
  shows "get_at (blocks d) (int i) = Inr (of_nat p)" "get_at (block_sizes d) (int i) = Inr (of_nat n)"
    "0 < n" "n < 2 ^ 31" "n \<le> k" "i < length (blocks d)"
  using assms by (auto simp: recorded_def get_at_def)

lemma recorded_remember:
  assumes "recorded M d" "i < length (blocks d)" "0 < n" "n < 2 ^ 31" "n \<le> k"
    and "\<forall>j. (p, j) \<notin> live_of (M(i := None))"
  shows "\<exists>d'. remember (int i) (of_nat p) (int n) d = Inr d' \<and> recorded (M(i \<mapsto> (p, n, k))) d'
    \<and> heap d' = heap d \<and> ranges d' = ranges d \<and> errors d' = errors d \<and> out d' = out d
    \<and> length (blocks d') = length (blocks d)"
  using assms one_index_update[OF _ assms(6), of n k]
  by (auto simp: recorded_def remember_def set_block_def set_size_def nth_list_update)

section \<open>The range list\<close>

lemma remove_first_set:
  assumes "distinct (map fst rs)" "(lo, hi) \<in> set rs"
  shows "set (remove_first lo rs) = set rs - {(lo, hi)}" "distinct (map fst (remove_first lo rs))"
proof -
  have s: "set (remove_first lo rs) \<subseteq> set rs" for rs
    by (induction rs rule: remove_first.induct[of _ lo]) auto
  show "set (remove_first lo rs) = set rs - {(lo, hi)}"
    using assms by (induction rs) (force split: if_splits)+
  show "distinct (map fst (remove_first lo rs))"
    using assms(1) s by (induction rs) (force split: if_splits)+
qed

lemma ranged_remove:
  assumes R: "ranged M rs" and M: "M i = Some (p, n, k)" "one_index M"
    and b: "\<And>j q m l. M j = Some (q, m, l) \<Longrightarrow> q < 2 ^ 32"
  shows "ranged (M(i := None)) (remove_first (of_nat p) rs)"
proof -
  let ?r = "(of_nat p, of_nat (p + n - 1)) :: u32 \<times> u32"
  have r: "?r \<in> set rs"
  proof -
    have "(p, n, k) \<in> ran M" using M(1) by (auto simp: ran_def)
    then show ?thesis using R by (force simp: ranged_def range_of_def)
  qed
  have "set rs - {?r} = range_of ` ran (M(i := None))"
  proof -
    have ne: "range_of (q, m, l) \<noteq> ?r" if "M j = Some (q, m, l)" "j \<noteq> i" for j q m l
    proof
      assume "range_of (q, m, l) = ?r"
      then have "q = p" using of_nat_eq_iff_u32[OF b[OF that(1)] b[OF M(1)]] by (simp add: range_of_def)
      with M that show False unfolding one_index_def by blast
    qed
    have "range_of ` ran M = insert ?r (range_of ` ran (M(i := None)))"
      using M(1) by (force simp: ran_def range_of_def)
    moreover have "?r \<notin> range_of ` ran (M(i := None))"
      using ne by (force simp: ran_def split: if_splits)
    ultimately show ?thesis using R by (simp add: ranged_def)
  qed
  with remove_first_set[OF _ r] R show ?thesis by (simp add: ranged_def)
qed

lemma ranged_insert:
  assumes R: "ranged M rs" and M: "M i = None" "\<forall>j. (p, j) \<notin> live_of M" "p < 2 ^ 32"
    and b: "\<And>j q m l. M j = Some (q, m, l) \<Longrightarrow> q < 2 ^ 32"
  shows "ranged (M(i \<mapsto> (p, n, k))) ((of_nat p, of_nat (p + n - 1)) # rs)"
proof -
  have "of_nat q \<noteq> (of_nat p :: u32)" if "M j = Some (q, m, l)" for j q m l
    using M(2) that of_nat_eq_iff_u32[OF b[OF that] M(3)] by (auto simp: live_of_def)
  then have "of_nat p \<notin> fst ` set rs"
    using R by (fastforce simp: ranged_def range_of_def ran_def)
  moreover have "ran (M(i \<mapsto> (p, n, k))) = insert (p, n, k) (ran M)" using M(1) by (rule ran_map_upd)
  ultimately show ?thesis using R by (auto simp: ranged_def range_of_def)
qed

lemma range_clash_of_nat:
  assumes "p + n \<le> q \<or> q + m \<le> p" "0 < n" "0 < m" "p + n < 2 ^ 32" "q + m < 2 ^ 32"
  shows "\<not> range_clash (of_nat p) (of_nat (p + n - 1)) (of_nat q, of_nat (q + m - 1))"
proof -
  obtain n' m' where s: "n = Suc n'" "m = Suc m'" using assms(2,3) by (cases n; cases m) auto
  have "(of_nat q \<le> (of_nat p :: u32)) = (q \<le> p)" "(of_nat p \<le> (of_nat (q + m') :: u32)) = (p \<le> q + m')"
    "(of_nat q \<le> (of_nat (p + n') :: u32)) = (q \<le> p + n')"
    "(of_nat (p + n') \<le> (of_nat (q + m') :: u32)) = (p + n' \<le> q + m')"
    using assms(4,5) s by (intro of_nat_le_iff_u32; simp)+
  moreover have "p + n - 1 = p + n'" "q + m - 1 = q + m'" using s by auto
  moreover have "\<not> ((q \<le> p \<and> p \<le> q + m') \<or> (q \<le> p + n' \<and> p + n' \<le> q + m'))"
    using assms(1) s by auto
  ultimately show ?thesis unfolding range_clash_def prod.case by metis
qed

text \<open>The byte that the driver writes.\<close>

lemma fill_byte: "of_int (int i AND 255) = (of_nat (i mod 256) :: u8)"
proof -
  have "int i AND 255 = int i AND mask 8" by (simp add: mask_eq_exp_minus_1)
  also have "\<dots> = int (i mod 256)" by (simp add: take_bit_eq_mod zmod_int flip: take_bit_eq_mask)
  finally show ?thesis by simp
qed

lemma filled_same:
  assumes "filled M m" "same_bytes m m' (live_bytes (live_of M))" "recorded M d" shows "filled M m'"
  unfolding filled_def
proof (intro allI impI)
  fix i p n k x assume e: "M i = Some (p, n, k)" "x < n"
  have "p + x \<in> live_bytes (live_of M)" using recordedD(5)[OF assms(3) e(1)] e by (intro live_of_bytes)
  then have "m' (of_nat (p + x)) = m (of_nat (p + x))" using assms(2) by (simp only: same_bytes_def)
  also have "\<dots> = of_nat (i mod 256)" using assms(1) e unfolding filled_def by blast
  finally show "m' (of_nat (p + x)) = of_nat (i mod 256)" .
qed

lemma filled_remove:
  assumes "filled M m" shows "filled (M(i := None)) m"
  unfolding filled_def
proof (intro allI impI)
  fix j p n k x assume "(M(i := None)) j = Some (p, n, k)" "x < n"
  then have "M j = Some (p, n, k)" by (auto split: if_splits)
  with \<open>x < n\<close> show "m (of_nat (p + x)) = of_nat (j mod 256)" using assms unfolding filled_def by blast
qed

lemma filled_fill:
  assumes F: "filled M m" and b: "p + n \<le> 2 ^ 32" "p < 2 ^ 32" "n < 2 ^ 32"
    and ap: "\<And>j q l w. M j = Some (q, l, w) \<Longrightarrow> j \<noteq> i \<Longrightarrow> q + l \<le> 2 ^ 32 \<and> (q + l \<le> p \<or> p + n \<le> q)"
  shows "filled (M(i \<mapsto> (p, n, k))) (mem_set m (of_nat p) (of_int (int i AND 255)) (of_nat n))"
  unfolding filled_def
proof (intro allI impI)
  fix j q l w x assume M: "(M(i \<mapsto> (p, n, k))) j = Some (q, l, w)" "x < l"
  let ?m = "mem_set m (of_nat p) (of_int (int i AND 255)) (of_nat n)"
  show "?m (of_nat (q + x)) = of_nat (j mod 256)"
  proof (cases "j = i")
    case True
    then have e: "q = p" "l = n" using M(1) by simp_all
    have "?m (of_nat (p + x)) = of_int (int i AND 255)" by (rule mem_set_at[OF b]) (use M(2) e in simp)
    then show ?thesis unfolding e True by (simp only: fill_byte)
  next
    case False
    with M have e: "M j = Some (q, l, w)" by simp
    have "q + x < 2 ^ 32" "q + x \<notin> {p..<p + n}" using ap[OF e False] M(2) by auto
    then have "?m (of_nat (q + x)) = m (of_nat (q + x))"
      using changes_mem_set[OF b, of m "of_int (int i AND 255)"] unfolding changes_def by blast
    also have "\<dots> = of_nat (j mod 256)" using F e M(2) unfolding filled_def by blast
    finally show ?thesis .
  qed
qed

section \<open>The checks accept what the contract promises\<close>

definition driven :: "('x memsys_scheme \<Rightarrow> nat \<Rightarrow> (nat \<times> nat) set \<Rightarrow> bool) \<Rightarrow> nat \<Rightarrow> table
    \<Rightarrow> ('x memsys_scheme) driver \<Rightarrow> bool" where
  "driven J lo M d \<longleftrightarrow> J (heap d) lo (live_of M) \<and> recorded M d \<and> ranged M (ranges d)
     \<and> filled M (mem (heap d))"

lemma drivenD:
  assumes "driven J lo M d"
  shows "J (heap d) lo (live_of M)" "recorded M d" "ranged M (ranges d)" "filled M (mem (heap d))"
  using assms by (auto simp: driven_def)

text \<open>What the driver's run keeps besides: no error is counted and nothing is printed.\<close>

definition quiet :: "'s driver \<Rightarrow> 's driver \<Rightarrow> bool" where
  "quiet d d' \<longleftrightarrow> errors d' = errors d \<and> out d' = out d \<and> length (blocks d') = length (blocks d)"

text \<open>What a run needs of the driver: the memory region, and arrays of one length.\<close>

definition ready :: "nat \<Rightarrow> ('x memsys_scheme) driver \<Rightarrow> bool" where
  "ready lo d \<longleftrightarrow> (\<exists>u. arena (heap d) lo u) \<and> length (block_sizes d) = length (blocks d)"

text \<open>The driver linked with an allocator, and with one whose \<open>mm_realloc\<close> keeps the contract.\<close>

locale driver_client = allocator ops inv request
  for ops :: "('x memsys_scheme) alloc_ops" and inv and request
begin

lemma live_bounds:
  assumes "inv h lo L" "(p, k) \<in> L"
  shows "0 < p" "p + k < 2 ^ 32" "p < 2 ^ 32" "(of_nat p :: u32) \<noteq> 0"
proof -
  obtain u where a: "arena h lo u" using inv_arena[OF assms(1)] by blast
  have "unat (mem_heap_lo h) = lo" using arenaD(3,5)[OF a] by (simp add: mem_heap_lo_def unat_of_nat_u32)
  with inv_live[OF assms] arenaD(1)[OF a] unat_less_u32[of "mem_heap_hi h"]
  show p: "0 < p" "p + k < 2 ^ 32" "p < 2 ^ 32" by auto
  then show "(of_nat p :: u32) \<noteq> 0" using of_nat_eq_0_iff_u32[of p] by simp
qed

lemma add_range_accepts:
  assumes I: "inv (heap d) lo (insert (p, k) (live_of M))" and R: "ranged M (ranges d)" "recorded M d'"
    and p: "\<forall>j. (p, j) \<notin> live_of M" and n: "0 < n" "n \<le> k" "n < 2 ^ 31"
  shows "add_range (of_nat p) (int n) t i d
    = Inr (True, d\<lparr>ranges := (of_nat p, of_nat (p + n - 1)) # ranges d\<rparr>)"
proof -
  note b = live_bounds[OF I insertI1] and l = inv_live[OF I insertI1]
  have hi: "of_nat p + of_int (int n) - 1 = (of_nat (p + n - 1) :: u32)"
    using of_nat_sub_u32[of 1 "p + n"] n(1) by (simp only: of_int_of_nat_eq of_nat_add_u32 of_nat_1)
  have u: "unat (of_nat p :: u32) = p" "unat (of_nat (p + n - 1) :: u32) = p + n - 1"
    using b(2,3) n(2) by (intro unat_of_nat_u32; linarith)+
  have in_heap: "\<not> (of_nat p < mem_heap_lo (heap d) \<or> of_nat p > mem_heap_hi (heap d)
      \<or> of_nat (p + n - 1) < mem_heap_lo (heap d) \<or> of_nat (p + n - 1) > mem_heap_hi (heap d))"
    unfolding word_less_nat_alt u using l n by auto
  have "\<not> range_clash (of_nat p) (of_nat (p + n - 1)) r" if r: "r \<in> set (ranges d)" for r
  proof -
    obtain j q m w where e: "M j = Some (q, m, w)" "r = (of_nat q, of_nat (q + m - 1))"
      using r R(1) by (auto simp: ranged_def range_of_def ran_def)
    have L: "(q, w) \<in> insert (p, k) (live_of M)" using e(1) by (auto simp: live_of_def)
    have "q \<noteq> p" using p e(1) by (auto simp: live_of_def)
    then have "p + n \<le> q \<or> q + m \<le> p"
      using inv_apart[OF I insertI1 L] recordedD(5)[OF R(2) e(1)] n(2) by auto
    then show ?thesis
      using live_bounds(2)[OF I L] recordedD(3,5)[OF R(2) e(1)] b n unfolding e(2)
      by (intro range_clash_of_nat) auto
  qed
  then have "find (range_clash (of_nat p) (of_nat (p + n - 1))) (ranges d) = None"
    by (auto simp: find_None_iff)
  moreover have "IS_ALIGNED (of_nat p)"
    using word_mod_8[OF b(3)] l by (simp add: IS_ALIGNED_def ALIGNMENT_def)
  moreover have "\<not> \<not> 0 < int n" using n(1) by simp
  ultimately show ?thesis
    unfolding add_range_def hi Let_def using in_heap by (simp only: if_False if_True option.case simp_thms)
qed

text \<open>The end of an accepted \<open>mm_malloc\<close> or \<open>mm_realloc\<close>: the new payload is filled and recorded.\<close>

lemma fill_and_remember:
  assumes I: "inv (heap d) lo (insert (p, k) (live_of M))" and R: "ranged M (ranges d)" "recorded M d"
    and F: "filled M (mem (heap d))" and M: "M i = None" "i < length (blocks d)"
    and p: "\<forall>j. (p, j) \<notin> live_of M" and n: "0 < n" "n \<le> k" "n < 2 ^ 31"
    and d': "d' = fill (of_nat p) (int i) (int n) (d\<lparr>ranges := (of_nat p, of_nat (p + n - 1)) # ranges d\<rparr>)"
  shows "\<exists>d''. remember (int i) (of_nat p) (int n) d' = Inr d'' \<and> driven inv lo (M(i \<mapsto> (p, n, k))) d'' \<and> quiet d d''"
proof -
  note b = live_bounds[OF I insertI1]
  let ?m = "mem_set (mem (heap d)) (of_nat p) (of_int (int i AND 255)) (of_nat n)"
  have h: "heap d' = (heap d)\<lparr>mem := ?m\<rparr>" "ranges d' = (of_nat p, of_nat (p + n - 1)) # ranges d"
    and o: "errors d' = errors d" "out d' = out d" "blocks d' = blocks d" "block_sizes d' = block_sizes d"
    by (simp_all add: d' fill_def)
  have e: "M(i := None) = M" using M(1) by auto
  have "recorded M d'" using R(2) o by (simp add: recorded_def)
  then obtain d'' where d'': "remember (int i) (of_nat p) (int n) d' = Inr d''" "recorded (M(i \<mapsto> (p, n, k))) d''"
    "heap d'' = heap d'" "ranges d'' = ranges d'" "quiet d d''"
    using recorded_remember[of M d' i n k p] M(2) n p e o by (auto simp: quiet_def)
  have "changes (mem (heap d)) ?m {p..<p + k}"
    using changes_mem_set[of p n] b n by (intro changes_mono[OF changes_mem_set]) auto
  then have "inv (heap d'') lo (live_of (M(i \<mapsto> (p, n, k))))"
    using write_inv[OF I insertI1] live_of_update[of M i p n k] M(1) d''(3) h by simp
  moreover have "filled (M(i \<mapsto> (p, n, k))) (mem (heap d''))"
  proof -
    have "filled (M(i \<mapsto> (p, n, k))) ?m"
    proof (rule filled_fill[OF F])
      fix j q l w assume q: "M j = Some (q, l, w)"
      then have L: "(q, w) \<in> insert (p, k) (live_of M)" by (auto simp: live_of_def)
      have "q \<noteq> p" using p q by (auto simp: live_of_def)
      then show "q + l \<le> 2 ^ 32 \<and> (q + l \<le> p \<or> p + n \<le> q)"
        using inv_apart[OF I insertI1 L] live_bounds(2)[OF I L] recordedD(5)[OF R(2) q] n(2) by auto
    qed (use b n in auto)
    then show ?thesis using d''(3) h by simp
  qed
  moreover have "ranged (M(i \<mapsto> (p, n, k))) (ranges d'')"
  proof -
    have "q < 2 ^ 32" if "M j = Some (q, m, l)" for j q m l
      using live_bounds(3)[OF I, of q l] that by (auto simp: live_of_def)
    then show ?thesis unfolding d''(4) h(2) by (rule ranged_insert[OF R(1) M(1) p b(3)])
  qed
  ultimately show ?thesis using d'' by (auto simp: driven_def)
qed

lemma driven_ready: "driven inv lo M d \<Longrightarrow> ready lo d"
  using inv_arena drivenD(1,2) unfolding ready_def recorded_def by blast

lemma valid_alloc_step:
  assumes D: "driven inv lo M d" and M: "M i = None" "i < length (blocks d)"
    and n: "0 < n" "n < 2 ^ 31" "request lo n"
  shows "(\<exists>p k d'. valid_alloc ops t j (int i) (int n) d = Inr (True, d')
      \<and> driven inv lo (M(i \<mapsto> (p, n, k))) d' \<and> quiet d d')
    \<or> (\<exists>d'. valid_alloc ops t j (int i) (int n) d = Inr (False, malloc_error t j ''mm_malloc failed.'' d')
      \<and> quiet d d' \<and> ready lo d')"
  using malloc_inv[OF drivenD(1)[OF D] n(3)]
proof (elim disjE exE conjE)
  fix h assume h: "op_malloc ops (of_nat n) (heap d) = Inr (0, h)" "inv h lo (live_of M)"
  then have "ready lo (d\<lparr>heap := h\<rparr>)"
    using drivenD(2)[OF D] inv_arena[OF h(2)] by (simp add: ready_def recorded_def)
  then show ?thesis using h(1) by (intro disjI2 exI[of _ "d\<lparr>heap := h\<rparr>"]) (simp add: valid_alloc_def quiet_def)
next
  fix p k h
  assume a: "op_malloc ops (of_nat n) (heap d) = Inr (of_nat p, h)" "inv h lo (insert (p, k) (live_of M))"
    "\<forall>j. (p, j) \<notin> live_of M" "n \<le> k" "same_bytes (mem (heap d)) (mem h) (live_bytes (live_of M))"
  note v = drivenD[OF D]
  let ?d = "d\<lparr>heap := h\<rparr>"
  have R: "inv (heap ?d) lo (insert (p, k) (live_of M))" "ranged M (ranges ?d)" "recorded M ?d" "filled M (mem (heap ?d))"
    using a v filled_same[OF v(4) a(5) v(2)] by (simp_all add: recorded_def)
  have M2: "i < length (blocks ?d)" using M(2) by simp
  note ar = add_range_accepts[OF R(1-3) a(3) n(1) a(4) n(2), of t j]
  from fill_and_remember[OF R M(1) M2 a(3) n(1) a(4) n(2) refl] obtain d'' where
    "remember (int i) (of_nat p) (int n) (fill (of_nat p) (int i) (int n)
        (?d\<lparr>ranges := (of_nat p, of_nat (p + n - 1)) # ranges ?d\<rparr>)) = Inr d''"
    "driven inv lo (M(i \<mapsto> (p, n, k))) d''" "quiet ?d d''" by blast
  then show ?thesis
    using a(1) ar live_bounds(4)[OF a(2) insertI1]
    by (intro disjI1 exI[of _ p] exI[of _ k] exI[of _ d''])
      (simp add: valid_alloc_def Let_def checked_def finished_def quiet_def)
qed

lemma valid_free_step:
  assumes D: "driven inv lo M d" and M: "M i = Some (p, n, k)"
  shows "\<exists>d'. valid_free ops (int i) d = Inr (True, d') \<and> driven inv lo (M(i := None)) d' \<and> quiet d d'"
proof -
  note v = drivenD[OF D] and r = recordedD[OF drivenD(2)[OF D] M]
  have one: "one_index M" using v(2) by (simp add: recorded_def)
  have L: "(p, k) \<in> live_of M" using M by (auto simp: live_of_def)
  let ?d = "(remove_range (of_nat p) d)\<lparr>heap := op_free ops (of_nat p) (heap d)\<rparr>"
  note f = free_inv[OF v(1) L]
  have e: "live_of (M(i := None)) = live_of M - {(p, k)}" by (rule live_of_remove[OF M one])
  have rec: "recorded (M(i := None)) d" by (rule recorded_remove[OF v(2)])
  have "driven inv lo (M(i := None)) ?d"
    unfolding driven_def
  proof (intro conjI)
    show "inv (heap ?d) lo (live_of (M(i := None)))" using f e by simp
    show "recorded (M(i := None)) ?d" using rec by (simp add: recorded_def remove_range_def)
    have "q < 2 ^ 32" if "M j = Some (q, m, l)" for j q m l
      using live_bounds(3)[OF v(1), of q l] that by (auto simp: live_of_def)
    then show "ranged (M(i := None)) (ranges ?d)"
      using ranged_remove[OF v(3) M one] by (simp add: remove_range_def)
    have "same_bytes (mem (heap d)) (mem (heap ?d)) (live_bytes (live_of (M(i := None))))" using f e by simp
    then show "filled (M(i := None)) (mem (heap ?d))" by (rule filled_same[OF filled_remove[OF v(4)] _ rec])
  qed
  moreover have "quiet d ?d" by (simp add: quiet_def remove_range_def)
  moreover have "valid_free ops (int i) d = Inr (True, ?d)" using r(1) by (simp add: valid_free_def Let_def remove_range_def)
  ultimately show ?thesis by blast
qed

end

text \<open>A byte read as a signed \<open>char\<close>.\<close>

lemma sint_of_nat_u8:
  assumes "n < 256" shows "sint (of_nat n :: u8) = (if n < 128 then int n else int n - 256)"
proof -
  have "sint (of_nat n :: u8) = signed_take_bit 7 (int n)"
    by (simp add: signed_of_nat)
  also have "\<dots> = (int n + 128) mod 256 - 128"
    by (simp add: signed_take_bit_eq_take_bit_shift take_bit_eq_mod)
  also have "\<dots> = (if n < 128 then int n else int n - 256)"
  proof (cases "n < 128")
    case False
    have "(int n + 128) mod 256 = (int n + 128 - 256) mod 256" by (rule minus_mod_self2 [symmetric])
    also have "\<dots> = int n + 128 - 256" using assms False by (intro mod_pos_pos_trivial) auto
    finally show ?thesis using False by simp
  qed simp
  finally show ?thesis .
qed

lemma low_byte: "int i AND 255 = int (i mod 256)"
proof -
  have "int i AND 255 = int i AND mask 8" by (simp add: mask_eq_exp_minus_1)
  also have "\<dots> = int (i mod 256)" by (simp add: take_bit_eq_mod zmod_int flip: take_bit_eq_mask)
  finally show ?thesis .
qed

lemma data_kept_iff:
  assumes "\<forall>x < n. m (of_nat (q + x)) = of_nat (i mod 256)" "0 < n"
  shows "data_kept m (of_nat q) (int i) (int n) \<longleftrightarrow> i mod 256 < 128"
proof -
  have "sint (m (of_nat q + of_nat x)) = int i AND 255 \<longleftrightarrow> i mod 256 < 128" if "x < n" for x
  proof -
    have "sint (m (of_nat q + of_nat x)) = sint (of_nat (i mod 256) :: u8)"
      using assms(1) that by (simp only: of_nat_add_u32)
    also have "\<dots> = (if i mod 256 < 128 then int (i mod 256) else int (i mod 256) - 256)"
      by (rule sint_of_nat_u8) simp
    finally show ?thesis unfolding low_byte by (simp only: split: if_split) linarith
  qed
  then have "data_kept m (of_nat q) (int i) (int n) \<longleftrightarrow> (\<forall>x \<in> set [0..<n]. i mod 256 < 128)"
    unfolding data_kept_def list_all_iff nat_int by (intro ball_cong refl) (simp only: set_upt atLeastLessThan_iff)
  then show ?thesis using assms(2) by auto
qed

locale realloc_client = driver_client ops inv request + reallocator ops inv request
  for ops :: "('x memsys_scheme) alloc_ops" and inv and request
begin

lemma valid_realloc_step:
  assumes D: "driven inv lo M d" and M: "M i = Some (p, n0, k)"
    and n: "0 < n" "n < 2 ^ 31" "request lo n"
  shows "valid_realloc ops t x (int i) (int n) d = Inl (Exits 1)
    \<or> (i mod 256 < 128 \<and> (\<exists>q j d'. valid_realloc ops t x (int i) (int n) d = Inr (True, d')
        \<and> driven inv lo (M(i \<mapsto> (q, n, j))) d' \<and> quiet d d'))
    \<or> (128 \<le> i mod 256 \<and> (\<exists>d'. valid_realloc ops t x (int i) (int n) d = Inr (False, malloc_error t x
        (''mm_realloc did not preserve the '' @ ''data from old block'') d') \<and> quiet d d'))"
proof -
  note v = drivenD[OF D] and r = recordedD[OF drivenD(2)[OF D] M]
  have one: "one_index M" using v(2) by (simp add: recorded_def)
  have L: "(p, k) \<in> live_of M" using M by (auto simp: live_of_def)
  let ?M = "M(i := None)"
  have e: "live_of ?M = live_of M - {(p, k)}" by (rule live_of_remove[OF M one])
  from realloc_inv[OF v(1) L n(3), folded e] show ?thesis
  proof (elim disjE exE conjE)
    assume "op_realloc ops (of_nat p) (of_nat n) (heap d) = Inl (Exits 1)"
    then show ?thesis using r(1) by (simp add: valid_realloc_def)
  next
    fix q j h
    assume a: "op_realloc ops (of_nat p) (of_nat n) (heap d) = Inr (of_nat q, h)" "inv h lo (insert (q, j) (live_of ?M))"
      "\<forall>l. (q, l) \<notin> live_of ?M" "n \<le> j" "same_bytes (mem (heap d)) (mem h) (live_bytes (live_of ?M))"
      "\<forall>y<min k n. mem h (of_nat (q + y)) = mem (heap d) (of_nat (p + y))"
    let ?d = "remove_range (of_nat p) (d\<lparr>heap := h\<rparr>)"
    have rec: "recorded ?M d" by (rule recorded_remove[OF v(2)])
    have R: "inv (heap ?d) lo (insert (q, j) (live_of ?M))" "recorded ?M ?d" "filled ?M (mem (heap ?d))"
      using a(2) rec filled_same[OF filled_remove[OF v(4)] a(5) rec]
      by (simp_all add: recorded_def remove_range_def)
    have "q < 2 ^ 32" if "M j = Some (q, m, l)" for j q m l
      using live_bounds(3)[OF v(1), of q l] that by (auto simp: live_of_def)
    then have R2: "ranged ?M (ranges ?d)"
      using ranged_remove[OF v(3) M one] by (simp add: remove_range_def)
    have Mi: "?M i = None" "i < length (blocks ?d)" using r(6) by (simp_all add: remove_range_def)
    note ar = add_range_accepts[OF R(1) R2 R(2) a(3) n(1) a(4) n(2), of t x]
    let ?d2 = "?d\<lparr>ranges := (of_nat q, of_nat (q + n - 1)) # ranges ?d\<rparr>"
    have sz: "get_at (block_sizes ?d2) (int i) = Inr (of_nat n0)" using r(2) by (simp add: remove_range_def)
    have old: "(if int n < sint (of_nat n0 :: u32) then int n else sint (of_nat n0 :: u32)) = int (min n n0)"
      using r(4) by (simp add: sint_of_nat_u32)
    have h2: "heap ?d2 = h" by (simp add: remove_range_def)
    have kept: "data_kept (mem (heap ?d2)) (of_nat q) (int i) (int (min n n0)) \<longleftrightarrow> i mod 256 < 128"
    proof (rule data_kept_iff)
      show "\<forall>y<min n n0. mem (heap ?d2) (of_nat (q + y)) = of_nat (i mod 256)"
      proof (intro allI impI)
        fix y assume y: "y < min n n0"
        then have "y < min k n" using r(5) by linarith
        then have "mem h (of_nat (q + y)) = mem (heap d) (of_nat (p + y))" using a(6) by blast
        moreover have "y < n0" using y by simp
        ultimately show "mem (heap ?d2) (of_nat (q + y)) = of_nat (i mod 256)"
          using v(4) M unfolding filled_def h2 by metis
      qed
    qed (use n(1) r(3) in simp)
    have nz: "(of_nat q :: u32) \<noteq> 0" by (rule live_bounds(4)[OF a(2) insertI1])
    have step: "valid_realloc ops t x (int i) (int n) d
      = (if \<not> i mod 256 < 128 then Inr (False, malloc_error t x
            (''mm_realloc did not preserve the '' @ ''data from old block'') ?d2)
         else finished (remember (int i) (of_nat q) (int n) (fill (of_nat q) (int i) (int n) ?d2)))"
      using r(1) a(1) nz ar sz kept
      by (simp add: valid_realloc_def Let_def checked_def old del: min_def)
    show ?thesis
    proof (cases "i mod 256 < 128")
      case True
      from fill_and_remember[OF R(1) R2 R(2,3) Mi a(3) n(1) a(4) n(2) refl] obtain d'' where
        "remember (int i) (of_nat q) (int n) (fill (of_nat q) (int i) (int n) ?d2) = Inr d''"
        "driven inv lo (?M(i \<mapsto> (q, n, j))) d''" "quiet ?d d''" by blast
      with step True show ?thesis
        by (intro disjI2 disjI1 conjI exI[of _ q] exI[of _ j] exI[of _ d''])
          (simp_all add: finished_def quiet_def remove_range_def)
    next
      case False
      with step show ?thesis
        by (intro disjI2 conjI exI[of _ ?d2]) (simp_all add: quiet_def remove_range_def)
    qed
  qed
qed

end

end
