(* ===== verification/Driver_Runs.thy ===== *)
theory Driver_Runs
  imports Driver_Correct
begin

text \<open>
  Whole runs of \<open>eval_mm_valid\<close>: on a trace whose requests make sense, the driver accepts an allocator
  that keeps the contract, or reports that it ran out of memory; nothing else.
\<close>

text \<open>Traces that allocate indices that are free, and free and reallocate those that are live; \<open>req\<close>
  are the sizes the allocator covers.\<close>

fun trace_ok :: "(nat \<Rightarrow> bool) \<Rightarrow> nat \<Rightarrow> nat set \<Rightarrow> traceop list \<Rightarrow> bool" where
  "trace_ok req N S [] \<longleftrightarrow> True"
| "trace_ok req N S (ALLOC i n # rs) \<longleftrightarrow> 0 \<le> i \<and> i < int N \<and> nat i \<notin> S
     \<and> 0 < n \<and> n < 2 ^ 31 \<and> req (nat n) \<and> trace_ok req N (insert (nat i) S) rs"
| "trace_ok req N S (FREE i # rs) \<longleftrightarrow> 0 \<le> i \<and> nat i \<in> S \<and> trace_ok req N (S - {nat i}) rs"
| "trace_ok req N S (REALLOC i n # rs) \<longleftrightarrow> 0 \<le> i \<and> nat i \<in> S
     \<and> 0 < n \<and> n < 2 ^ 31 \<and> req (nat n) \<and> trace_ok req N S rs"

text \<open>\<open>low_ids b rs\<close>: the indices of the \<open>REALLOC\<close> requests have a low byte below \<open>b\<close>; for \<open>b = 0\<close> there
  are none.\<close>

definition low_ids :: "nat \<Rightarrow> traceop list \<Rightarrow> bool" where
  "low_ids b rs \<longleftrightarrow> list_all (\<lambda>r. case r of REALLOC i _ \<Rightarrow> nat i mod 256 < b | _ \<Rightarrow> True) rs"

text \<open>The run found no error, or exactly one: that there was no memory for a request.\<close>

definition accepted :: "nat \<Rightarrow> int \<Rightarrow> ('x memsys_scheme) driver \<Rightarrow> c_stop + bool \<times> ('x memsys_scheme) driver \<Rightarrow> bool" where
  "accepted lo t d r \<longleftrightarrow> (\<exists>d'. r = Inr (True, d') \<and> quiet d d' \<and> ready lo d')
     \<or> (\<exists>x d'. r = Inr (False, malloc_error t x ''mm_malloc failed.'' d') \<and> quiet d d' \<and> ready lo d')"

lemma quiet_trans: "quiet d d' \<Longrightarrow> quiet d' d'' \<Longrightarrow> quiet d d''"
  by (simp add: quiet_def)

lemma accepted_trans: "quiet d d' \<Longrightarrow> accepted lo t d' r \<Longrightarrow> accepted lo t d r"
  unfolding accepted_def using quiet_trans by blast

lemma low_ids_Cons:
  "low_ids b (r # rs) \<longleftrightarrow> (case r of REALLOC i _ \<Rightarrow> nat i mod 256 < b | _ \<Rightarrow> True) \<and> low_ids b rs"
  by (simp add: low_ids_def)

text \<open>The live indices after a request.\<close>

definition trace_after :: "nat set \<Rightarrow> traceop \<Rightarrow> nat set" where
  "trace_after S r = (case r of ALLOC i _ \<Rightarrow> insert (nat i) S | FREE i \<Rightarrow> S - {nat i} | REALLOC _ _ \<Rightarrow> S)"

lemma trace_ok_after: "trace_ok req N S (r # rs) \<Longrightarrow> trace_ok req N (trace_after S r) rs"
  by (cases r) (simp_all add: trace_after_def)

lemma driven_start:
  assumes "J (heap d) lo {}" "ranges d = []" "length (block_sizes d) = length (blocks d)"
  shows "driven J lo (\<lambda>_. None) d"
proof -
  have "filled (\<lambda>_. None) (mem (heap d))" unfolding filled_def by blast
  moreover have "recorded (\<lambda>_. None) d" using assms(3) by (simp add: recorded_def one_index_def)
  moreover have "ranged (\<lambda>_. None) (ranges d)" using assms(2) by (simp add: ranged_def)
  ultimately show ?thesis using assms(1) by (simp add: driven_def)
qed

lemma dom_update: "dom (M(i \<mapsto> e)) = insert i (dom M)" "dom (M(i := None)) = dom M - {i}"
  by simp_all

context driver_client
begin

text \<open>After a request that is not a \<open>REALLOC\<close> the run goes on with the table it had, updated at one
  index, or ends for want of memory.\<close>

definition goes_on :: "nat \<Rightarrow> nat set \<Rightarrow> ('x memsys_scheme) driver \<Rightarrow> c_stop + bool \<times> ('x memsys_scheme) driver \<Rightarrow> bool" where
  "goes_on lo S d q \<longleftrightarrow> (\<exists>M' d'. q = Inr (True, d') \<and> driven inv lo M' d' \<and> quiet d d' \<and> dom M' = S)"

definition no_memory :: "nat \<Rightarrow> int \<Rightarrow> int \<Rightarrow> ('x memsys_scheme) driver \<Rightarrow> c_stop + bool \<times> ('x memsys_scheme) driver \<Rightarrow> bool" where
  "no_memory lo t x d q \<longleftrightarrow>
     (\<exists>d'. q = Inr (False, malloc_error t x ''mm_malloc failed.'' d') \<and> quiet d d' \<and> ready lo d')"

lemma valid_op_step:
  assumes D: "driven inv lo M d" and T: "trace_ok (request lo) (length (blocks d)) (dom M) (r # rs)"
    and r: "\<forall>i n. r \<noteq> REALLOC i n"
  shows "goes_on lo (trace_after (dom M) r) d (valid_op ops t x r d) \<or> no_memory lo t x d (valid_op ops t x r d)"
proof (cases r)
  case (ALLOC i n)
  then have c: "int (nat i) = i" "int (nat n) = n" "M (nat i) = None" "nat i < length (blocks d)" "0 < nat n"
    "nat n < 2 ^ 31" "request lo (nat n)" using T by auto
  from valid_alloc_step[OF D c(3-7), of t x, unfolded c(1,2)] show ?thesis
    unfolding goes_on_def no_memory_def ALLOC valid_op_def trace_after_def traceop.case by (metis dom_update(1))
next
  case (FREE i)
  then have c: "int (nat i) = i" "nat i \<in> dom M" using T by auto
  then obtain p n k where "M (nat i) = Some (p, n, k)" by auto
  from valid_free_step[OF D this, unfolded c(1)] show ?thesis
    unfolding goes_on_def FREE valid_op_def trace_after_def traceop.case by (metis dom_update(2))
qed (use r in simp)

lemma valid_ops_Cons_on:
  "valid_op ops t x r d = Inr (True, d') \<Longrightarrow> valid_ops ops t x (r # rs) d = valid_ops ops t (x + 1) rs d'"
  "valid_op ops t x r d = Inr (False, d') \<Longrightarrow> valid_ops ops t x (r # rs) d = Inr (False, d')"
  "valid_op ops t x r d = Inl e \<Longrightarrow> valid_ops ops t x (r # rs) d = Inl e"
  by (simp_all add: checked_def)

text \<open>The loop, for both contracts: \<open>realloc_fine E b\<close> says what is known of the \<open>REALLOC\<close> requests
  whose index has a low byte below \<open>b\<close>; \<open>E\<close> allows that one ends the program.\<close>

definition realloc_fine :: "bool \<Rightarrow> nat \<Rightarrow> nat \<Rightarrow> bool" where
  "realloc_fine E b lo \<longleftrightarrow> (\<forall>M d i n t x. driven inv lo M d \<longrightarrow> i \<in> dom M \<longrightarrow> i mod 256 < b \<longrightarrow>
     0 < n \<longrightarrow> n < 2 ^ 31 \<longrightarrow> request lo n \<longrightarrow>
     (E \<and> valid_op ops t x (REALLOC (int i) (int n)) d = Inl (Exits 1))
     \<or> goes_on lo (dom M) d (valid_op ops t x (REALLOC (int i) (int n)) d))"

lemma valid_ops_run:
  assumes "driven inv lo M d" "trace_ok (request lo) (length (blocks d)) (dom M) rs" "low_ids b rs"
    and R: "realloc_fine E b lo"
  shows "(E \<and> valid_ops ops t x rs d = Inl (Exits 1)) \<or> accepted lo t d (valid_ops ops t x rs d)"
  using assms(1-3)
proof (induction rs arbitrary: M d x)
  case Nil
  then show ?case by (simp add: accepted_def quiet_def driven_ready)
next
  case (Cons r rs)
  note T = trace_ok_after[OF Cons.prems(2)]
  have low: "low_ids b rs" using Cons.prems(3) by (simp add: low_ids_Cons)
  have "goes_on lo (trace_after (dom M) r) d (valid_op ops t x r d) \<or> no_memory lo t x d (valid_op ops t x r d)
    \<or> (E \<and> valid_op ops t x r d = Inl (Exits 1))"
  proof (cases "\<exists>i n. r = REALLOC i n")
    case True
    then obtain i n where r: "r = REALLOC i n" by blast
    then have c: "int (nat i) = i" "int (nat n) = n" "nat i \<in> dom M" "nat i mod 256 < b" "0 < nat n"
      "nat n < 2 ^ 31" "request lo (nat n)" using Cons.prems(2,3) by (auto simp: low_ids_Cons)
    then show ?thesis using R Cons.prems(1) unfolding realloc_fine_def r trace_after_def traceop.case by metis
  qed (use valid_op_step[OF Cons.prems(1,2)] in blast)
  then show ?case
  proof (elim disjE)
    assume "goes_on lo (trace_after (dom M) r) d (valid_op ops t x r d)"
    then obtain M' d' where s: "valid_op ops t x r d = Inr (True, d')" "driven inv lo M' d'" "quiet d d'"
      "dom M' = trace_after (dom M) r" by (auto simp: goes_on_def)
    have "trace_ok (request lo) (length (blocks d')) (dom M') rs" using T s(3,4) by (simp add: quiet_def)
    from Cons.IH[OF s(2) this low, of "x + 1"] accepted_trans[OF s(3)] show ?thesis
      unfolding valid_ops_Cons_on(1)[OF s(1)] by blast
  next
    assume "no_memory lo t x d (valid_op ops t x r d)"
    then show ?thesis unfolding no_memory_def accepted_def using valid_ops_Cons_on(2) by blast
  qed (simp add: checked_def)
qed

lemma eval_mm_valid_start:
  assumes "arena (heap d) lo u" "length (block_sizes d) = length (blocks d)"
  shows "\<exists>d'. eval_mm_valid ops tr t d = valid_ops ops t 0 (trace_ops tr) d'
    \<and> driven inv lo (\<lambda>_. None) d' \<and> quiet d d'"
proof -
  let ?h = "mem_reset_brk (heap d)"
  have a: "arena ?h lo 0" by (rule arena_reset_brk[OF assms(1)])
  note i = init_inv[OF a]
  let ?d = "d\<lparr>ranges := [], heap := snd (op_init ops ?h)\<rparr>"
  have "inv (heap ?d) lo {}" "ranges ?d = []" "length (block_sizes ?d) = length (blocks ?d)"
    using i assms(2) by simp_all
  then have "driven inv lo (\<lambda>_. None) ?d" by (rule driven_start)
  moreover have "eval_mm_valid ops tr t d = valid_ops ops t 0 (trace_ops tr) ?d"
    using i by (simp add: eval_mm_valid_def clear_ranges_def Let_def split_beta)
  ultimately show ?thesis by (intro exI[of _ ?d]) (simp add: quiet_def)
qed

lemma eval_mm_valid_run:
  assumes "arena (heap d) lo u" "length (block_sizes d) = length (blocks d)"
    and "trace_ok (request lo) (length (blocks d)) {} (trace_ops tr)" "low_ids b (trace_ops tr)"
    and "realloc_fine E b lo"
  shows "(E \<and> eval_mm_valid ops tr t d = Inl (Exits 1)) \<or> accepted lo t d (eval_mm_valid ops tr t d)"
proof -
  obtain d' where d': "eval_mm_valid ops tr t d = valid_ops ops t 0 (trace_ops tr) d'"
    "driven inv lo (\<lambda>_. None) d'" "quiet d d'"
    using eval_mm_valid_start[OF assms(1,2)] by blast
  have "(E \<and> valid_ops ops t 0 (trace_ops tr) d' = Inl (Exits 1)) \<or> accepted lo t d' (valid_ops ops t 0 (trace_ops tr) d')"
    using assms(3,4) d'(3) by (intro valid_ops_run[OF d'(2) _ _ assms(5)]) (simp_all add: quiet_def)
  then show ?thesis unfolding d'(1) using accepted_trans[OF d'(3)] by blast
qed

lemma eval_mm_valid_accepts:
  assumes "arena (heap d) lo u" "length (block_sizes d) = length (blocks d)"
    and "trace_ok (request lo) (length (blocks d)) {} (trace_ops tr)" "low_ids 0 (trace_ops tr)"
  shows "accepted lo t d (eval_mm_valid ops tr t d)"
  using eval_mm_valid_run[OF assms, of False t] by (simp add: realloc_fine_def)

end

context realloc_client
begin

lemma valid_op_realloc:
  assumes D: "driven inv lo M d" and i: "i \<in> dom M" and n: "0 < n" "n < 2 ^ 31" "request lo n"
  shows "valid_op ops t x (REALLOC (int i) (int n)) d = Inl (Exits 1)
    \<or> (i mod 256 < 128 \<and> goes_on lo (dom M) d (valid_op ops t x (REALLOC (int i) (int n)) d))
    \<or> (128 \<le> i mod 256 \<and> (\<exists>d'. valid_op ops t x (REALLOC (int i) (int n)) d = Inr (False, d')))"
proof -
  obtain p n0 k where M: "M i = Some (p, n0, k)" using i by auto
  have "dom (M(i \<mapsto> e)) = dom M" for e using i by auto
  with valid_realloc_step[OF D M n, of t x] show ?thesis
    unfolding goes_on_def valid_op_def traceop.case by metis
qed

lemma realloc_fine_low: "realloc_fine True 128 lo"
  unfolding realloc_fine_def
proof (intro allI impI)
  fix M d i n t x assume a: "driven inv lo M d" "i \<in> dom M" "i mod 256 < 128" "0 < n" "n < 2 ^ 31" "request lo n"
  from a(3) have "\<not> 128 \<le> i mod 256" by simp
  with valid_op_realloc[OF a(1,2,4-6), of t x]
  show "(True \<and> valid_op ops t x (REALLOC (int i) (int n)) d = Inl (Exits 1))
    \<or> goes_on lo (dom M) d (valid_op ops t x (REALLOC (int i) (int n)) d)" by blast
qed

lemma eval_mm_valid_realloc:
  assumes "arena (heap d) lo u" "length (block_sizes d) = length (blocks d)"
    and "trace_ok (request lo) (length (blocks d)) {} (trace_ops tr)" "low_ids 128 (trace_ops tr)"
  shows "eval_mm_valid ops tr t d = Inl (Exits 1) \<or> accepted lo t d (eval_mm_valid ops tr t d)"
  using eval_mm_valid_run[OF assms realloc_fine_low, of t] by simp

text \<open>With an index whose low byte is 128 or more, a \<open>REALLOC\<close> that keeps the data is reported as an error.\<close>

lemma valid_ops_rejects:
  assumes "driven inv lo M d" "trace_ok (request lo) (length (blocks d)) (dom M) rs" "\<not> low_ids 128 rs"
  shows "valid_ops ops t x rs d \<noteq> Inr (True, d'')"
  using assms
proof (induction rs arbitrary: M d x)
  case Nil
  then show ?case by (simp add: low_ids_def)
next
  case (Cons r rs)
  note T = trace_ok_after[OF Cons.prems(2)]
  have "(goes_on lo (trace_after (dom M) r) d (valid_op ops t x r d) \<and> \<not> low_ids 128 rs)
    \<or> (\<exists>d'. valid_op ops t x r d = Inr (False, d')) \<or> (\<exists>e. valid_op ops t x r d = Inl e)"
  proof (cases "\<exists>i n. r = REALLOC i n")
    case True
    then obtain i n where r: "r = REALLOC i n" by blast
    then have c: "int (nat i) = i" "int (nat n) = n" "nat i \<in> dom M" "0 < nat n" "nat n < 2 ^ 31" "request lo (nat n)"
      using Cons.prems(2) by auto
    from valid_op_realloc[OF Cons.prems(1) c(3-6), of t x, unfolded c(1,2)] Cons.prems(3) show ?thesis
      unfolding r trace_after_def traceop.case low_ids_Cons by auto
  next
    case False
    then have "\<not> low_ids 128 rs" using Cons.prems(3) by (cases r) (auto simp: low_ids_Cons)
    then show ?thesis using valid_op_step[OF Cons.prems(1,2)] False unfolding no_memory_def by blast
  qed
  then show ?case
  proof (elim disjE conjE exE)
    assume "goes_on lo (trace_after (dom M) r) d (valid_op ops t x r d)" and low: "\<not> low_ids 128 rs"
    then obtain M' d' where s: "valid_op ops t x r d = Inr (True, d')" "driven inv lo M' d'" "quiet d d'"
      "dom M' = trace_after (dom M) r" by (auto simp: goes_on_def)
    have "trace_ok (request lo) (length (blocks d')) (dom M') rs" using T s(3,4) by (simp add: quiet_def)
    from Cons.IH[OF s(2) this low, of "x + 1"] show ?thesis unfolding valid_ops_Cons_on(1)[OF s(1)] .
  qed (simp_all add: checked_def)
qed

lemma eval_mm_valid_rejects:
  assumes "arena (heap d) lo u" "length (block_sizes d) = length (blocks d)"
    and "trace_ok (request lo) (length (blocks d)) {} (trace_ops tr)" "\<not> low_ids 128 (trace_ops tr)"
  shows "eval_mm_valid ops tr t d \<noteq> Inr (True, d'')"
proof -
  obtain d' where d': "eval_mm_valid ops tr t d = valid_ops ops t 0 (trace_ops tr) d'"
    "driven inv lo (\<lambda>_. None) d'" "quiet d d'"
    using eval_mm_valid_start[OF assms(1,2)] by blast
  show ?thesis unfolding d'(1)
    using assms(3,4) d'(3) by (intro valid_ops_rejects[OF d'(2)]) (simp_all add: quiet_def)
qed

end

end
