(* ===== verification/Driver_Util.thy ===== *)
theory Driver_Util
  imports Driver_Runs
begin

text \<open>
  The utilization that \<open>eval_mm_util\<close> measures: the payloads asked for are disjoint and lie in the
  heap, so their sum never exceeds the size of the heap, no \<open>int\<close> overflows, and the quotient
  lies between 0 and 1.
\<close>

definition size_in :: "table \<Rightarrow> nat \<Rightarrow> nat" where
  "size_in M i = (case M i of None \<Rightarrow> 0 | Some (p, n, k) \<Rightarrow> n)"

definition table_total :: "table \<Rightarrow> nat" where
  "table_total M = (\<Sum>i \<in> dom M. size_in M i)"

lemma table_total_update:
  assumes "finite (dom M)" "M i = None"
  shows "table_total (M(i \<mapsto> (p, n, k))) = table_total M + n"
proof -
  have i: "i \<notin> dom M" using assms(2) by auto
  have "(\<Sum>j \<in> dom M. size_in (M(i \<mapsto> (p, n, k))) j) = (\<Sum>j \<in> dom M. size_in M j)"
    using i by (intro sum.cong refl) (auto simp: size_in_def)
  then show ?thesis
    unfolding table_total_def dom_update using assms(1) i by (simp add: size_in_def)
qed

lemma table_total_remove:
  assumes "finite (dom M)" "M i = Some (p, n, k)"
  shows "table_total M = table_total (M(i := None)) + n"
proof -
  have "(M(i := None))(i \<mapsto> (p, n, k)) = M" using assms(2) by auto
  moreover have "finite (dom (M(i := None)))" using assms(1) by (simp add: dom_update)
  ultimately show ?thesis using table_total_update[of "M(i := None)" i p n k] by simp
qed

lemma finite_table:
  assumes "finite (live_of M)" "one_index M" shows "finite (dom M)"
proof -
  let ?f = "\<lambda>i. case the (M i) of (p, n, k) \<Rightarrow> (p, k)"
  have "?f ` dom M \<subseteq> live_of M" by (force simp: live_of_def)
  then have "finite (?f ` dom M)" using assms(1) by (rule finite_subset)
  moreover have "inj_on ?f (dom M)"
  proof (rule inj_onI)
    fix i j assume "i \<in> dom M" "j \<in> dom M" "?f i = ?f j"
    then obtain p n k n' k' where "M i = Some (p, n, k)" "M j = Some (p, n', k')" by auto
    then show "i = j" using assms(2) unfolding one_index_def by blast
  qed
  ultimately show ?thesis by (rule finite_imageD)
qed

text \<open>Disjoint intervals inside an interval.\<close>

lemma disjoint_intervals_sum:
  assumes "finite I" "\<And>i. i \<in> I \<Longrightarrow> a \<le> f i \<and> f i + g i \<le> a + (w :: nat)"
    and "\<And>i j. i \<in> I \<Longrightarrow> j \<in> I \<Longrightarrow> i \<noteq> j \<Longrightarrow> f i + g i \<le> f j \<or> f j + g j \<le> f i"
  shows "(\<Sum>i \<in> I. g i) \<le> w"
proof -
  have "(\<Sum>i \<in> I. g i) = (\<Sum>i \<in> I. card {f i..<f i + g i})" by simp
  also have "\<dots> = card (\<Union>i \<in> I. {f i..<f i + g i})"
    using assms(1,3) by (intro card_UN_disjoint[symmetric]) fastforce+
  also have "\<dots> \<le> card {a..<a + w}"
    using assms(2) by (intro card_mono) fastforce+
  finally show ?thesis by simp
qed

text \<open>The state of the loop of \<open>eval_mm_util\<close>: the driver and the total size of the live payloads.\<close>

definition measured :: "('x memsys_scheme \<Rightarrow> nat \<Rightarrow> (nat \<times> nat) set \<Rightarrow> bool) \<Rightarrow> nat \<Rightarrow> table
    \<Rightarrow> ('x memsys_scheme) driver \<times> int \<Rightarrow> bool" where
  "measured J lo M st \<longleftrightarrow> J (heap (fst st)) lo (live_of M) \<and> recorded M (fst st) \<and> snd st = int (table_total M)"

text \<open>One request either ends the program for want of memory, or keeps the loop's state.\<close>

definition util_step :: "('x memsys_scheme \<Rightarrow> nat \<Rightarrow> (nat \<times> nat) set \<Rightarrow> bool) \<Rightarrow> nat \<Rightarrow> nat set
    \<Rightarrow> ('x memsys_scheme) driver \<times> int \<Rightarrow> c_stop + ('x memsys_scheme) driver \<times> int \<Rightarrow> bool" where
  "util_step J lo S st r \<longleftrightarrow> r = Inl (Exits 1) \<or> (\<exists>st' M. r = Inr st' \<and> measured J lo M st' \<and> dom M = S
     \<and> grows (heap (fst st)) (heap (fst st')) \<and> quiet (fst st) (fst st'))"

lemma int_ok_nat: "x \<le> heap_limit \<Longrightarrow> int_ok (int x) = Inr (int x)"
  by (simp add: int_ok_def heap_limit_def)

context driver_client
begin

lemma total_in_heap:
  assumes I: "inv h lo (live_of M)" and R: "recorded M d"
  shows "table_total M \<le> unat (mem_heapsize h)" "unat (mem_heapsize h) \<le> heap_limit" "finite (dom M)"
proof -
  obtain u where a: "arena h lo u" using inv_arena[OF I] by blast
  have one: "one_index M" using R by (simp add: recorded_def)
  show fin: "finite (dom M)" by (rule finite_table[OF inv_finite[OF I] one])
  have lo: "unat (mem_heap_lo h) = lo"
    using arenaD(3,5)[OF a] by (simp add: mem_heap_lo_def unat_of_nat_u32)
  let ?f = "\<lambda>i. fst (the (M i))"
  have u: "unat (mem_heap_hi h) \<le> lo + u"
  proof -
    have "mem_heap_hi h = of_nat (lo + u) - of_nat 1" by (simp only: mem_heap_hi_def arenaD(6)[OF a] of_nat_1)
    also have "\<dots> = of_nat (lo + u - 1)" using arenaD(1)[OF a] by (intro of_nat_sub_u32) linarith
    finally have "mem_heap_hi h = of_nat (lo + u - 1)" .
    moreover have "lo + u - 1 < 2 ^ 32" using arenaD(3,4)[OF a] by linarith
    ultimately show ?thesis using unat_of_nat_u32 by simp
  qed
  have "(\<Sum>i \<in> dom M. size_in M i) \<le> u"
  proof (rule disjoint_intervals_sum[OF fin, where a = lo and f = ?f])
    fix i assume "i \<in> dom M"
    then obtain p n k where M: "M i = Some (p, n, k)" by auto
    then have "(p, k) \<in> live_of M" by (auto simp: live_of_def)
    from inv_live[OF I this] recordedD(5)[OF R M] lo u
    show "lo \<le> ?f i \<and> ?f i + size_in M i \<le> lo + u" by (simp add: size_in_def M)
  next
    fix i j assume ij: "i \<in> dom M" "j \<in> dom M" "i \<noteq> j"
    then obtain p n k q m l where M: "M i = Some (p, n, k)" "M j = Some (q, m, l)" by auto
    then have L: "(p, k) \<in> live_of M" "(q, l) \<in> live_of M" by (auto simp: live_of_def)
    have "p \<noteq> q" using M ij(3) one unfolding one_index_def by blast
    then show "?f i + size_in M i \<le> ?f j \<or> ?f j + size_in M j \<le> ?f i"
      using inv_apart[OF I L] recordedD(5)[OF R M(1)] recordedD(5)[OF R M(2)] by (auto simp: size_in_def M)
  qed
  then show "table_total M \<le> unat (mem_heapsize h)" "unat (mem_heapsize h) \<le> heap_limit"
    unfolding heapsize_arena[OF a] table_total_def using arenaD(4)[OF a] by simp_all
qed

lemma util_alloc_step:
  assumes D: "measured inv lo M (d, t)" and M: "M i = None" "i < length (blocks d)"
    and n: "0 < n" "n < 2 ^ 31" "request lo n"
  shows "util_step inv lo (insert i (dom M)) (d, t) (util_op ops (ALLOC (int i) (int n)) (d, t))"
proof -
  have I: "inv (heap d) lo (live_of M)" and R: "recorded M d" and t: "t = int (table_total M)"
    using D by (simp_all add: measured_def)
  from malloc_inv[OF I n(3)] show ?thesis
  proof (elim disjE exE conjE)
    fix h assume "op_malloc ops (of_nat n) (heap d) = Inr (0, h)"
    then show ?thesis by (simp add: util_step_def util_op_def app_error_def)
  next
    fix p k h
    assume a: "op_malloc ops (of_nat n) (heap d) = Inr (of_nat p, h)" "inv h lo (insert (p, k) (live_of M))"
      "\<forall>j. (p, j) \<notin> live_of M" "n \<le> k" "grows (heap d) h"
    have e: "M(i := None) = M" using M(1) by auto
    have R': "recorded M (d\<lparr>heap := h\<rparr>)" using R by (simp add: recorded_def)
    have M2: "i < length (blocks (d\<lparr>heap := h\<rparr>))" using M(2) by simp
    obtain d' where d': "remember (int i) (of_nat p) (int n) (d\<lparr>heap := h\<rparr>) = Inr d'"
      "recorded (M(i \<mapsto> (p, n, k))) d'" "heap d' = h" "quiet d d'"
      using recorded_remember[OF R' M2 n(1,2) a(4), of p] a(3) e by (auto simp: quiet_def)
    have I': "inv (heap d') lo (live_of (M(i \<mapsto> (p, n, k))))" using a(2) d'(3) live_of_update[of M i p n k] M(1) by simp
    note T = total_in_heap[OF I' d'(2)]
    have tt: "t + int n = int (table_total (M(i \<mapsto> (p, n, k))))"
      using table_total_update[OF total_in_heap(3)[OF I R] M(1), of p n k] t by simp
    have "int_ok (t + int n) = Inr (t + int n)" unfolding tt using T(1,2) by (intro int_ok_nat) simp
    then have "util_op ops (ALLOC (int i) (int n)) (d, t) = Inr (d', t + int n)"
      using a(1) d'(1) live_bounds(4)[OF a(2) insertI1] by (simp add: util_op_def)
    moreover have "measured inv lo (M(i \<mapsto> (p, n, k))) (d', t + int n)"
      using I' d'(2) tt by (simp add: measured_def)
    ultimately show ?thesis
      unfolding util_step_def using a(5) d'(3,4) dom_update(1)[of M i "(p, n, k)"]
      by (intro disjI2 exI[of _ "(d', t + int n)"] exI[of _ "M(i \<mapsto> (p, n, k))"]) simp
  qed
qed

lemma util_free_step:
  assumes D: "measured inv lo M (d, t)" and M: "i \<in> dom M"
  shows "util_step inv lo (dom M - {i}) (d, t) (util_op ops (FREE (int i)) (d, t))"
proof -
  have I: "inv (heap d) lo (live_of M)" and R: "recorded M d" and t: "t = int (table_total M)"
    using D by (simp_all add: measured_def)
  obtain p n k where P: "M i = Some (p, n, k)" using M by auto
  have one: "one_index M" using R by (simp add: recorded_def)
  have L: "(p, k) \<in> live_of M" using P by (auto simp: live_of_def)
  note r = recordedD[OF R P] and f = free_inv[OF I L] and T = total_in_heap[OF I R]
  let ?d = "d\<lparr>heap := op_free ops (of_nat p) (heap d)\<rparr>"
  have tt: "t - int n = int (table_total (M(i := None)))" using table_total_remove[OF T(3) P] t by simp
  have "table_total (M(i := None)) \<le> heap_limit" using table_total_remove[OF T(3) P] T(1,2) by simp
  then have "int_ok (t - int n) = Inr (t - int n)" unfolding tt by (rule int_ok_nat)
  then have "util_op ops (FREE (int i)) (d, t) = Inr (?d, t - int n)"
    using r(1,2,4) by (simp add: util_op_def sint_of_nat_u32)
  moreover have "measured inv lo (M(i := None)) (?d, t - int n)"
    using f live_of_remove[OF P one] recorded_remove[OF R, of i] tt by (simp add: measured_def recorded_def)
  ultimately show ?thesis
    unfolding util_step_def using f dom_update(2)[of M i]
    by (intro disjI2 exI[of _ "(?d, t - int n)"] exI[of _ "M(i := None)"]) (simp add: quiet_def)
qed

text \<open>The loop, given what is known of the \<open>REALLOC\<close> requests of the trace.\<close>

lemma util_ops_bound:
  assumes "measured inv lo M st" "trace_ok (request lo) (length (blocks (fst st))) (dom M) rs"
    and "0 \<le> hwm" "hwm \<le> int (unat (mem_heapsize (heap (fst st))))"
    and R: "low_ids 0 rs \<or> (\<forall>M d t i n. measured inv lo M (d, t) \<longrightarrow> i \<in> dom M \<longrightarrow> 0 < n \<longrightarrow> n < 2 ^ 31 \<longrightarrow>
      request lo n \<longrightarrow> util_step inv lo (dom M) (d, t) (util_op ops (REALLOC (int i) (int n)) (d, t)))"
  shows "util_ops ops rs st hwm = Inl (Exits 1)
    \<or> (\<exists>d' hwm'. util_ops ops rs st hwm = Inr (d', hwm') \<and> 0 \<le> hwm' \<and> hwm' \<le> int (unat (mem_heapsize (heap d')))
        \<and> grows (heap (fst st)) (heap d') \<and> quiet (fst st) d' \<and> ready lo d')"
  using assms
proof (induction rs arbitrary: M st hwm)
  case Nil
  then have "ready lo (fst st)"
    using inv_arena[of "heap (fst st)" lo "live_of M"] by (simp add: measured_def ready_def recorded_def)
  with Nil show ?case by (simp add: grows_def quiet_def)
next
  case (Cons r rs)
  obtain d t where st: "st = (d, t)" by (cases st)
  have "\<exists>S. util_step inv lo S (d, t) (util_op ops r (d, t)) \<and> trace_ok (request lo) (length (blocks d)) S rs"
  proof (cases r)
    case (ALLOC i n)
    then have c: "int (nat i) = i" "int (nat n) = n" "M (nat i) = None" "nat i < length (blocks d)"
      "0 < nat n" "nat n < 2 ^ 31" "request lo (nat n)"
      "trace_ok (request lo) (length (blocks d)) (insert (nat i) (dom M)) rs" using Cons.prems(2) st by auto
    from util_alloc_step[OF Cons.prems(1)[unfolded st] c(3-7)] c show ?thesis by (auto simp: ALLOC)
  next
    case (FREE i)
    then have c: "int (nat i) = i" "nat i \<in> dom M" "trace_ok (request lo) (length (blocks d)) (dom M - {nat i}) rs"
      using Cons.prems(2) st by auto
    from util_free_step[OF Cons.prems(1)[unfolded st] c(2)] c show ?thesis by (auto simp: FREE)
  next
    case (REALLOC i n)
    then have c: "int (nat i) = i" "int (nat n) = n" "nat i \<in> dom M"
      "0 < nat n" "nat n < 2 ^ 31" "request lo (nat n)" "trace_ok (request lo) (length (blocks d)) (dom M) rs"
      using Cons.prems(2) st by auto
    have "\<not> low_ids 0 (r # rs)" by (simp add: REALLOC low_ids_Cons)
    with Cons.prems(5) Cons.prems(1)[unfolded st] c(3-6)
    have "util_step inv lo (dom M) (d, t) (util_op ops (REALLOC (int (nat i)) (int (nat n))) (d, t))" by blast
    with c show ?thesis by (auto simp: REALLOC)
  qed
  then obtain S where S: "util_step inv lo S (d, t) (util_op ops r (d, t))" "trace_ok (request lo) (length (blocks d)) S rs"
    by blast
  show ?case
  proof (cases "util_op ops r (d, t) = Inl (Exits 1)")
    case True
    then show ?thesis by (simp add: st)
  next
    case False
    with S(1) obtain st' M' where m: "util_op ops r (d, t) = Inr st'" "measured inv lo M' st'" "dom M' = S"
      "grows (heap d) (heap (fst st'))" "quiet d (fst st')"
      by (auto simp: util_step_def)
    define hwm' where "hwm' = (case r of FREE _ \<Rightarrow> hwm | _ \<Rightarrow> if snd st' > hwm then snd st' else hwm)"
    have mm: "inv (heap (fst st')) lo (live_of M')" "recorded M' (fst st')" "snd st' = int (table_total M')"
      using m(2) by (simp_all add: measured_def)
    have g: "unat (mem_heapsize (heap d)) \<le> unat (mem_heapsize (heap (fst st')))" using m(4) by (simp add: grows_def)
    define A B where "A = unat (mem_heapsize (heap d))" and "B = unat (mem_heapsize (heap (fst st')))"
    have "hwm \<le> int A" "A \<le> B" "table_total M' \<le> B"
      using Cons.prems(4) total_in_heap(1)[OF mm(1,2)] g st by (simp_all only: A_def B_def fst_conv)
    then have "0 \<le> hwm' \<and> hwm' \<le> int B"
      using Cons.prems(3) mm(3) by (auto simp: hwm'_def split: traceop.splits)
    then have t': "0 \<le> hwm'" "hwm' \<le> int (unat (mem_heapsize (heap (fst st'))))" unfolding B_def by blast+
    have "low_ids 0 (r # rs) \<longrightarrow> low_ids 0 rs" by (simp add: low_ids_Cons)
    with Cons.prems(5) have R': "low_ids 0 rs \<or> (\<forall>M d t i n. measured inv lo M (d, t) \<longrightarrow> i \<in> dom M \<longrightarrow> 0 < n \<longrightarrow>
      n < 2 ^ 31 \<longrightarrow> request lo n \<longrightarrow> util_step inv lo (dom M) (d, t) (util_op ops (REALLOC (int i) (int n)) (d, t)))"
      by blast
    have "trace_ok (request lo) (length (blocks (fst st'))) (dom M') rs" using S(2) m(3,5) by (simp add: quiet_def)
    from Cons.IH[OF m(2) this t' R'] m(4,5) show ?thesis
      using quiet_trans[of d "fst st'"] by (auto simp: st m(1) hwm'_def[symmetric] grows_def)
  qed
qed

lemma eval_mm_util_bound:
  assumes "arena (heap d) lo u" "length (block_sizes d) = length (blocks d)"
    and "trace_ok (request lo) (length (blocks d)) {} (trace_ops tr)"
    and R: "low_ids 0 (trace_ops tr) \<or> (\<forall>M d t i n. measured inv lo M (d, t) \<longrightarrow> i \<in> dom M \<longrightarrow> 0 < n \<longrightarrow> n < 2 ^ 31
      \<longrightarrow> request lo n \<longrightarrow> util_step inv lo (dom M) (d, t) (util_op ops (REALLOC (int i) (int n)) (d, t)))"
  shows "eval_mm_util ops tr d = Inl (Exits 1)
    \<or> (\<exists>r d'. eval_mm_util ops tr d = Inr (r, d') \<and> 0 \<le> r \<and> r \<le> 1 \<and> 0 < mem_heapsize (heap d')
        \<and> quiet d d' \<and> ready lo d')"
proof -
  let ?h = "mem_reset_brk (heap d)"
  let ?d = "d\<lparr>heap := snd (op_init ops ?h)\<rparr>"
  have a: "arena ?h lo 0" by (rule arena_reset_brk[OF assms(1)])
  note i = init_inv[OF a]
  have m: "measured inv lo (\<lambda>_. None) (?d, 0)"
    using i assms(2) by (simp add: measured_def recorded_def one_index_def table_total_def)
  have t: "trace_ok (request lo) (length (blocks (fst (?d, 0)))) (dom (\<lambda>_. None :: (nat \<times> nat \<times> nat) option)) (trace_ops tr)"
    using assms(3) by simp
  have e: "eval_mm_util ops tr d = (case util_ops ops (trace_ops tr) (?d, 0) 0 of Inl e \<Rightarrow> Inl e
      | Inr (d2, hwm) \<Rightarrow> Inr (of_int hwm / of_int (uint (mem_heapsize (heap d2))), d2))"
    using i by (simp add: eval_mm_util_def Let_def split_beta)
  have z: "0 \<le> int (unat (mem_heapsize (heap (fst (?d, 0)))))" by simp
  from util_ops_bound[OF m t order_refl z R] show ?thesis
  proof (elim disjE exE conjE)
    fix d' hwm assume x: "util_ops ops (trace_ops tr) (?d, 0) 0 = Inr (d', hwm)" "0 \<le> hwm"
      "hwm \<le> int (unat (mem_heapsize (heap d')))" "grows (heap (fst (?d, 0))) (heap d')"
      "quiet (fst (?d, 0)) d'" "ready lo d'"
    have h: "0 < unat (mem_heapsize (heap d'))" using x(4) i by (simp add: grows_def)
    then have h': "0 < mem_heapsize (heap d')" by (simp add: word_less_nat_alt)
    define u where "u = unat (mem_heapsize (heap d'))"
    define w where "w = int u"
    have w: "0 < w" "hwm \<le> w" using h x(3) unfolding w_def u_def by (simp_all only: of_nat_0_less_iff)
    have "(of_int hwm / of_int w :: rat) \<le> 1 \<and> 0 \<le> (of_int hwm / of_int w :: rat)"
      using w x(2) by (simp add: divide_le_eq_1)
    moreover have "eval_mm_util ops tr d = Inr (of_int hwm / of_int w, d')"
      unfolding e x(1) w_def u_def uint_nat by (simp only: sum.case prod.case)
    moreover have "quiet d d'" using x(5) by (simp add: quiet_def)
    ultimately show ?thesis using h' x(6) by blast
  qed (use e in simp_all)
qed

end

context realloc_client
begin

lemma util_realloc_step:
  assumes D: "measured inv lo M (d, t)" and M: "i \<in> dom M" and n: "0 < n" "n < 2 ^ 31" "request lo n"
  shows "util_step inv lo (dom M) (d, t) (util_op ops (REALLOC (int i) (int n)) (d, t))"
proof -
  have I: "inv (heap d) lo (live_of M)" and R: "recorded M d" and t: "t = int (table_total M)"
    using D by (simp_all add: measured_def)
  obtain p m k where P: "M i = Some (p, m, k)" using M by auto
  have one: "one_index M" using R by (simp add: recorded_def)
  have L: "(p, k) \<in> live_of M" using P by (auto simp: live_of_def)
  note r = recordedD[OF R P] and T = total_in_heap[OF I R]
  let ?M = "M(i := None)"
  have e: "live_of ?M = live_of M - {(p, k)}" by (rule live_of_remove[OF P one])
  from realloc_inv[OF I L n(3), folded e] show ?thesis
  proof (elim disjE exE conjE)
    assume "op_realloc ops (of_nat p) (of_nat n) (heap d) = Inl (Exits 1)"
    then show ?thesis using r(1,2) by (simp add: util_step_def util_op_def)
  next
    fix q j h
    assume a: "op_realloc ops (of_nat p) (of_nat n) (heap d) = Inr (of_nat q, h)" "inv h lo (insert (q, j) (live_of ?M))"
      "\<forall>l. (q, l) \<notin> live_of ?M" "n \<le> j" "grows (heap d) h"
    have R': "recorded ?M (d\<lparr>heap := h\<rparr>)" using recorded_remove[OF R, of i] by (simp add: recorded_def)
    have M2: "i < length (blocks (d\<lparr>heap := h\<rparr>))" using r(6) by simp
    have "?M(i := None) = ?M" by simp
    then obtain d' where d': "remember (int i) (of_nat q) (int n) (d\<lparr>heap := h\<rparr>) = Inr d'"
      "recorded (?M(i \<mapsto> (q, n, j))) d'" "heap d' = h" "quiet d d'"
      using recorded_remember[OF R' M2 n(1,2) a(4), of q] a(3) by (auto simp: quiet_def)
    let ?N = "?M(i \<mapsto> (q, n, j))"
    have I': "inv (heap d') lo (live_of ?N)" using a(2) d'(3) live_of_update[of ?M i q n j] by simp
    note T' = total_in_heap[OF I' d'(2)]
    have fin: "finite (dom ?M)" using T(3) by (simp only: dom_update finite_Diff)
    have tot: "table_total ?N = table_total ?M + n" using table_total_update[OF fin, of i q n j] by simp
    have tt: "t + (int n - int m) = int (table_total ?N)"
      using table_total_remove[OF T(3) P] tot t by simp
    have "int_ok (t + (int n - int m)) = Inr (t + (int n - int m))" unfolding tt using T'(1,2) by (intro int_ok_nat) simp
    moreover have "int_ok (int n - int m) = Inr (int n - int m)" using n r(3,4) by (simp add: int_ok_def)
    ultimately have "util_op ops (REALLOC (int i) (int n)) (d, t) = Inr (d', t + (int n - int m))"
      using a(1) d'(1) r(1,2,4) live_bounds(4)[OF a(2) insertI1] by (simp add: util_op_def sint_of_nat_u32)
    moreover have "measured inv lo ?N (d', t + (int n - int m))" using I' d'(2) tt by (simp add: measured_def)
    moreover have "dom ?N = dom M" using M by (auto simp only: dom_update)
    ultimately show ?thesis
      unfolding util_step_def using a(5) d'(3,4)
      by (intro disjI2 exI[of _ "(d', t + (int n - int m))"] exI[of _ ?N]) simp
  qed
qed

end

end
