(* ===== verification/Driver_Props.thy ===== *)
theory Driver_Props
  imports Mm_Interface Ff_Props Driver_Util
begin

text \<open>
  The driver linked with each of the two allocators: the lemmas of the locales \<open>allocator\<close> and
  \<open>reallocator\<close> at their interpretations, and what the overlap check of \<open>add_range\<close> finds.
\<close>

interpretation mm_driver: driver_client mm_ops mm_live request_ok
  by unfold_locales

interpretation ff_driver: realloc_client ff_ops ff_live request_ok
  by unfold_locales

section \<open>Concrete runs\<close>

definition idle_driver :: "'s \<Rightarrow> nat \<Rightarrow> 's driver" where
  "idle_driver s n = \<lparr>heap = s, ranges = [], blocks = replicate n None, block_sizes = replicate n None,
     errors = 0, out = []\<rparr>"

definition short_trace :: "traceop list \<Rightarrow> trace" where
  "short_trace rs = \<lparr>sugg_heapsize = Some 0, num_ids = 200, num_ops = int (length rs), trace_weight = Some 1, trace_ops = rs\<rparr>"

lemma idle_driver_simps [simp]:
  "heap (idle_driver s n) = s" "ranges (idle_driver s n) = []" "length (blocks (idle_driver s n)) = n"
  "length (block_sizes (idle_driver s n)) = n" "trace_ops (short_trace rs) = rs"
  by (simp_all add: idle_driver_def short_trace_def)

lemma small_request: "0 < n \<Longrightarrow> n \<le> 1000 \<Longrightarrow> request_ok 4096 n"
  using block_need_props(4)[of n] by (auto simp: request_ok_def grow_by_def heap_limit_def)

section \<open>The properties\<close>

text \<open>C13. The driver accepts \<^verbatim>\<open>mm.c\<close>: on every trace without \<open>REALLOC\<close> whose requests make sense,
  \<open>eval_mm_valid\<close> finds no error and prints nothing, or reports only that a request had no memory.\<close>

theorem driver_accepts_mm:
  assumes "arena (heap d) lo u" "length (block_sizes d) = length (blocks d)"
    and "trace_ok (request_ok lo) (length (blocks d)) {} (trace_ops tr)" "low_ids 0 (trace_ops tr)"
  shows "accepted lo t d (eval_mm_valid mm_ops tr t d)"
  by (rule mm_driver.eval_mm_valid_accepts[OF assms])

theorem driver_accepts_mm_witness:
  "accepted 4096 0 (idle_driver start_mm 200)
     (eval_mm_valid mm_ops (short_trace [ALLOC 0 100, ALLOC 1 20, FREE 0, ALLOC 199 7]) 0 (idle_driver start_mm 200))"
  using start_mm_arena by (intro driver_accepts_mm) (auto simp: small_request low_ids_def)



text \<open>C21. A false alarm: \<open>newp[j] != (index & 0xFF)\<close> compares a signed \<open>char\<close> with the byte's value, so
  a trace with a \<open>REALLOC\<close> whose index has a low byte of 128 or more is never accepted, although
  \<open>mm_realloc\<close> keeps the data.\<close>

theorem driver_rejects_high_ids:
  assumes "arena (heap d) lo u" "length (block_sizes d) = length (blocks d)"
    and "trace_ok (request_ok lo) (length (blocks d)) {} (trace_ops tr)" "\<not> low_ids 128 (trace_ops tr)"
  shows "eval_mm_valid ff_ops tr t d \<noteq> Inr (True, d')"
  by (rule ff_driver.eval_mm_valid_rejects[OF assms])

theorem driver_rejects_high_ids_witness:
  "\<nexists>d'. eval_mm_valid ff_ops (short_trace [ALLOC 128 100, REALLOC 128 200]) 0 (idle_driver start_ff 200) = Inr (True, d')"
  using driver_rejects_high_ids[of "idle_driver start_ff 200" 4096 0 "short_trace [ALLOC 128 100, REALLOC 128 200]" 0]
    start_ff_arena by (auto simp: small_request low_ids_def)



text \<open>C24. What \<open>add_range\<close> checks: it accepts a payload exactly if it is aligned, inside the heap, and for
  every recorded payload apart from it or strictly around it; a payload around another one is not noticed.\<close>

theorem add_range_checks:
  assumes "0 < sz" "hi = lo + of_int sz - 1" "lo \<le> hi" "\<forall>(plo, phi) \<in> set (ranges d). plo \<le> phi"
  shows "(\<exists>d'. add_range lo sz t i d = Inr (True, d')) \<longleftrightarrow>
    lo mod 8 = 0 \<and> mem_heap_lo (heap d) \<le> lo \<and> hi \<le> mem_heap_hi (heap d)
    \<and> (\<forall>(plo, phi) \<in> set (ranges d). {lo..hi} \<inter> {plo..phi} = {} \<or> lo < plo \<and> phi < hi)"
proof -
  have c: "range_clash lo hi (plo, phi) \<longleftrightarrow> \<not> ({lo..hi} \<inter> {plo..phi} = {} \<or> lo < plo \<and> phi < hi)" if "plo \<le> phi" for plo phi
    using that assms(3) unfolding range_clash_def by (auto simp: Int_atLeastAtMost)
  have "(\<forall>r \<in> set (ranges d). case r of (plo, phi) \<Rightarrow> {lo..hi} \<inter> {plo..phi} = {} \<or> lo < plo \<and> phi < hi)
    \<longleftrightarrow> (\<forall>r \<in> set (ranges d). \<not> range_clash lo hi r)"
  proof (intro ball_cong refl)
    fix r assume r: "r \<in> set (ranges d)"
    obtain plo phi where e: "r = (plo, phi)" by (cases r)
    have "plo \<le> phi" using assms(4) r unfolding e by blast
    from c[OF this] show "(case r of (plo, phi) \<Rightarrow> {lo..hi} \<inter> {plo..phi} = {} \<or> lo < plo \<and> phi < hi) \<longleftrightarrow> \<not> range_clash lo hi r"
      unfolding e prod.case by blast
  qed
  also have "\<dots> \<longleftrightarrow> find (range_clash lo hi) (ranges d) = None" by (auto simp: find_None_iff)
  finally have "(\<forall>r \<in> set (ranges d). case r of (plo, phi) \<Rightarrow> {lo..hi} \<inter> {plo..phi} = {} \<or> lo < plo \<and> phi < hi)
    \<longleftrightarrow> find (range_clash lo hi) (ranges d) = None" .
  moreover have "lo < mem_heap_lo (heap d) \<or> lo > mem_heap_hi (heap d) \<or> hi < mem_heap_lo (heap d) \<or> hi > mem_heap_hi (heap d)
    \<longleftrightarrow> \<not> (mem_heap_lo (heap d) \<le> lo \<and> hi \<le> mem_heap_hi (heap d))"
    using assms(3) by auto
  ultimately show ?thesis
    using assms(1) by (auto simp: add_range_def assms(2)[symmetric] IS_ALIGNED_def ALIGNMENT_def Let_def split: option.splits)
qed

text \<open>A heap of 4112 bytes with one payload of 16 bytes; a payload of 48 bytes around it is accepted.\<close>

theorem add_range_checks_witness:
  "\<exists>d'. add_range 4112 48 0 0 ((idle_driver (snd (ff_init start_ff)) 4)\<lparr>ranges := [(4128, 4143)]\<rparr>) = Inr (True, d')"
proof -
  note a = arenaD[OF ff_inv_facts(4)[OF ff_init_refines(2)[OF start_ff_arena]]]
  have "mem_heap_lo (snd (ff_init start_ff)) = 4096" "mem_heap_hi (snd (ff_init start_ff)) = 8207"
    using a(5,6) by (simp_all add: mem_heap_lo_def mem_heap_hi_def)
  then show ?thesis by (subst add_range_checks[OF _ refl]) simp_all
qed

end
