(* ===== verification/Driver_Trace.thy ===== *)
theory Driver_Trace
  imports Driver_Props
begin

text \<open>
  Trace files: \<open>read_trace\<close> of \<^verbatim>\<open>mdriver.c\<close> with what it uses of \<open>fscanf\<close>, on the text of the file. Whether
  \<open>malloc\<close> succeeds, by number of the call and size, is the argument \<open>room\<close>. A file that is written in
  the format of the lab is read back as the trace it was written from.
\<close>

section \<open>Conversions of \<open>fscanf\<close>\<close>

text \<open>A number with its sign, after white space: the value, if there are digits, and the rest.\<close>

definition scan_number :: "string \<Rightarrow> int option \<times> string" where
  "scan_number s =
     (let t = dropWhile isspace s;
          neg = (t \<noteq> [] \<and> hd t = CHR ''-'');
          u = (if t \<noteq> [] \<and> (hd t = CHR ''-'' \<or> hd t = CHR ''+'') then tl t else t);
          ds = takeWhile isdigit u
      in (if ds = [] then None else Some (if neg then - int (digits_value ds) else int (digits_value ds)),
          dropWhile isdigit u))"

text \<open>\<open>%d\<close> and \<open>%u\<close>; a value that the type cannot represent is undefined behaviour.\<close>

definition scanf_d :: "string \<Rightarrow> c_stop + int option \<times> string" where
  "scanf_d s = (case scan_number s of
       (None, r) \<Rightarrow> Inr (None, r)
     | (Some v, r) \<Rightarrow> if - (2 ^ 31) \<le> v \<and> v < 2 ^ 31 then Inr (Some v, r) else Inl (Undefined ''fscanf''))"

definition scanf_u :: "string \<Rightarrow> c_stop + u32 option \<times> string" where
  "scanf_u s = (case scan_number s of
       (None, r) \<Rightarrow> Inr (None, r)
     | (Some v, r) \<Rightarrow> if \<bar>v\<bar> < 2 ^ 32 then Inr (Some (of_int v), r) else Inl (Undefined ''fscanf''))"

lemma scan_number_rest: "length (snd (scan_number s)) \<le> length s"
proof -
  have "length (dropWhile isdigit u) \<le> length s" if "length u \<le> length (dropWhile isspace s)" for u
    using that length_dropWhile_le[of isdigit u] length_dropWhile_le[of isspace s] by linarith
  then show ?thesis by (auto simp: scan_number_def Let_def)
qed

lemma scanf_u_rest: "scanf_u s = Inr (v, r) \<Longrightarrow> length r \<le> length s"
  using scan_number_rest[of s] by (auto simp: scanf_u_def split: prod.splits option.splits if_splits)

section \<open>Requests\<close>

text \<open>The variables of the loop: \<open>size\<close> has no value at first, and both keep the old one when \<open>fscanf\<close>
  finds no number, as its result is ignored.\<close>

record reading =
  rd_index :: u32
  rd_size :: "u32 option"
  max_index :: u32
  rd_ops :: "traceop list"

definition scan_index_size :: "string \<Rightarrow> reading \<Rightarrow> c_stop + reading \<times> string" where
  "scan_index_size s st =
     (case scanf_u s of
        Inl e \<Rightarrow> Inl e
      | Inr (None, r) \<Rightarrow> Inr (st, r)
      | Inr (Some i, r) \<Rightarrow>
          (case scanf_u r of
             Inl e \<Rightarrow> Inl e
           | Inr (None, r2) \<Rightarrow> Inr (st\<lparr>rd_index := i\<rparr>, r2)
           | Inr (Some n, r2) \<Rightarrow> Inr (st\<lparr>rd_index := i, rd_size := Some n\<rparr>, r2)))"

text \<open>\<open>"%ud"\<close> reads a number and a letter \<open>d\<close>, which is not missed when it is not there.\<close>

definition scan_ud :: "string \<Rightarrow> reading \<Rightarrow> c_stop + reading \<times> string" where
  "scan_ud s st =
     (case scanf_u s of
        Inl e \<Rightarrow> Inl e
      | Inr (None, r) \<Rightarrow> Inr (st, r)
      | Inr (Some i, r) \<Rightarrow> Inr (st\<lparr>rd_index := i\<rparr>, if r \<noteq> [] \<and> hd r = CHR ''d'' then tl r else r))"

definition put_op :: "nat \<Rightarrow> traceop \<Rightarrow> reading \<Rightarrow> c_stop + reading" where
  "put_op cap r st =
     (if length (rd_ops st) < cap then Inr (st\<lparr>rd_ops := rd_ops st @ [r]\<rparr>) else Inl (Undefined ''array index''))"

definition put_sized :: "nat \<Rightarrow> (int \<Rightarrow> int \<Rightarrow> traceop) \<Rightarrow> reading \<Rightarrow> c_stop + reading" where
  "put_sized cap typ st =
     (case rd_size st of
        None \<Rightarrow> Inl (Undefined ''uninitialised'')
      | Some n \<Rightarrow>
          (case put_op cap (typ (sint (rd_index st)) (sint n)) st of
             Inl e \<Rightarrow> Inl e
           | Inr st' \<Rightarrow> Inr (st'\<lparr>max_index := (if rd_index st' > max_index st' then rd_index st' else max_index st')\<rparr>)))"

definition read_op :: "nat \<Rightarrow> char \<Rightarrow> string \<Rightarrow> reading \<Rightarrow> c_stop + reading \<times> string" where
  "read_op cap c s st =
     (if c = CHR ''a'' \<or> c = CHR ''r'' then
        (case scan_index_size s st of
           Inl e \<Rightarrow> Inl e
         | Inr (st1, r) \<Rightarrow>
             (case put_sized cap (if c = CHR ''a'' then ALLOC else REALLOC) st1 of
                Inl e \<Rightarrow> Inl e | Inr st2 \<Rightarrow> Inr (st2, r)))
      else if c = CHR ''f'' then
        (case scan_ud s st of
           Inl e \<Rightarrow> Inl e
         | Inr (st1, r) \<Rightarrow>
             (case put_op cap (FREE (sint (rd_index st1))) st1 of Inl e \<Rightarrow> Inl e | Inr st2 \<Rightarrow> Inr (st2, r)))
      else Inl (Exits 1))"

lemma scan_index_size_rest: "scan_index_size s st = Inr (st', r) \<Longrightarrow> length r \<le> length s"
  by (auto simp: scan_index_size_def split: sum.splits prod.splits option.splits dest!: scanf_u_rest)

lemma scan_ud_rest: "scan_ud s st = Inr (st', r) \<Longrightarrow> length r \<le> length s"
  by (auto simp: scan_ud_def split: sum.splits prod.splits option.splits if_splits dest!: scanf_u_rest)

lemma read_op_rest: "read_op cap c s st = Inr (st', r) \<Longrightarrow> length r \<le> length s"
  by (auto simp: read_op_def split: sum.splits prod.splits if_splits dest: scan_index_size_rest scan_ud_rest)

definition MAXLINE :: nat where "MAXLINE = 1024"

text \<open>The loop: \<open>%s\<close> reads a word into an array of \<open>MAXLINE\<close> characters, its first letter is the type.\<close>

function read_ops :: "nat \<Rightarrow> string \<Rightarrow> reading \<Rightarrow> c_stop + reading" where
  "read_ops cap s st =
     (let t = dropWhile isspace s
      in if t = [] then Inr st
         else
           let w = takeWhile (\<lambda>c. \<not> isspace c) t;
               r = dropWhile (\<lambda>c. \<not> isspace c) t
           in if MAXLINE \<le> length w then Inl (Undefined ''fscanf'')
              else (case read_op cap (hd w) r st of Inl e \<Rightarrow> Inl e | Inr (st', r') \<Rightarrow> read_ops cap r' st'))"
  by pat_completeness auto

lemma word_consumed:
  assumes "t = dropWhile isspace s" "t \<noteq> []"
  shows "length (dropWhile (\<lambda>c. \<not> isspace c) t) < length s"
proof -
  obtain c u where t: "t = c # u" using assms(2) by (cases t) auto
  have "\<not> isspace c" using assms(1) t by (metis hd_dropWhile list.distinct(1) list.sel(1))
  then have "length (dropWhile (\<lambda>c. \<not> isspace c) t) \<le> length u" using t by (simp add: length_dropWhile_le)
  moreover have "length t \<le> length s" using assms(1) by (simp add: length_dropWhile_le)
  ultimately show ?thesis using t by simp
qed

termination read_ops
proof (relation "measure (\<lambda>(cap, s, st). length s)")
  fix cap s st t w r x y st' r'
  assume "t = dropWhile isspace s" "t \<noteq> []" "w = takeWhile (\<lambda>c. \<not> isspace c) t" "r = dropWhile (\<lambda>c. \<not> isspace c) t"
    "\<not> MAXLINE \<le> length w" "read_op cap (hd w) r st = Inr y" "(st', r') = y"
  then show "((cap, r', st'), (cap, s, st)) \<in> measure (\<lambda>(cap, s, st). length s)"
    using word_consumed[of t s] read_op_rest[of cap "hd w" r st st' r'] by fastforce
qed simp

declare read_ops.simps [simp del]

section \<open>The trace\<close>

type_synonym header = "int option \<times> int option \<times> int option \<times> int option"

definition read_header :: "string \<Rightarrow> c_stop + header \<times> string" where
  "read_header s =
     (case scanf_d s of Inl e \<Rightarrow> Inl e | Inr (sugg, r1) \<Rightarrow>
       (case scanf_d r1 of Inl e \<Rightarrow> Inl e | Inr (ids, r2) \<Rightarrow>
         (case scanf_d r2 of Inl e \<Rightarrow> Inl e | Inr (ops, r3) \<Rightarrow>
           (case scanf_d r3 of Inl e \<Rightarrow> Inl e | Inr (w, r4) \<Rightarrow> Inr ((sugg, ids, ops, w), r4)))))"

text \<open>The part of \<open>read_trace\<close> after the header: the three arrays, the requests and the two assertions.\<close>

definition read_body :: "(nat \<Rightarrow> u32 \<Rightarrow> bool) \<Rightarrow> header \<Rightarrow> string \<Rightarrow> 's driver \<Rightarrow> c_stop + trace \<times> 's driver" where
  "read_body room hdr s d =
     (case hdr of
        (sugg, Some ids, Some ops, w) \<Rightarrow>
          let ops_bytes = of_int ops * 12 :: u32;
              ptr_bytes = of_int ids * 4 :: u32
          in if \<not> room 2 ops_bytes then unix_error ''malloc 2 failed in read_trace'' d
             else if \<not> room 3 ptr_bytes then unix_error ''malloc 3 failed in read_trace'' d
             else if \<not> room 4 ptr_bytes then unix_error ''malloc 4 failed in read_trace'' d
             else
               (case read_ops (unat ops_bytes div 12) s \<lparr>rd_index = 0, rd_size = None, max_index = 0, rd_ops = []\<rparr> of
                  Inl e \<Rightarrow> Inl e
                | Inr st \<Rightarrow>
                    (case int_ok (ids - 1) of
                       Inl e \<Rightarrow> Inl e
                     | Inr lst \<Rightarrow>
                         if max_index st \<noteq> of_int lst then Inl (Aborts ''read_trace'')
                         else if of_int ops \<noteq> (of_nat (length (rd_ops st)) :: u32) then Inl (Aborts ''read_trace'')
                         else Inr (\<lparr>sugg_heapsize = sugg, num_ids = ids, num_ops = ops, trace_weight = w,
                             trace_ops = rd_ops st\<rparr>,
                           d\<lparr>blocks := replicate (unat ptr_bytes div 4) None,
                             block_sizes := replicate (unat ptr_bytes div 4) None\<rparr>)))
      | _ \<Rightarrow> Inl (Undefined ''uninitialised''))"

text \<open>\<open>file\<close> is the text of the file with the path, if it can be opened.\<close>

definition read_trace :: "(nat \<Rightarrow> u32 \<Rightarrow> bool) \<Rightarrow> nat \<Rightarrow> string \<Rightarrow> string \<Rightarrow> string option \<Rightarrow> 's driver
    \<Rightarrow> c_stop + trace \<times> 's driver" where
  "read_trace room verbose tracedir filename file d =
     (let d1 = (if verbose > 1 then d\<lparr>out := out d @ [''Reading tracefile: '' @ filename @ newline]\<rparr> else d);
          path = tracedir @ filename
      in if \<not> room 1 28 then unix_error ''malloc 1 failed in read_trance'' d1
         else if MAXLINE \<le> length path then Inl (Undefined ''strcat'')
         else case file of
             None \<Rightarrow>
               let msg = ''Could not open '' @ path @ '' in read_trace''
               in if MAXLINE \<le> length msg then Inl (Undefined ''sprintf'') else unix_error msg d1
           | Some s \<Rightarrow> (case read_header s of Inl e \<Rightarrow> Inl e | Inr (hdr, r) \<Rightarrow> read_body room hdr r d1))"

text \<open>After \<open>free_trace\<close> the arrays of the trace are gone.\<close>

definition free_trace :: "'s driver \<Rightarrow> 's driver" where
  "free_trace d = d\<lparr>blocks := [], block_sizes := []\<rparr>"

section \<open>Writing a trace\<close>

fun op_text :: "traceop \<Rightarrow> string" where
  "op_text (ALLOC i n) = ''a '' @ int_string i @ '' '' @ int_string n @ newline"
| "op_text (REALLOC i n) = ''r '' @ int_string i @ '' '' @ int_string n @ newline"
| "op_text (FREE i) = ''f '' @ int_string i @ newline"

definition trace_text :: "int \<Rightarrow> int \<Rightarrow> int \<Rightarrow> int \<Rightarrow> traceop list \<Rightarrow> string" where
  "trace_text sugg ids ops w rs = int_string sugg @ newline @ int_string ids @ newline
     @ int_string ops @ newline @ int_string w @ newline @ concat (map op_text rs)"

definition c_int :: "int \<Rightarrow> bool" where
  "c_int i \<longleftrightarrow> 0 \<le> i \<and> i < 2 ^ 31"

fun op_ok :: "traceop \<Rightarrow> bool" where
  "op_ok (ALLOC i n) \<longleftrightarrow> c_int i \<and> c_int n"
| "op_ok (REALLOC i n) \<longleftrightarrow> c_int i \<and> c_int n"
| "op_ok (FREE i) \<longleftrightarrow> c_int i"

fun top_id :: "int \<Rightarrow> traceop list \<Rightarrow> int" where
  "top_id m [] = m"
| "top_id m (ALLOC i n # rs) = top_id (max m i) rs"
| "top_id m (REALLOC i n # rs) = top_id (max m i) rs"
| "top_id m (FREE i # rs) = top_id m rs"

section \<open>Reading what was written\<close>

lemma digit_no_space: "isdigit c \<Longrightarrow> \<not> isspace c \<and> c \<noteq> CHR ''-'' \<and> c \<noteq> CHR ''+''"
  by (auto simp: isdigit_def isspace_def)

lemma spaces [simp]: "isspace (CHR '' '')" "\<not> isdigit (CHR '' '')" "c \<in> set newline \<Longrightarrow> isspace c"
    "newline \<noteq> []" "\<not> isdigit (hd newline)" "\<not> isdigit (hd (newline @ r))"
  by (auto simp: isspace_def isdigit_def newline_def)

lemma newline_no_d [simp]: "hd newline \<noteq> CHR ''d''"
proof
  assume "hd newline = CHR ''d''"
  from arg_cong[OF this, of "of_char :: char \<Rightarrow> nat"] show False by (simp add: newline_def)
qed

lemma scan_number_digits:
  assumes "0 \<le> i" "\<forall>c \<in> set ws. isspace c" "r = [] \<or> \<not> isdigit (hd r)"
  shows "scan_number (ws @ int_string i @ r) = (Some i, r)"
proof -
  let ?ds = "nat_digits (nat i)"
  have ne: "?ds \<noteq> []" by (subst nat_digits.simps) simp
  then obtain c cs where e: "?ds = c # cs" by (cases ?ds) auto
  have c: "isdigit c" using nat_digits_isdigit[of "nat i"] e by simp
  have "dropWhile isspace (ws @ int_string i @ r) = ?ds @ r"
    using assms(1,2) digit_no_space[OF c] e by (simp add: int_string_def dropWhile_append2)
  moreover have "takeWhile isdigit (?ds @ r) = ?ds" "dropWhile isdigit (?ds @ r) = r"
    using nat_digits_isdigit[of "nat i"] assms(3) by (cases r; simp add: takeWhile_append2 dropWhile_append2)+
  ultimately show ?thesis
    using digit_no_space[OF c] e digits_value_nat_digits[of "nat i"] assms(1) by (simp add: scan_number_def Let_def)
qed

lemma scanf_digits:
  assumes "c_int i" "\<forall>c \<in> set ws. isspace c" "r = [] \<or> \<not> isdigit (hd r)"
  shows "scanf_d (ws @ int_string i @ r) = Inr (Some i, r)" "scanf_u (ws @ int_string i @ r) = Inr (Some (of_int i), r)"
  using scan_number_digits[OF _ assms(2,3), of i] assms(1) by (simp_all add: scanf_d_def scanf_u_def c_int_def)

lemma sint_c_int: "c_int i \<Longrightarrow> sint (of_int i :: u32) = i"
  using sint_of_nat_u32[of "nat i"] unfolding c_int_def by (auto simp: nat_less_iff)

lemma c_int_less: "c_int i \<Longrightarrow> c_int j \<Longrightarrow> (of_int i :: u32) < of_int j \<longleftrightarrow> i < j"
  using of_nat_less_iff_u32[of "nat i" "nat j"] by (auto simp: c_int_def)

lemma scan_index_size_text:
  assumes "c_int i" "c_int n"
  shows "scan_index_size ('' '' @ int_string i @ '' '' @ int_string n @ newline @ r) st
    = Inr (st\<lparr>rd_index := of_int i, rd_size := Some (of_int n)\<rparr>, newline @ r)"
proof -
  have "scanf_u ('' '' @ int_string i @ '' '' @ int_string n @ newline @ r)
      = Inr (Some (of_int i), '' '' @ int_string n @ newline @ r)"
    "scanf_u ('' '' @ int_string n @ newline @ r) = Inr (Some (of_int n), newline @ r)"
    by (rule scanf_digits; use assms in simp)+
  then show ?thesis by (simp add: scan_index_size_def)
qed

lemma scan_ud_text:
  assumes "c_int i"
  shows "scan_ud ('' '' @ int_string i @ newline @ r) st = Inr (st\<lparr>rd_index := of_int i\<rparr>, newline @ r)"
proof -
  have "scanf_u ('' '' @ int_string i @ newline @ r) = Inr (Some (of_int i), newline @ r)"
    by (rule scanf_digits; use assms in simp)
  then show ?thesis by (simp add: scan_ud_def)
qed

lemma put_sized_ok:
  assumes "length (rd_ops st) < cap" "max_index st = of_int m" "c_int m" "c_int i" "c_int n"
  shows "put_sized cap typ (st\<lparr>rd_index := of_int i, rd_size := Some (of_int n)\<rparr>)
    = Inr (st\<lparr>rd_index := of_int i, rd_size := Some (of_int n), rd_ops := rd_ops st @ [typ i n],
        max_index := of_int (max m i)\<rparr>)"
proof -
  have "(if max_index st < of_int i then of_int i else max_index st) = (of_int (max m i) :: u32)"
    unfolding assms(2) c_int_less[OF assms(3,4)] by (simp add: max_def)
  then show ?thesis using assms(1) sint_c_int[OF assms(4)] sint_c_int[OF assms(5)]
    by (auto simp: put_sized_def put_op_def split: if_splits)
qed

text \<open>One request: the letter, and what follows it on the line.\<close>

fun op_letter :: "traceop \<Rightarrow> char" where
  "op_letter (ALLOC i n) = CHR ''a''"
| "op_letter (REALLOC i n) = CHR ''r''"
| "op_letter (FREE i) = CHR ''f''"

lemma op_text_letter: "op_text q = op_letter q # CHR '' '' # tl (tl (op_text q))" "\<not> isspace (op_letter q)"
  by (cases q; simp add: isspace_def)+

lemma read_op_text:
  assumes "op_ok q" "length (rd_ops st) < cap" "max_index st = of_int m" "c_int m"
  shows "\<exists>st'. read_op cap (op_letter q) (tl (op_text q) @ r) st = Inr (st', newline @ r)
    \<and> rd_ops st' = rd_ops st @ [q] \<and> max_index st' = of_int (top_id m [q]) \<and> c_int (top_id m [q])"
proof (cases q)
  case (ALLOC i n)
  then have c: "c_int i" "c_int n" using assms(1) by simp_all
  have "c_int (max m i)" using assms(4) c(1) by (simp add: c_int_def max_def)
  then show ?thesis
    using scan_index_size_text[OF c, of r st] put_sized_ok[OF assms(2-4) c, of ALLOC] by (simp add: ALLOC read_op_def)
next
  case (REALLOC i n)
  then have c: "c_int i" "c_int n" using assms(1) by simp_all
  have "c_int (max m i)" using assms(4) c(1) by (simp add: c_int_def max_def)
  then show ?thesis
    using scan_index_size_text[OF c, of r st] put_sized_ok[OF assms(2-4) c, of REALLOC] by (simp add: REALLOC read_op_def)
next
  case (FREE i)
  then show ?thesis
    using scan_ud_text[of i r st] sint_c_int[of i] assms by (simp add: read_op_def put_op_def)
qed

lemma read_ops_text:
  assumes "\<forall>q \<in> set rs. op_ok q" "length (rd_ops st) + length rs \<le> cap" "max_index st = of_int m" "c_int m"
    and "\<forall>c \<in> set ws. isspace c"
  shows "\<exists>st'. read_ops cap (ws @ concat (map op_text rs)) st = Inr st'
    \<and> rd_ops st' = rd_ops st @ rs \<and> max_index st' = of_int (top_id m rs)"
  using assms
proof (induction rs arbitrary: st m ws)
  case Nil
  then show ?case by (subst read_ops.simps) (simp add: dropWhile_eq_Nil_conv[THEN iffD2])
next
  case (Cons q rs)
  let ?r = "concat (map op_text rs)"
  have "op_ok q" "length (rd_ops st) < cap" using Cons.prems by auto
  from read_op_text[OF this Cons.prems(3,4), of ?r] obtain st1 where o:
    "read_op cap (op_letter q) (tl (op_text q) @ ?r) st = Inr (st1, newline @ ?r)"
    "rd_ops st1 = rd_ops st @ [q]" "max_index st1 = of_int (top_id m [q])" "c_int (top_id m [q])" by blast
  define c where "c = op_letter q"
  define u where "u = tl (op_text q) @ ?r"
  have c: "\<not> isspace c" by (simp add: c_def op_text_letter(2))
  obtain v where u: "u = CHR '' '' # v" using op_text_letter(1)[of q] unfolding u_def by (metis append_Cons list.sel(3))
  have e: "ws @ concat (map op_text (q # rs)) = ws @ c # u"
    using op_text_letter(1)[of q] unfolding u_def c_def by (metis append_Cons concat.simps(2) list.sel(3) list.simps(9))
  have d: "dropWhile isspace (ws @ c # u) = c # u" using Cons.prems(5) c by (simp add: dropWhile_append2)
  have w: "takeWhile (\<lambda>c. \<not> isspace c) (c # u) = [c]" "dropWhile (\<lambda>c. \<not> isspace c) (c # u) = u"
    using c u by simp_all
  have step: "read_ops cap (ws @ c # u) st = read_ops cap (newline @ ?r) st1"
    unfolding read_ops.simps[of cap "ws @ c # u"] d Let_def w using o(1) by (simp add: MAXLINE_def u_def c_def)
  have "top_id (top_id m [q]) rs = top_id m (q # rs)" by (cases q) simp_all
  moreover have "\<exists>st'. read_ops cap (newline @ ?r) st1 = Inr st'
    \<and> rd_ops st' = rd_ops st1 @ rs \<and> max_index st' = of_int (top_id (top_id m [q]) rs)"
    using Cons.prems o(2-4) by (intro Cons.IH) auto
  ultimately show ?case unfolding e step using o(2) by simp
qed

lemma read_header_text:
  assumes "c_int sugg" "c_int ids" "c_int ops" "c_int w"
  shows "read_header (int_string sugg @ newline @ int_string ids @ newline @ int_string ops @ newline @ int_string w @ newline @ r)
    = Inr ((Some sugg, Some ids, Some ops, Some w), newline @ r)"
proof -
  have "scanf_d (newline @ int_string w @ newline @ r) = Inr (Some w, newline @ r)"
    "scanf_d (newline @ int_string ops @ newline @ int_string w @ newline @ r)
      = Inr (Some ops, newline @ int_string w @ newline @ r)"
    "scanf_d (newline @ int_string ids @ newline @ int_string ops @ newline @ int_string w @ newline @ r)
      = Inr (Some ids, newline @ int_string ops @ newline @ int_string w @ newline @ r)"
    by (rule scanf_digits; use assms in simp)+
  moreover have "scanf_d ([] @ int_string sugg @ newline @ int_string ids @ newline @ int_string ops @ newline @ int_string w @ newline @ r)
      = Inr (Some sugg, newline @ int_string ids @ newline @ int_string ops @ newline @ int_string w @ newline @ r)"
    by (rule scanf_digits; use assms in simp)
  ultimately show ?thesis by (simp add: read_header_def)
qed

text \<open>What a file of the lab satisfies: \<open>num_ops\<close> counts the requests, \<open>num_ids\<close> is one more than the largest
  index that is allocated, and the arrays fit into the address space.\<close>

definition trace_file_ok :: "int \<Rightarrow> int \<Rightarrow> int \<Rightarrow> int \<Rightarrow> traceop list \<Rightarrow> bool" where
  "trace_file_ok sugg ids ops w rs \<longleftrightarrow> c_int sugg \<and> c_int w \<and> (\<forall>q \<in> set rs. op_ok q)
     \<and> ops = int (length rs) \<and> ops * 12 < 2 ^ 32 \<and> ids = top_id 0 rs + 1 \<and> 0 < ids \<and> ids * 4 < 2 ^ 32"

lemma read_trace_written:
  assumes t: "trace_file_ok sugg ids ops w rs" and room: "\<forall>k n. room k n" and p: "length (tracedir @ filename) < MAXLINE"
  shows "read_trace room 0 tracedir filename (Some (trace_text sugg ids ops w rs)) d
    = Inr (\<lparr>sugg_heapsize = Some sugg, num_ids = ids, num_ops = ops, trace_weight = Some w, trace_ops = rs\<rparr>,
        d\<lparr>blocks := replicate (nat ids) None, block_sizes := replicate (nat ids) None\<rparr>)"
proof -
  have c: "c_int sugg" "c_int ids" "c_int ops" "c_int w" "c_int 0"
    and rs: "\<forall>q \<in> set rs. op_ok q" and n: "ops = int (length rs)" "ids = top_id 0 rs + 1" "0 < ids" "ids * 4 < 2 ^ 32" "length rs * 12 < 2 ^ 32"
    using t by (auto simp: trace_file_ok_def c_int_def)
  have "(of_int ops * 12 :: u32) = of_nat (length rs * 12)" using n(1) by simp
  then have ob: "unat (of_int ops * 12 :: u32) = length rs * 12" using unat_of_nat_u32[OF n(5)] by simp
  have "(of_int ids * 4 :: u32) = of_nat (nat ids * 4)" using n(3) by simp
  moreover have "nat ids * 4 < 2 ^ 32" using n(4) by simp
  ultimately have pb: "unat (of_int ids * 4 :: u32) = nat ids * 4" using unat_of_nat_u32 by metis
  let ?st = "\<lparr>rd_index = 0, rd_size = None, max_index = 0, rd_ops = []\<rparr>"
  have "\<exists>st'. read_ops (length rs) (newline @ concat (map op_text rs)) ?st = Inr st'
    \<and> rd_ops st' = rd_ops ?st @ rs \<and> max_index st' = of_int (top_id 0 rs)"
    by (rule read_ops_text[OF rs]) (use c in simp_all)
  then obtain st' where st': "read_ops (length rs) (newline @ concat (map op_text rs)) ?st = Inr st'"
    "rd_ops st' = rs" "max_index st' = of_int (top_id 0 rs)" by auto
  have i: "int_ok (ids - 1) = Inr (top_id 0 rs)" using n(2,3) c(2) by (simp add: int_ok_def c_int_def)
  have "read_body room (Some sugg, Some ids, Some ops, Some w) (newline @ concat (map op_text rs)) d
    = Inr (\<lparr>sugg_heapsize = Some sugg, num_ids = ids, num_ops = ops, trace_weight = Some w, trace_ops = rs\<rparr>,
        d\<lparr>blocks := replicate (nat ids) None, block_sizes := replicate (nat ids) None\<rparr>)"
    using room ob pb st' i n(1) by (simp add: read_body_def Let_def)
  then show ?thesis
    using room p read_header_text[OF c(1-4), of "concat (map op_text rs)"]
    by (simp add: read_trace_def trace_text_def Let_def)
qed

text \<open>C23. Round trip: \<open>read_trace\<close> of a file written in the format of the lab returns the trace it was written
  from, with arrays of \<open>num_ids\<close> elements; both assertions hold.\<close>

theorem read_trace_roundtrip:
  assumes "trace_file_ok sugg ids ops w rs" "\<forall>k n. room k n" "length (tracedir @ filename) < MAXLINE"
  shows "read_trace room 0 tracedir filename (Some (trace_text sugg ids ops w rs)) d
    = Inr (\<lparr>sugg_heapsize = Some sugg, num_ids = ids, num_ops = ops, trace_weight = Some w, trace_ops = rs\<rparr>,
        d\<lparr>blocks := replicate (nat ids) None, block_sizes := replicate (nat ids) None\<rparr>)"
  by (rule read_trace_written[OF assms])

theorem read_trace_roundtrip_witness:
  "\<exists>d. read_trace (\<lambda>_ _. True) 0 ''./'' ''short1-bal.rep''
       (Some (trace_text 20000 2 4 1 [ALLOC 0 2040, ALLOC 1 48, REALLOC 1 64, FREE 0])) (idle_driver start_mm 0)
     = Inr (\<lparr>sugg_heapsize = Some 20000, num_ids = 2, num_ops = 4, trace_weight = Some 1,
          trace_ops = [ALLOC 0 2040, ALLOC 1 48, REALLOC 1 64, FREE 0]\<rparr>, d)"
  by (subst read_trace_roundtrip) (simp_all add: trace_file_ok_def c_int_def MAXLINE_def)

end
