(* ===== verification/Driver_Speed.thy ===== *)
theory Driver_Speed
  imports Driver_Util
begin

text \<open>
  Whole runs of \<open>eval_mm_speed\<close>: on a trace whose requests make sense the timed run of an allocator that
  keeps the contract ends, with the memory region as it was, or ends the program for want of memory.
\<close>

definition pointed :: "table \<Rightarrow> 's driver \<Rightarrow> bool" where
  "pointed M d \<longleftrightarrow> length (block_sizes d) = length (blocks d) \<and> one_index M
     \<and> (\<forall>i p n k. M i = Some (p, n, k) \<longrightarrow> i < length (blocks d) \<and> blocks d ! i = Some (of_nat p))"

definition speeding :: "('x memsys_scheme \<Rightarrow> nat \<Rightarrow> (nat \<times> nat) set \<Rightarrow> bool) \<Rightarrow> nat \<Rightarrow> table
    \<Rightarrow> ('x memsys_scheme) driver \<Rightarrow> bool" where
  "speeding J lo M d \<longleftrightarrow> J (heap d) lo (live_of M) \<and> pointed M d"

text \<open>One request ends the program for want of memory, or leaves a state of the same kind.\<close>

definition speed_step :: "('x memsys_scheme \<Rightarrow> nat \<Rightarrow> (nat \<times> nat) set \<Rightarrow> bool) \<Rightarrow> nat \<Rightarrow> nat set
    \<Rightarrow> ('x memsys_scheme) driver \<Rightarrow> c_stop + ('x memsys_scheme) driver \<Rightarrow> bool" where
  "speed_step J lo S d r \<longleftrightarrow> r = Inl (Exits 1)
     \<or> (\<exists>d' M. r = Inr d' \<and> speeding J lo M d' \<and> dom M = S \<and> quiet d d')"

lemma pointed_remove: "pointed M d \<Longrightarrow> pointed (M(i := None)) d"
  by (auto simp: pointed_def one_index_remove)

lemma pointed_set_block:
  assumes "pointed M d" "i < length (blocks d)" "\<forall>j. (p, j) \<notin> live_of (M(i := None))"
  shows "\<exists>d'. set_block (int i) (of_nat p) (d\<lparr>heap := h\<rparr>) = Inr d' \<and> pointed (M(i \<mapsto> (p, n, k))) d'
    \<and> heap d' = h \<and> quiet d d'"
  using assms one_index_update[OF _ assms(3), of n k]
  by (auto simp: pointed_def set_block_def nth_list_update quiet_def)

context driver_client
begin

lemma speed_alloc_step:
  assumes D: "speeding inv lo M d" and M: "M i = None" "i < length (blocks d)" and n: "request lo n"
  shows "speed_step inv lo (insert i (dom M)) d (speed_op app_error ops (ALLOC (int i) (int n)) d)"
proof -
  have I: "inv (heap d) lo (live_of M)" and P: "pointed M d" using D by (simp_all add: speeding_def)
  from malloc_inv[OF I n] show ?thesis
  proof (elim disjE exE conjE)
    fix h assume "op_malloc ops (of_nat n) (heap d) = Inr (0, h)"
    then show ?thesis by (simp add: speed_step_def speed_op_def app_error_def)
  next
    fix p k h
    assume a: "op_malloc ops (of_nat n) (heap d) = Inr (of_nat p, h)" "inv h lo (insert (p, k) (live_of M))"
      "\<forall>j. (p, j) \<notin> live_of M"
    have "M(i := None) = M" using M(1) by auto
    with pointed_set_block[OF P M(2), of p h n k] a(3) obtain d' where d':
      "set_block (int i) (of_nat p) (d\<lparr>heap := h\<rparr>) = Inr d'" "pointed (M(i \<mapsto> (p, n, k))) d'" "heap d' = h" "quiet d d'"
      by auto
    have "speeding inv lo (M(i \<mapsto> (p, n, k))) d'"
      using a(2) d'(2,3) live_of_update[of M i p n k] M(1) by (simp add: speeding_def)
    moreover have "speed_op app_error ops (ALLOC (int i) (int n)) d = Inr d'"
      using a(1) d'(1) live_bounds(4)[OF a(2) insertI1] by (simp add: speed_op_def)
    ultimately show ?thesis unfolding speed_step_def using d'(4) dom_update(1) by metis
  qed
qed

lemma speed_free_step:
  assumes D: "speeding inv lo M d" and M: "i \<in> dom M"
  shows "speed_step inv lo (dom M - {i}) d (speed_op app_error ops (FREE (int i)) d)"
proof -
  have I: "inv (heap d) lo (live_of M)" and P: "pointed M d" using D by (simp_all add: speeding_def)
  obtain p n k where E: "M i = Some (p, n, k)" using M by auto
  have L: "(p, k) \<in> live_of M" using E by (auto simp: live_of_def)
  have one: "one_index M" using P by (simp add: pointed_def)
  let ?d = "d\<lparr>heap := op_free ops (of_nat p) (heap d)\<rparr>"
  have "get_at (blocks d) (int i) = Inr (of_nat p)" using P E by (auto simp: pointed_def get_at_def)
  then have "speed_op app_error ops (FREE (int i)) d = Inr ?d" by (simp add: speed_op_def)
  moreover have "speeding inv lo (M(i := None)) ?d"
    using free_inv[OF I L] live_of_remove[OF E one] pointed_remove[OF P, of i] by (simp add: speeding_def pointed_def)
  moreover have "quiet d ?d" by (simp add: quiet_def)
  ultimately show ?thesis unfolding speed_step_def using dom_update(2) by metis
qed

text \<open>What is known of the \<open>REALLOC\<close> requests, if there are any.\<close>

definition speed_realloc_fine :: "nat \<Rightarrow> bool" where
  "speed_realloc_fine lo \<longleftrightarrow> (\<forall>M d i n. speeding inv lo M d \<longrightarrow> i \<in> dom M \<longrightarrow> request lo n \<longrightarrow>
     speed_step inv lo (dom M) d (speed_op app_error ops (REALLOC (int i) (int n)) d))"

lemma speed_ops_run:
  assumes "speeding inv lo M d" "trace_ok (request lo) (length (blocks d)) (dom M) rs"
    and R: "low_ids 0 rs \<or> speed_realloc_fine lo"
  shows "speed_ops app_error ops rs d = Inl (Exits 1)
    \<or> (\<exists>d'. speed_ops app_error ops rs d = Inr d' \<and> quiet d d' \<and> ready lo d')"
  using assms
proof (induction rs arbitrary: M d)
  case Nil
  then have "ready lo d" using inv_arena[of "heap d" lo "live_of M"] by (simp add: speeding_def pointed_def ready_def)
  then show ?case by (simp add: quiet_def)
next
  case (Cons r rs)
  note T = trace_ok_after[OF Cons.prems(2)]
  have "speed_step inv lo (trace_after (dom M) r) d (speed_op app_error ops r d)"
  proof (cases r)
    case (ALLOC i n)
    then have c: "int (nat i) = i" "int (nat n) = n" "M (nat i) = None" "nat i < length (blocks d)"
      "request lo (nat n)" using Cons.prems(2) by auto
    from speed_alloc_step[OF Cons.prems(1) c(3-5)] c(1,2) show ?thesis by (simp add: ALLOC trace_after_def)
  next
    case (FREE i)
    then have c: "int (nat i) = i" "nat i \<in> dom M" using Cons.prems(2) by auto
    from speed_free_step[OF Cons.prems(1) c(2)] c(1) show ?thesis by (simp add: FREE trace_after_def)
  next
    case (REALLOC i n)
    then have c: "int (nat i) = i" "int (nat n) = n" "nat i \<in> dom M" "request lo (nat n)" using Cons.prems(2) by auto
    have "speed_realloc_fine lo" using Cons.prems(3) by (auto simp: REALLOC low_ids_Cons)
    then have "speed_step inv lo (dom M) d (speed_op app_error ops (REALLOC (int (nat i)) (int (nat n))) d)"
      using Cons.prems(1) c(3,4) unfolding speed_realloc_fine_def by blast
    with c(1,2) show ?thesis by (simp add: REALLOC trace_after_def)
  qed
  then show ?case unfolding speed_step_def
  proof (elim disjE exE conjE)
    fix d' M' assume s: "speed_op app_error ops r d = Inr d'" "speeding inv lo M' d'" "dom M' = trace_after (dom M) r"
      "quiet d d'"
    have R': "low_ids 0 rs \<or> speed_realloc_fine lo" using Cons.prems(3) by (auto simp: low_ids_Cons)
    have "trace_ok (request lo) (length (blocks d')) (dom M') rs" using T s(3,4) by (simp add: quiet_def)
    from Cons.IH[OF s(2) this R'] show ?thesis using quiet_trans[OF s(4)] by (auto simp: s(1))
  qed simp
qed

lemma eval_mm_speed_run:
  assumes d: "ready lo d" and t: "trace_ok (request lo) (length (blocks d)) {} (trace_ops tr)"
    and R: "low_ids 0 (trace_ops tr) \<or> speed_realloc_fine lo"
  shows "eval_mm_speed ops tr d = Inl (Exits 1) \<or> (\<exists>d'. eval_mm_speed ops tr d = Inr d' \<and> quiet d d' \<and> ready lo d')"
proof -
  obtain u where "arena (heap d) lo u" using d by (auto simp: ready_def)
  note i = init_inv[OF arena_reset_brk[OF this]]
  let ?d = "d\<lparr>heap := snd (op_init ops (mem_reset_brk (heap d)))\<rparr>"
  have s: "speeding inv lo (\<lambda>_. None) ?d" using i d by (simp add: speeding_def pointed_def one_index_def ready_def)
  have "trace_ok (request lo) (length (blocks ?d)) (dom (\<lambda>_. None :: (nat \<times> nat \<times> nat) option)) (trace_ops tr)"
    using t by simp
  from speed_ops_run[OF s this R]
  have "speed_ops app_error ops (trace_ops tr) ?d = Inl (Exits 1)
    \<or> (\<exists>d'. speed_ops app_error ops (trace_ops tr) ?d = Inr d' \<and> quiet d d' \<and> ready lo d')" by (simp add: quiet_def)
  moreover have "eval_mm_speed ops tr d = speed_ops app_error ops (trace_ops tr) ?d"
    using i by (simp add: eval_mm_speed_def Let_def split_beta)
  ultimately show ?thesis by simp
qed

end

context realloc_client
begin

lemma speed_realloc_step: "speed_realloc_fine lo"
  unfolding speed_realloc_fine_def
proof (intro allI impI)
  fix M d i n assume D: "speeding inv lo M d" and M: "i \<in> dom M" and n: "request lo n"
  have I: "inv (heap d) lo (live_of M)" and P: "pointed M d" using D by (simp_all add: speeding_def)
  obtain p m k where E: "M i = Some (p, m, k)" using M by auto
  have L: "(p, k) \<in> live_of M" using E by (auto simp: live_of_def)
  have one: "one_index M" using P by (simp add: pointed_def)
  have g: "get_at (blocks d) (int i) = Inr (of_nat p)" "i < length (blocks d)"
    using P E by (auto simp: pointed_def get_at_def)
  let ?M = "M(i := None)"
  from realloc_inv[OF I L n, folded live_of_remove[OF E one]]
  show "speed_step inv lo (dom M) d (speed_op app_error ops (REALLOC (int i) (int n)) d)"
  proof (elim disjE exE conjE)
    assume "op_realloc ops (of_nat p) (of_nat n) (heap d) = Inl (Exits 1)"
    then show ?thesis using g(1) by (simp add: speed_step_def speed_op_def)
  next
    fix q j h
    assume a: "op_realloc ops (of_nat p) (of_nat n) (heap d) = Inr (of_nat q, h)" "inv h lo (insert (q, j) (live_of ?M))"
      "\<forall>l. (q, l) \<notin> live_of ?M"
    have "?M(i := None) = ?M" by simp
    with pointed_set_block[OF pointed_remove[OF P, of i] g(2), of q h n j] a(3) obtain d' where d':
      "set_block (int i) (of_nat q) (d\<lparr>heap := h\<rparr>) = Inr d'" "pointed (?M(i \<mapsto> (q, n, j))) d'" "heap d' = h" "quiet d d'"
      by auto
    have "speeding inv lo (?M(i \<mapsto> (q, n, j))) d'"
      using a(2) d'(2,3) live_of_update[of ?M i q n j] by (simp add: speeding_def)
    moreover have "speed_op app_error ops (REALLOC (int i) (int n)) d = Inr d'"
      using a(1) d'(1) g(1) live_bounds(4)[OF a(2) insertI1] by (simp add: speed_op_def)
    moreover have "dom (?M(i \<mapsto> (q, n, j))) = dom M" using M by (auto simp only: dom_update)
    ultimately show ?thesis unfolding speed_step_def using d'(4) by blast
  qed
qed

end

end
