(* ===== verification/Driver_Main.thy ===== *)
theory Driver_Main
  imports Driver_Trace Driver_Speed
begin

text \<open>
  The \<open>main\<close> of \<^verbatim>\<open>mdriver.c\<close>: its options, the check of the team's data, the runs over all trace files with the
  timer of \<^verbatim>\<open>ftimer.c\<close> that \<^verbatim>\<open>config.h\<close> selects, the tables and the performance index. Numbers that the code
  keeps in a \<open>double\<close> are exact; a quotient by zero is \<open>None\<close>. A table is its rows instead of the printed text.
  The files, the failures of the C library's \<open>malloc\<close> and the clock are the argument \<open>host\<close>.
\<close>

section \<open>Timing\<close>

type_synonym timeval = "int \<times> int"

text \<open>The loop that calls the function \<open>n\<close> times, and the average time of a call in seconds.\<close>

fun call_n :: "nat \<Rightarrow> ('d \<Rightarrow> c_stop + 'd) \<Rightarrow> 'd \<Rightarrow> c_stop + 'd" where
  "call_n 0 f d = Inr d"
| "call_n (Suc n) f d = (case f d of Inl e \<Rightarrow> Inl e | Inr d' \<Rightarrow> call_n n f d')"

definition ftimer_gettod :: "timeval \<times> timeval \<Rightarrow> ('d \<Rightarrow> c_stop + 'd) \<Rightarrow> nat \<Rightarrow> 'd \<Rightarrow> c_stop + rat \<times> 'd" where
  "ftimer_gettod clock f n d =
     (case call_n n f d of
        Inl e \<Rightarrow> Inl e
      | Inr d' \<Rightarrow>
          let (stv, etv) = clock;
              diff = 1000 * of_int (fst etv - fst stv) + of_int (snd etv - snd stv) / 1000;
              diff = diff / of_nat n
          in Inr (diff / 1000, d'))"

definition fsecs :: "timeval \<times> timeval \<Rightarrow> ('d \<Rightarrow> c_stop + 'd) \<Rightarrow> 'd \<Rightarrow> c_stop + rat \<times> 'd" where
  "fsecs clock f d = ftimer_gettod clock f 10 d"

definition init_fsecs :: "nat \<Rightarrow> 's driver \<Rightarrow> 's driver" where
  "init_fsecs verbose d =
     (if verbose > 0 then d\<lparr>out := out d @ [''Measuring performance with gettimeofday().'' @ newline]\<rparr> else d)"

section \<open>Options and team\<close>

definition TRACEDIR :: string where "TRACEDIR = ''/labs/sty15/data/traces/''"

definition default_tracefiles :: "string list" where
  "default_tracefiles = [''amptjp-bal.rep'', ''cccp-bal.rep'', ''cp-decl-bal.rep'', ''expr-bal.rep'',
     ''coalescing-bal.rep'', ''random-bal.rep'', ''random2-bal.rep'', ''binary-bal.rep'', ''binary2-bal.rep'',
     ''realloc-bal.rep'', ''realloc2-bal.rep'']"

record options =
  tracefile :: "string option"
  tracedir :: string
  team_check :: bool
  run_libc :: bool
  autograder :: bool
  verbosity :: nat

definition start_options :: options where
  "start_options = \<lparr>tracefile = None, tracedir = TRACEDIR, team_check = True, run_libc = False, autograder = False,
     verbosity = 0\<rparr>"

text \<open>The loop over what \<open>getopt\<close> found, each option with its argument; \<open>room\<close> says whether \<open>realloc\<close> succeeds;
  \<open>strdup\<close> is assumed to.\<close>

fun read_options :: "bool \<Rightarrow> (char \<times> string) list \<Rightarrow> options \<Rightarrow> c_stop + options" where
  "read_options room [] p = Inr p"
| "read_options room ((c, optarg) # cs) p =
     (if c = CHR ''g'' then read_options room cs (p\<lparr>autograder := True\<rparr>)
      else if c = CHR ''f'' then
        (if room then read_options room cs (p\<lparr>tracedir := ''./'', tracefile := Some optarg\<rparr>) else Inl (Exits 1))
      else if c = CHR ''t'' then
        (if tracefile p \<noteq> None then read_options room cs p
         else if MAXLINE \<le> length optarg then Inl (Undefined ''strcpy'')
         else if optarg = [] then Inl (Undefined ''array index'')
         else if last optarg = CHR ''/'' then read_options room cs (p\<lparr>tracedir := optarg\<rparr>)
         else if MAXLINE \<le> length optarg + 1 then Inl (Undefined ''strcat'')
         else read_options room cs (p\<lparr>tracedir := optarg @ ''/''\<rparr>))
      else if c = CHR ''a'' then read_options room cs (p\<lparr>team_check := False\<rparr>)
      else if c = CHR ''l'' then read_options room cs (p\<lparr>run_libc := True\<rparr>)
      else if c = CHR ''v'' then read_options room cs (p\<lparr>verbosity := 1\<rparr>)
      else if c = CHR ''V'' then read_options room cs (p\<lparr>verbosity := 2\<rparr>)
      else if c = CHR ''h'' then Inl (Exits 0)
      else Inl (Exits 1))"

record team =
  teamname :: string
  name1 :: string
  id1 :: string
  name2 :: string
  id2 :: string
  name3 :: string
  id3 :: string

definition say :: "string \<Rightarrow> 's driver \<Rightarrow> 's driver" where
  "say t d = d\<lparr>out := out d @ [t]\<rparr>"

definition check_team :: "team \<Rightarrow> 's driver \<Rightarrow> c_stop + 's driver" where
  "check_team t d =
     (if teamname t = [] then Inl (Exits 1)
      else
        let d1 = say (''Team Name:'' @ teamname t @ newline) d
        in if name1 t = [] \<or> id1 t = [] then Inl (Exits 1)
           else
             let d2 = say (''Member 1 :'' @ name1 t @ '':'' @ id1 t @ newline) d1
             in if name2 t \<noteq> [] \<and> id2 t = [] \<or> name2 t = [] \<and> id2 t \<noteq> [] then Inl (Exits 1)
                else
                  let d3 = (if name2 t \<noteq> [] then say (''Member 2 :'' @ name2 t @ '':'' @ id2 t @ newline) d2 else d2)
                  in if name3 t \<noteq> [] \<and> id3 t = [] \<or> name3 t = [] \<and> id3 t \<noteq> [] then Inl (Exits 1)
                     else Inr (if name3 t \<noteq> [] then say (''Member 3 :'' @ name3 t @ '':'' @ id3 t @ newline) d3 else d3))"

section \<open>The runs over the trace files\<close>

text \<open>\<open>calloc\<close> makes every field zero.\<close>

record stats =
  stat_ops :: int
  stat_valid :: bool
  stat_secs :: rat
  stat_util :: rat

text \<open>For the run number \<open>i\<close> over the traces: the text of a file by its path, whether the calls of \<open>malloc\<close> in
  \<open>read_trace\<close> succeed, and the clock before and after the timed runs.\<close>

record host =
  file_text :: "string \<Rightarrow> string option"
  file_room :: "nat \<Rightarrow> nat \<Rightarrow> u32 \<Rightarrow> bool"
  clock :: "nat \<Rightarrow> timeval \<times> timeval"

definition chat :: "nat \<Rightarrow> string \<Rightarrow> 's driver \<Rightarrow> 's driver" where
  "chat verbose t d = (if verbose > 1 then say t d else d)"

definition mm_trace :: "host \<Rightarrow> ('x memsys_scheme) alloc_ops \<Rightarrow> nat \<Rightarrow> string \<Rightarrow> nat \<Rightarrow> string \<Rightarrow> ('x memsys_scheme) driver
    \<Rightarrow> c_stop + stats \<times> ('x memsys_scheme) driver" where
  "mm_trace h A verbose dir i name d =
     (case read_trace (file_room h i) verbose dir name (file_text h (dir @ name)) d of
        Inl e \<Rightarrow> Inl e
      | Inr (tr, d1) \<Rightarrow>
          (case eval_mm_valid A tr (int i) (chat verbose ''Checking mm_malloc for correctness, '' d1) of
             Inl e \<Rightarrow> Inl e
           | Inr (valid, d2) \<Rightarrow>
               if \<not> valid then
                 Inr (\<lparr>stat_ops = num_ops tr, stat_valid = False, stat_secs = 0, stat_util = 0\<rparr>, free_trace d2)
               else
                 (case eval_mm_util A tr (chat verbose ''efficiency, '' d2) of
                    Inl e \<Rightarrow> Inl e
                  | Inr (util, d3) \<Rightarrow>
                      (case fsecs (clock h i) (eval_mm_speed A tr) (chat verbose (''and performance.'' @ newline) d3) of
                         Inl e \<Rightarrow> Inl e
                       | Inr (secs, d4) \<Rightarrow>
                           Inr (\<lparr>stat_ops = num_ops tr, stat_valid = True, stat_secs = secs, stat_util = util\<rparr>,
                             free_trace d4)))))"

fun mm_traces :: "host \<Rightarrow> ('x memsys_scheme) alloc_ops \<Rightarrow> nat \<Rightarrow> string \<Rightarrow> nat \<Rightarrow> string list \<Rightarrow> ('x memsys_scheme) driver
    \<Rightarrow> c_stop + stats list \<times> ('x memsys_scheme) driver" where
  "mm_traces h A verbose dir i [] d = Inr ([], d)"
| "mm_traces h A verbose dir i (name # names) d =
     (case mm_trace h A verbose dir i name d of
        Inl e \<Rightarrow> Inl e
      | Inr (st, d1) \<Rightarrow>
          (case mm_traces h A verbose dir (Suc i) names d1 of Inl e \<Rightarrow> Inl e | Inr (sts, d2) \<Rightarrow> Inr (st # sts, d2)))"

text \<open>The same for the allocator of the C library; \<open>on_heap\<close> gives the driver another heap.\<close>

definition on_heap :: "'t \<Rightarrow> 's driver \<Rightarrow> 't driver" where
  "on_heap h d = \<lparr>heap = h, ranges = ranges d, blocks = blocks d, block_sizes = block_sizes d, errors = errors d, out = out d\<rparr>"

definition libc_trace :: "host \<Rightarrow> 'l alloc_ops \<Rightarrow> nat \<Rightarrow> string \<Rightarrow> nat \<Rightarrow> string \<Rightarrow> 'l driver
    \<Rightarrow> c_stop + stats \<times> 'l driver" where
  "libc_trace h libc verbose dir i name d =
     (case read_trace (file_room h i) verbose dir name (file_text h (dir @ name)) d of
        Inl e \<Rightarrow> Inl e
      | Inr (tr, d1) \<Rightarrow>
          (case eval_libc_valid libc tr (chat verbose ''Checking libc malloc for correctness, '' d1) of
             Inl e \<Rightarrow> Inl e
           | Inr (valid, d2) \<Rightarrow>
               if \<not> valid then
                 Inr (\<lparr>stat_ops = num_ops tr, stat_valid = False, stat_secs = 0, stat_util = 0\<rparr>, free_trace d2)
               else
                 (case fsecs (clock h i) (eval_libc_speed libc tr) (chat verbose (''and performance.'' @ newline) d2) of
                    Inl e \<Rightarrow> Inl e
                  | Inr (secs, d3) \<Rightarrow>
                      Inr (\<lparr>stat_ops = num_ops tr, stat_valid = True, stat_secs = secs, stat_util = 0\<rparr>, free_trace d3))))"

fun libc_traces :: "host \<Rightarrow> 'l alloc_ops \<Rightarrow> nat \<Rightarrow> string \<Rightarrow> nat \<Rightarrow> string list \<Rightarrow> 'l driver
    \<Rightarrow> c_stop + stats list \<times> 'l driver" where
  "libc_traces h libc verbose dir i [] d = Inr ([], d)"
| "libc_traces h libc verbose dir i (name # names) d =
     (case libc_trace h libc verbose dir i name d of
        Inl e \<Rightarrow> Inl e
      | Inr (st, d1) \<Rightarrow>
          (case libc_traces h libc verbose dir (Suc i) names d1 of Inl e \<Rightarrow> Inl e | Inr (sts, d2) \<Rightarrow> Inr (st # sts, d2)))"

section \<open>Results\<close>

definition quotient :: "rat \<Rightarrow> rat \<Rightarrow> rat option" where
  "quotient a b = (if b = 0 then None else Some (a / b))"

text \<open>A row has the utilization in percent, the number of requests, the time, and thousands of requests per second;
  it is \<open>None\<close> where the table has dashes. The last component is the row of the totals.\<close>

type_synonym row = "(rat option \<times> rat \<times> rat \<times> rat option) option"

definition result_row :: "stats \<Rightarrow> row" where
  "result_row st = (if stat_valid st then
     Some (Some (stat_util st * 100), of_int (stat_ops st), stat_secs st, quotient (of_int (stat_ops st) / 1000) (stat_secs st))
     else None)"

definition printresults :: "stats list \<Rightarrow> nat \<Rightarrow> row list \<times> row" where
  "printresults sts errs =
     (let good = filter stat_valid sts;
          secs = sum_list (map stat_secs good);
          nops = sum_list (map (\<lambda>st. of_int (stat_ops st)) good);
          util = sum_list (map stat_util good)
      in (map result_row sts,
          if errs = 0 then
            Some (map_option (\<lambda>x. x * 100) (quotient util (of_nat (length sts))), nops, secs, quotient (nops / 1000) secs)
          else None))"

definition UTIL_WEIGHT :: rat where "UTIL_WEIGHT = 60 / 100"
definition AVG_LIBC_THRUPUT :: rat where "AVG_LIBC_THRUPUT = 600000"

text \<open>The part of the index for throughput: \<open>ops/secs\<close> is infinite, so above the bound, when no time passed and there
  were requests, and it is not a number when there were none.\<close>

definition throughput_part :: "rat \<Rightarrow> rat \<Rightarrow> rat option" where
  "throughput_part nops secs =
     (case quotient nops secs of
        None \<Rightarrow> if nops > 0 then Some (1 - UTIL_WEIGHT) else None
      | Some t \<Rightarrow> Some (if t > AVG_LIBC_THRUPUT then 1 - UTIL_WEIGHT else (1 - UTIL_WEIGHT) * (t / AVG_LIBC_THRUPUT)))"

text \<open>The number of correct traces, and the performance index; \<open>None\<close> when it is not a finite number.\<close>

definition mm_result :: "stats list \<Rightarrow> nat \<Rightarrow> nat \<times> rat option" where
  "mm_result sts errs =
     (let secs = sum_list (map stat_secs sts);
          nops = sum_list (map (\<lambda>st. of_int (stat_ops st)) sts);
          util = sum_list (map stat_util sts);
          numcorrect = length (filter stat_valid sts)
      in (numcorrect,
          if errs = 0 then
            (case quotient util (of_nat (length sts)) of
               None \<Rightarrow> None
             | Some avg_mm_util \<Rightarrow>
                 map_option (\<lambda>p2. (UTIL_WEIGHT * avg_mm_util + p2) * 100) (throughput_part nops secs))
          else Some 0))"

section \<open>The program\<close>

record outcome =
  libc_results :: "(row list \<times> row) option"
  mm_results :: "(row list \<times> row) option"
  numcorrect :: nat
  perfindex :: "rat option"
  graded :: bool
  final_out :: "string list"
  final_errors :: nat

text \<open>The part for the C library; \<open>room\<close> says whether \<open>calloc\<close> succeeds.\<close>

definition main_libc :: "host \<Rightarrow> 'l alloc_ops \<Rightarrow> 'l \<Rightarrow> bool \<Rightarrow> options \<Rightarrow> string list \<Rightarrow> 's driver
    \<Rightarrow> c_stop + (row list \<times> row) option \<times> 's driver" where
  "main_libc h libc l room p names d =
     (if \<not> run_libc p then Inr (None, d)
      else
        let d1 = chat (verbosity p) (newline @ ''Testing libc malloc'' @ newline) d
        in if \<not> room then unix_error ''libc_stats calloc in main failed'' d1
           else
             (case libc_traces h libc (verbosity p) (tracedir p) 0 names (on_heap l d1) of
                Inl e \<Rightarrow> Inl e
              | Inr (sts, d2) \<Rightarrow>
                  let d3 = on_heap (heap d) d2
                  in Inr (if verbosity p > 0 then
                       (Some (printresults sts (errors d3)), say (newline @ ''Results for libc malloc:'' @ newline) d3)
                       else (None, d3))))"

definition main_mm :: "host \<Rightarrow> ('x memsys_scheme) alloc_ops \<Rightarrow> u32 \<Rightarrow> bool \<Rightarrow> options \<Rightarrow> string list \<Rightarrow> ('x memsys_scheme) driver
    \<Rightarrow> c_stop + stats list \<times> (row list \<times> row) option \<times> ('x memsys_scheme) driver" where
  "main_mm h A block room p names d =
     (let d1 = chat (verbosity p) (newline @ ''Testing mm malloc'' @ newline) d
      in if \<not> room then unix_error ''mm_stats calloc in main failed'' d1
         else
           (case mem_init block (heap d1) of
              Inl e \<Rightarrow> Inl e
            | Inr m \<Rightarrow>
                (case mm_traces h A (verbosity p) (tracedir p) 0 names (d1\<lparr>heap := m\<rparr>) of
                   Inl e \<Rightarrow> Inl e
                 | Inr (sts, d2) \<Rightarrow>
                     Inr (sts, if verbosity p > 0 then
                       (Some (printresults sts (errors d2)), say newline (say (newline @ ''Results for mm malloc:'' @ newline) d2))
                       else (None, d2)))))"

text \<open>\<open>hl\<close> and \<open>h\<close> are what the two parts find; \<open>block\<close> is what \<open>malloc(MAX_HEAP)\<close> returns, \<open>rooms\<close> whether \<open>realloc\<close> and the two calls of \<open>calloc\<close> succeed.
  The program ends with status 0.\<close>

definition mdriver_main :: "host \<Rightarrow> host \<Rightarrow> ('x memsys_scheme) alloc_ops \<Rightarrow> 'l alloc_ops \<Rightarrow> 'l \<Rightarrow> team \<Rightarrow> u32 \<Rightarrow> bool \<times> bool \<times> bool
    \<Rightarrow> (char \<times> string) list \<Rightarrow> ('x memsys_scheme) driver \<Rightarrow> c_stop + outcome" where
  "mdriver_main hl h A libc l team block rooms opts d =
     (case read_options (fst rooms) opts start_options of
        Inl e \<Rightarrow> Inl e
      | Inr p \<Rightarrow>
          (case (if team_check p then check_team team d else Inr d) of
             Inl e \<Rightarrow> Inl e
           | Inr d1 \<Rightarrow>
               let (names, d2) = (case tracefile p of
                     Some f \<Rightarrow> ([f], d1)
                   | None \<Rightarrow> (default_tracefiles, say (''Using default tracefiles in '' @ tracedir p @ newline) d1))
               in (case main_libc hl libc l (fst (snd rooms)) p names (init_fsecs (verbosity p) d2) of
                     Inl e \<Rightarrow> Inl e
                   | Inr (lt, d3) \<Rightarrow>
                       (case main_mm h A block (snd (snd rooms)) p names d3 of
                          Inl e \<Rightarrow> Inl e
                        | Inr (sts, mt, d4) \<Rightarrow>
                            let (correct, index) = mm_result sts (errors d4)
                            in Inr \<lparr>libc_results = lt, mm_results = mt, numcorrect = correct, perfindex = index,
                                 graded = autograder p, final_out = out d4, final_errors = errors d4\<rparr>))))"

end
