(* ===== verification/Driver_Main_Props.thy ===== *)
theory Driver_Main_Props
  imports Driver_Main
begin

text \<open>
  The driver program as a whole on the trace files of the lab: the runs of \<open>read_trace\<close>, \<open>eval_mm_valid\<close>,
  \<open>eval_mm_util\<close> and the timed runs of \<open>eval_mm_speed\<close> follow each other on one memory region, and the
  performance index that \<open>main\<close> computes from them lies between 0 and 100.
\<close>

section \<open>The host\<close>

text \<open>A file of the lab: its name, the two numbers of its header that nobody uses, and its requests.\<close>

type_synonym lab_file = "string \<times> int \<times> int \<times> traceop list"

definition on_disk :: "host \<Rightarrow> string \<Rightarrow> lab_file \<Rightarrow> bool" where
  "on_disk h dir f \<longleftrightarrow> (case f of (name, sugg, w, rs) \<Rightarrow>
     file_text h (dir @ name) = Some (trace_text sugg (top_id 0 rs + 1) (int (length rs)) w rs)
     \<and> trace_file_ok sugg (top_id 0 rs + 1) (int (length rs)) w rs \<and> length (dir @ name) < MAXLINE \<and> rs \<noteq> [])"

definition sensible :: "(nat \<Rightarrow> bool) \<Rightarrow> nat \<Rightarrow> lab_file \<Rightarrow> bool" where
  "sensible req b f \<longleftrightarrow> (case f of (name, sugg, w, rs) \<Rightarrow>
     trace_ok req (nat (top_id 0 rs + 1)) {} rs \<and> low_ids b rs)"

text \<open>There is memory for the driver's own data, and the clock does not run backwards.\<close>

definition micros :: "timeval \<Rightarrow> int" where
  "micros t = 1000000 * fst t + snd t"

definition steady :: "host \<Rightarrow> bool" where
  "steady h \<longleftrightarrow> (\<forall>i k n. file_room h i k n) \<and> (\<forall>i. micros (fst (clock h i)) \<le> micros (snd (clock h i)))"

lemma gettod_nonneg:
  assumes "micros stv \<le> micros etv" "ftimer_gettod (stv, etv) f n d = Inr (secs, d')"
  shows "0 \<le> secs"
proof -
  define x :: rat where "x = 1000 * of_int (fst etv - fst stv) + of_int (snd etv - snd stv) / 1000"
  have "x = of_int (micros etv - micros stv) / 1000" by (simp add: x_def micros_def field_simps)
  moreover have "(0 :: rat) \<le> of_int (micros etv - micros stv)" using assms(1) by (simp only: of_int_0_le_iff)
  ultimately have "0 \<le> x" by simp
  moreover have "secs = x / of_nat n / 1000"
    using assms(2) by (simp add: ftimer_gettod_def x_def split: sum.splits)
  ultimately show ?thesis by simp
qed

text \<open>A run that is repeated: it ends the program, or keeps what every single run keeps.\<close>

lemma call_n_keeps:
  assumes "P d" "\<And>d. P d \<Longrightarrow> f d = Inl e \<or> (\<exists>d'. f d = Inr d' \<and> P d')"
  shows "call_n n f d = Inl e \<or> (\<exists>d'. call_n n f d = Inr d' \<and> P d')"
  using assms(1)
proof (induction n arbitrary: d)
  case (Suc n)
  from assms(2)[OF Suc.prems] show ?case by (auto dest: Suc.IH)
qed simp

text \<open>The region that \<open>mem_init\<close> sets up.\<close>

lemma mem_init_arena:
  assumes "0 < lo" "8 dvd lo" "lo + heap_limit < 2 ^ 32"
  shows "\<exists>m. mem_init (of_nat lo) s = Inr m \<and> arena m lo 0"
proof -
  define a b :: u32 where a: "a = of_nat lo" and b: "b = of_nat (lo + heap_limit)"
  define m where "m = s\<lparr>mem_start_brk := a, mem_max_addr := b, mem_brk := a\<rparr>"
  have f: "mem_start_brk m = a" "mem_max_addr m = b" "mem_brk m = a" by (simp_all add: m_def)
  have "arena m lo 0" unfolding arena_def f a b using assms by (simp only: add_0_right simp_thms le0)
  moreover have "lo < 2 ^ 32" using assms(3) by linarith
  then have "a \<noteq> 0" using of_nat_eq_0_iff_u32[of lo] assms(1) unfolding a by blast
  moreover have "a + MAX_HEAP = b" unfolding a b MAX_HEAP_eq of_nat_add_u32 ..
  ultimately have "mem_init a s = Inr m \<and> arena m lo 0" by (simp add: mem_init_def m_def)
  then show ?thesis unfolding a by blast
qed

section \<open>The statistics\<close>

definition stat_ok :: "stats \<Rightarrow> bool" where
  "stat_ok st \<longleftrightarrow> 0 < stat_ops st \<and> 0 \<le> stat_secs st \<and> 0 \<le> stat_util st \<and> stat_util st \<le> 1"

lemma sum_list_bounds:
  fixes f :: "'a \<Rightarrow> rat"
  assumes "\<forall>x \<in> set xs. a \<le> f x \<and> f x \<le> b"
  shows "of_nat (length xs) * a \<le> sum_list (map f xs)" "sum_list (map f xs) \<le> of_nat (length xs) * b"
  using assms by (induction xs) (auto simp: algebra_simps)

lemma throughput_part_range:
  assumes "0 < nops" "0 \<le> secs"
  shows "\<exists>p. throughput_part nops secs = Some p \<and> 0 \<le> p \<and> p \<le> 2 / 5"
proof (cases "secs = 0")
  case True
  then show ?thesis using assms
    by (intro exI[of _ "2 / 5"]) (simp add: throughput_part_def quotient_def UTIL_WEIGHT_def)
next
  case False
  define t where "t = nops / secs"
  have t: "0 \<le> t" using assms by (simp add: t_def)
  have "throughput_part nops secs = Some (if t > 600000 then 2 / 5 else 2 / 5 * (t / 600000))"
    using False by (simp add: throughput_part_def quotient_def UTIL_WEIGHT_def AVG_LIBC_THRUPUT_def t_def)
  then show ?thesis using t by (auto split: if_splits)
qed

lemma mm_result_range:
  assumes "\<forall>st \<in> set sts. stat_ok st" "sts \<noteq> []"
  shows "\<exists>x. mm_result sts errs = (length (filter stat_valid sts), Some x) \<and> 0 \<le> x \<and> x \<le> 100"
proof -
  let ?n = "of_nat (length sts) :: rat"
  define util where "util = sum_list (map stat_util sts)"
  define secs where "secs = sum_list (map stat_secs sts)"
  define nops where "nops = sum_list (map (\<lambda>st. of_int (stat_ops st) :: rat) sts)"
  have n: "0 < ?n" using assms(2) by simp
  have u: "0 \<le> util" "util \<le> ?n" using sum_list_bounds[of sts 0 stat_util 1] assms(1) by (auto simp: util_def stat_ok_def)
  have s: "0 \<le> secs" using assms(1) unfolding secs_def by (intro sum_list_nonneg) (auto simp: stat_ok_def)
  have "0 < nops"
  proof -
    obtain st ts where e: "sts = st # ts" using assms(2) by (cases sts) auto
    have "0 \<le> sum_list (map (\<lambda>st. of_int (stat_ops st) :: rat) ts)"
      using assms(1) unfolding e by (intro sum_list_nonneg) (auto simp: stat_ok_def intro: less_imp_le)
    moreover have "(0 :: rat) < of_int (stat_ops st)" using assms(1) unfolding e by (simp add: stat_ok_def)
    ultimately show ?thesis by (simp add: nops_def e)
  qed
  from throughput_part_range[OF this s] obtain p where p: "throughput_part nops secs = Some p" "0 \<le> p" "p \<le> 2 / 5" by blast
  have a: "0 \<le> util / ?n" "util / ?n \<le> 1" using u n by (simp_all add: divide_le_eq)
  show ?thesis
  proof (cases "errs = 0")
    case True
    have "mm_result sts errs = (length (filter stat_valid sts), Some ((3 / 5 * (util / ?n) + p) * 100))"
      using True n p(1) unfolding mm_result_def Let_def util_def secs_def nops_def quotient_def UTIL_WEIGHT_def by simp
    moreover have "0 \<le> (3 / 5 * x + p) * 100 \<and> (3 / 5 * x + p) * 100 \<le> 100" if "0 \<le> x" "x \<le> 1" for x :: rat
      using that p(2,3) by auto
    ultimately show ?thesis using a by blast
  qed (simp add: mm_result_def Let_def)
qed

section \<open>The runs over the files\<close>

context driver_client
begin

text \<open>What is known of the \<open>REALLOC\<close> requests whose index has a low byte below \<open>b\<close>.\<close>

definition fine :: "nat \<Rightarrow> nat \<Rightarrow> bool" where
  "fine b lo \<longleftrightarrow> realloc_fine True b lo \<and> (b = 0 \<or> speed_realloc_fine lo \<and>
     (\<forall>M d t i n. measured inv lo M (d, t) \<longrightarrow> i \<in> dom M \<longrightarrow> 0 < n \<longrightarrow> n < 2 ^ 31 \<longrightarrow> request lo n \<longrightarrow>
       util_step inv lo (dom M) (d, t) (util_op ops (REALLOC (int i) (int n)) (d, t))))"

lemma fine_none: "fine 0 lo"
  by (simp add: fine_def realloc_fine_def)

text \<open>The timed runs of a trace.\<close>

lemma fsecs_run:
  assumes d: "ready lo d" and t: "trace_ok (request lo) (length (blocks d)) {} (trace_ops tr)"
    and R: "low_ids 0 (trace_ops tr) \<or> speed_realloc_fine lo" and c: "micros stv \<le> micros etv"
  shows "fsecs (stv, etv) (eval_mm_speed ops tr) d = Inl (Exits 1)
    \<or> (\<exists>x d'. fsecs (stv, etv) (eval_mm_speed ops tr) d = Inr (x, d') \<and> 0 \<le> x \<and> quiet d d' \<and> ready lo d')"
proof -
  let ?P = "\<lambda>d'. ready lo d' \<and> quiet d d'"
  have "eval_mm_speed ops tr d1 = Inl (Exits 1) \<or> (\<exists>d2. eval_mm_speed ops tr d1 = Inr d2 \<and> ?P d2)" if "?P d1" for d1
  proof -
    have "trace_ok (request lo) (length (blocks d1)) {} (trace_ops tr)" using t that by (simp add: quiet_def)
    from eval_mm_speed_run[OF _ this R] that quiet_trans show ?thesis by blast
  qed
  moreover have "?P d" using d by (simp add: quiet_def)
  ultimately have "call_n 10 (eval_mm_speed ops tr) d = Inl (Exits 1)
    \<or> (\<exists>d'. call_n 10 (eval_mm_speed ops tr) d = Inr d' \<and> ?P d')"
    by (rule call_n_keeps[where P = ?P, rotated])
  then show ?thesis
  proof (elim disjE exE conjE)
    fix d' assume e: "call_n 10 (eval_mm_speed ops tr) d = Inr d'" "ready lo d'" "quiet d d'"
    have "\<exists>x. fsecs (stv, etv) (eval_mm_speed ops tr) d = Inr (x, d')"
      by (simp only: fsecs_def ftimer_gettod_def e(1) sum.case Let_def prod.case) blast
    then obtain x where x: "fsecs (stv, etv) (eval_mm_speed ops tr) d = Inr (x, d')" ..
    then have "0 \<le> x" unfolding fsecs_def by (rule gettod_nonneg[OF c])
    with x e show ?thesis by blast
  qed (simp add: fsecs_def ftimer_gettod_def)
qed

lemma mm_trace_run:
  assumes a: "arena (heap d) lo u" and f: "on_disk h dir (name, sugg, w, rs)" "sensible (request lo) b (name, sugg, w, rs)"
    and h: "steady h" and R: "fine b lo"
  shows "mm_trace h ops 0 dir i name d = Inl (Exits 1)
    \<or> (\<exists>st d'. mm_trace h ops 0 dir i name d = Inr (st, d') \<and> (\<exists>u. arena (heap d') lo u) \<and> stat_ok st
        \<and> errors d' = errors d + of_bool (\<not> stat_valid st))"
proof -
  let ?ids = "top_id 0 rs + 1"
  let ?d = "d\<lparr>blocks := replicate (nat ?ids) None, block_sizes := replicate (nat ?ids) None\<rparr>"
  define tr where "tr = \<lparr>sugg_heapsize = Some sugg, num_ids = ?ids, num_ops = int (length rs), trace_weight = Some w, trace_ops = rs\<rparr>"
  have tr: "trace_ops tr = rs" "num_ops tr = int (length rs)" by (simp_all add: tr_def)
  have rd: "read_trace (file_room h i) 0 dir name (file_text h (dir @ name)) d = Inr (tr, ?d)"
    using f(1) h by (simp add: on_disk_def steady_def read_trace_written tr_def)
  have T: "trace_ok (request lo) (length (blocks ?d)) {} (trace_ops tr)" "low_ids b (trace_ops tr)"
    using f(2) by (simp_all add: sensible_def tr)
  have n: "0 < int (length rs)" using f(1) by (simp add: on_disk_def)
  have v: "eval_mm_valid ops tr (int i) ?d = Inl (Exits 1) \<or> accepted lo (int i) ?d (eval_mm_valid ops tr (int i) ?d)"
    using eval_mm_valid_run[of ?d lo u tr b True "int i"] a T R by (simp add: fine_def)
  then show ?thesis unfolding accepted_def
  proof (elim disjE exE conjE)
    fix d1 assume v: "eval_mm_valid ops tr (int i) ?d = Inr (True, d1)" and q: "quiet ?d d1" and d1: "ready lo d1"
    then obtain u1 where u1: "arena (heap d1) lo u1" "length (block_sizes d1) = length (blocks d1)" by (auto simp: ready_def)
    have T1: "trace_ok (request lo) (length (blocks d1)) {} (trace_ops tr)" using T(1) q by (simp add: quiet_def)
    have R': "low_ids 0 (trace_ops tr) \<or> speed_realloc_fine lo" using T(2) R by (auto simp: fine_def)
    have "low_ids 0 (trace_ops tr) \<or> (\<forall>M d t i n. measured inv lo M (d, t) \<longrightarrow> i \<in> dom M \<longrightarrow> 0 < n \<longrightarrow> n < 2 ^ 31 \<longrightarrow>
      request lo n \<longrightarrow> util_step inv lo (dom M) (d, t) (util_op ops (REALLOC (int i) (int n)) (d, t)))"
      using T(2) R unfolding fine_def by blast
    from eval_mm_util_bound[OF u1 T1 this] show ?thesis
    proof (elim disjE exE conjE)
      fix x d2 assume x: "eval_mm_util ops tr d1 = Inr (x, d2)" "0 \<le> x" "x \<le> 1" "quiet d1 d2" "ready lo d2"
      obtain stv etv where c: "clock h i = (stv, etv)" by (cases "clock h i")
      have m: "micros stv \<le> micros etv" using h c unfolding steady_def by (metis fst_conv snd_conv)
      have T2: "trace_ok (request lo) (length (blocks d2)) {} (trace_ops tr)" using T1 x(4) by (simp add: quiet_def)
      from fsecs_run[OF x(5) T2 R' m] show ?thesis
      proof (elim disjE exE conjE)
        fix y d3 assume y: "fsecs (stv, etv) (eval_mm_speed ops tr) d2 = Inr (y, d3)" "0 \<le> y" "quiet d2 d3" "ready lo d3"
        let ?st = "\<lparr>stat_ops = int (length rs), stat_valid = True, stat_secs = y, stat_util = x\<rparr>"
        have "mm_trace h ops 0 dir i name d = Inr (?st, free_trace d3)"
          using v x(1) y(1) by (simp add: mm_trace_def rd chat_def c tr)
        moreover have "errors d3 = errors d" using q x(4) y(3) by (simp add: quiet_def)
        moreover have "stat_ok ?st" using n x y by (simp add: stat_ok_def)
        ultimately show ?thesis using y(4) by (auto simp: free_trace_def ready_def)
      qed (use v x(1) in \<open>simp add: mm_trace_def rd chat_def c\<close>)
    qed (use v in \<open>simp add: mm_trace_def rd chat_def\<close>)
  next
    fix x d1 assume v: "eval_mm_valid ops tr (int i) ?d = Inr (False, malloc_error (int i) x ''mm_malloc failed.'' d1)"
      and q: "quiet ?d d1" and d1: "ready lo d1"
    let ?st = "\<lparr>stat_ops = int (length rs), stat_valid = False, stat_secs = 0, stat_util = 0\<rparr>"
    have "mm_trace h ops 0 dir i name d = Inr (?st, free_trace (malloc_error (int i) x ''mm_malloc failed.'' d1))"
      using v by (simp add: mm_trace_def rd chat_def tr)
    moreover have "stat_ok ?st" using n by (simp add: stat_ok_def)
    ultimately show ?thesis using q d1 by (auto simp: free_trace_def ready_def malloc_error_def quiet_def)
  qed (simp add: mm_trace_def rd chat_def)
qed

lemma mm_traces_run:
  assumes a: "arena (heap d) lo u" and f: "\<forall>f \<in> set fs. on_disk h dir f \<and> sensible (request lo) b f"
    and h: "steady h" and R: "fine b lo"
  shows "mm_traces h ops 0 dir i (map fst fs) d = Inl (Exits 1)
    \<or> (\<exists>sts d'. mm_traces h ops 0 dir i (map fst fs) d = Inr (sts, d') \<and> length sts = length fs
        \<and> (\<forall>st \<in> set sts. stat_ok st) \<and> errors d' + length (filter stat_valid sts) = errors d + length fs)"
  using a f
proof (induction fs arbitrary: d u i)
  case (Cons f fs)
  obtain name sugg w rs where e: "f = (name, sugg, w, rs)" by (metis prod_cases4)
  have "on_disk h dir f" "sensible (request lo) b f" using Cons.prems(2) by simp_all
  from mm_trace_run[OF Cons.prems(1) this[unfolded e] h R, of i] show ?case
  proof (elim disjE exE conjE)
    fix st d1 u1 assume s: "mm_trace h ops 0 dir i name d = Inr (st, d1)" "arena (heap d1) lo u1" "stat_ok st"
      "errors d1 = errors d + of_bool (\<not> stat_valid st)"
    have "\<forall>f \<in> set fs. on_disk h dir f \<and> sensible (request lo) b f" using Cons.prems(2) by simp
    from Cons.IH[OF s(2) this, of "Suc i"] show ?thesis
      by (elim disjE exE conjE) (use s(1,3,4) in \<open>auto simp: e\<close>)
  qed (simp add: e)
qed simp

text \<open>The whole program without \<open>-l\<close> and \<open>-v\<close>.\<close>

lemma mdriver_main_run:
  assumes p: "read_options True opts start_options = Inr p" "verbosity p = 0" "\<not> run_libc p"
    and lo: "0 < lo" "8 dvd lo" "lo + heap_limit < 2 ^ 32"
    and f: "map fst fs = (case tracefile p of Some g \<Rightarrow> [g] | None \<Rightarrow> default_tracefiles)"
      "\<forall>f \<in> set fs. on_disk h (tracedir p) f \<and> sensible (request lo) b f"
    and h: "steady h" and R: "fine b lo" and d: "errors d = 0"
  shows "mdriver_main hl h ops libc l team (of_nat lo) (True, True, True) opts d = Inl (Exits 1)
    \<or> (\<exists>r x. mdriver_main hl h ops libc l team (of_nat lo) (True, True, True) opts d = Inr r
        \<and> numcorrect r + final_errors r = length fs \<and> perfindex r = Some x \<and> 0 \<le> x \<and> x \<le> 100)"
proof -
  let ?names = "case tracefile p of Some g \<Rightarrow> [g] | None \<Rightarrow> default_tracefiles"
  have team: "check_team team d = Inl (Exits 1) \<or> (\<exists>d1. check_team team d = Inr d1 \<and> errors d1 = 0)"
    using d by (simp add: check_team_def say_def Let_def)
  show ?thesis
  proof (cases "team_check p \<and> check_team team d = Inl (Exits 1)")
    case True
    then show ?thesis using p(1) by (simp add: mdriver_main_def)
  next
    case False
    with team d obtain d1 where d1: "(if team_check p then check_team team d else Inr d) = Inr d1" "errors d1 = 0"
      by (cases "team_check p") auto
    obtain d2 where d2: "(case tracefile p of Some g \<Rightarrow> ([g], d1) | None \<Rightarrow>
        (default_tracefiles, say (''Using default tracefiles in '' @ tracedir p @ newline) d1)) = (?names, d2)" "errors d2 = 0"
      using d1(2) by (cases "tracefile p") (simp_all add: say_def)
    obtain m where m: "mem_init (of_nat lo) (heap d2) = Inr m" and a: "arena m lo 0"
      using mem_init_arena[OF lo] by blast
    let ?d = "d2\<lparr>heap := m\<rparr>"
    have a: "arena (heap ?d) lo 0" using a by simp
    have "fs \<noteq> []" using f(1) by (auto simp: default_tracefiles_def split: option.splits)
    from mm_traces_run[OF a f(2) h R, of 0] show ?thesis unfolding f(1)
    proof (elim disjE exE conjE)
      assume "mm_traces h ops 0 (tracedir p) 0 ?names ?d = Inl (Exits 1)"
      then show ?thesis using p(1) d1(1) d2(1) p(2,3)
        by (simp add: mdriver_main_def main_libc_def main_mm_def chat_def init_fsecs_def m)
    next
      fix sts d' assume s: "mm_traces h ops 0 (tracedir p) 0 ?names ?d = Inr (sts, d')" "length sts = length fs"
        "\<forall>st \<in> set sts. stat_ok st" "errors d' + length (filter stat_valid sts) = errors ?d + length fs"
      have "sts \<noteq> []" using s(2) \<open>fs \<noteq> []\<close> by auto
      from mm_result_range[OF s(3) this, of "errors d'"] obtain x where
        x: "mm_result sts (errors d') = (length (filter stat_valid sts), Some x)" "0 \<le> x" "x \<le> 100" by blast
      then show ?thesis using p(1) d1(1) d2 p(2,3) s(1,4)
        by (simp add: mdriver_main_def main_libc_def main_mm_def chat_def init_fsecs_def m)
    qed
  qed
qed

end

context realloc_client
begin

lemma fine_low: "fine 128 lo"
proof -
  have "realloc_fine True 128 lo" by (rule realloc_fine_low)
  then show ?thesis unfolding fine_def using speed_realloc_step util_realloc_step by blast
qed

end

section \<open>The properties\<close>







text \<open>The same for \<^verbatim>\<open>mm.c\<close> on files without \<open>REALLOC\<close>.\<close>

theorem driver_grades_mm:
  assumes "read_options True opts start_options = Inr p" "verbosity p = 0" "\<not> run_libc p"
    and "0 < lo" "8 dvd lo" "lo + heap_limit < 2 ^ 32"
    and "map fst fs = (case tracefile p of Some g \<Rightarrow> [g] | None \<Rightarrow> default_tracefiles)"
    and "\<forall>f \<in> set fs. on_disk h (tracedir p) f \<and> sensible (request_ok lo) 0 f" "steady h" "errors d = 0"
  shows "mdriver_main hl h mm_ops libc l team (of_nat lo) (True, True, True) opts d = Inl (Exits 1)
    \<or> (\<exists>r x. mdriver_main hl h mm_ops libc l team (of_nat lo) (True, True, True) opts d = Inr r
        \<and> numcorrect r + final_errors r = length fs \<and> perfindex r = Some x \<and> 0 \<le> x \<and> x \<le> 100)"
  by (rule mm_driver.mdriver_main_run[OF assms(1-9) mm_driver.fine_none assms(10)])

end
