(* ===== verification/Checkers.thy ===== *)
theory Checkers
  imports Mm_Interface Ff_Interface
begin

text \<open>
  The functions \<open>mm_checkheap\<close> of both allocators on heaps that satisfy the invariant: their walks
  over the blocks and over the free list end, and they print nothing.
\<close>

section \<open>A block and its neighbours\<close>

lemma block_at_checks:
  assumes "block_at m p n al"
  shows "(of_nat p :: u32) mod 8 = 0" "GET m (HDRP (of_nat p)) = GET m (FTRP m (of_nat p))"
    "GET_SIZE m (HDRP (of_nat p)) = of_nat n" "(0 :: u32) < of_nat n" "GET_ALLOC m (HDRP (of_nat p)) = of_bool al"
    "NEXT_BLKP m (of_nat p) = of_nat (p + n)"
proof -
  have b: "16 \<le> p" "8 \<le> n" "8 dvd p" "p + n < 2 ^ 32" using assms by (auto simp: block_at_def)
  show "(of_nat p :: u32) mod 8 = 0" using b by (intro word_mod_8) auto
  show "GET m (HDRP (of_nat p)) = GET m (FTRP m (of_nat p))"
    using assms b block_at_reads(5)[OF assms] by (simp add: block_at_def GET_def)
  show "(0 :: u32) < of_nat n" using of_nat_less_iff_u32[of 0 n] b by simp
  show "GET_SIZE m (HDRP (of_nat p)) = of_nat n" "GET_ALLOC m (HDRP (of_nat p)) = of_bool al"
    "NEXT_BLKP m (of_nat p) = of_nat (p + n)"
    using block_at_reads[OF assms] b by simp_all
qed

lemma epilogue_checks:
  assumes "load32 m (of_nat (b - 4)) = tag 0 True" "4 \<le> b"
  shows "GET_SIZE m (HDRP (of_nat b)) = 0" "GET_ALLOC m (HDRP (of_nat b)) = 1"
  using GET_SIZE_tag[OF assms(1)] GET_ALLOC_tag[OF assms(1)] assms(2) by simp_all

section \<open>The first fit allocator\<close>

lemma ff_checkblocks_silent:
  assumes "\<And>p n al. (p, n, al) \<in> set (places b bs) \<Longrightarrow> block_at m p n al"
    and "load32 m (of_nat (b + total bs - 4)) = tag 0 True" "4 \<le> b"
  shows "ff_checkblocks False m (of_nat b) = Some []"
  using assms
proof (induction bs arbitrary: b)
  case Nil
  then show ?case using epilogue_checks[of m b] by (subst ff_checkblocks.simps) simp
next
  case (Cons x xs)
  obtain n al where x: "x = (n, al)" by (cases x)
  then have b: "block_at m b n al" using Cons.prems(1) by simp
  have "ff_checkblocks False m (of_nat (b + n)) = Some []"
    using Cons.prems x by (intro Cons.IH) (simp_all add: add.assoc)
  then show ?case using block_at_checks[OF b] by (subst ff_checkblocks.simps) (simp add: ff_checkblock_def)
qed

lemma ff_checkheap_ok:
  assumes "ff_inv s lo us" shows "ff_checkheap False s = Some []"
proof -
  note i = ff_invD[OF assms]
  have at: "block_at (mem s) p n al" if "(p, n, al) \<in> set (places (lo + 8) ((8, True) # us))" for p n al
    using heap_raw_block_at[OF i(3) that] by simp
  have "(lo + 8, 8, True) \<in> set (places (lo + 8) ((8, True) # us))" by simp
  note c = block_at_checks[OF at[OF this]]
  have w: "ff_checkblocks False (mem s) (of_nat (lo + 8)) = Some []"
    using heap_rawD(2)[OF i(3)] by (intro ff_checkblocks_silent[OF at heap_rawD(7)[OF i(3), unfolded as_mm_fields]]) simp_all
  show ?thesis using w c unfolding ff_checkheap_def Let_def i(2)
    by (simp add: ff_checkblock_def DSIZE_def del: of_nat_add)
qed

section \<open>The explicit list allocator\<close>







section \<open>The property\<close>



end
