(* ===== verification/Mm_Realloc_Props.thy ===== *)
theory Mm_Realloc_Props
  imports Checkers
begin

text \<open>
  \<open>mm_realloc\<close> of \<^verbatim>\<open>mm.c\<close> on heaps that satisfy the invariant: the branches that leave the block where
  it is keep the heap correct and every payload as it was; growing into the block before copies
  overlapping ranges.
\<close>

section \<open>The block and its neighbours\<close>

text \<open>A block inside a heap with one block \<open>k\<close> before it, at \<open>b\<close>.\<close>

lemma heap_raw_around:
  assumes H: "heap_raw m0 K s base hi (zs @ (k, e) # (c, al) # ys) fl" and b: "b = base + total zs" "p = b + k"
  shows "block_at (mem s) b k e" "block_at (mem s) p c al"
    "PREV_BLKP (mem s) (of_nat p) = of_nat b" "NEXT_BLKP (mem s) (of_nat p) = of_nat (p + c)"
    "GET_SIZE (mem s) (HDRP (of_nat p)) = of_nat c"
    "GET_SIZE (mem s) (HDRP (of_nat b)) = of_nat k" "GET_ALLOC (mem s) (HDRP (of_nat b)) = of_bool e"
    "GET_ALLOC (mem s) (HDRP (of_nat (p + c))) = of_bool (ys = [] \<or> snd (hd ys))"
    "GET_SIZE (mem s) (HDRP (of_nat (p + c))) = (if ys = [] then 0 else of_nat (fst (hd ys)))"
proof -
  have H': "heap_raw m0 K s base hi ((zs @ [(k, e)]) @ (c, al) # ys) fl" using H by simp
  have p: "p = base + total (zs @ [(k, e)])" using b by simp
  show 1: "block_at (mem s) b k e" "block_at (mem s) p c al"
    using heap_raw_split_block[OF H b(1)] heap_raw_split_block[OF H' p] by simp_all
  show "PREV_BLKP (mem s) (of_nat p) = of_nat b" using block_at_reads(7)[OF 1(1)] b(2) by simp
  show "NEXT_BLKP (mem s) (of_nat p) = of_nat (p + c)" "GET_SIZE (mem s) (HDRP (of_nat p)) = of_nat c"
    "GET_SIZE (mem s) (HDRP (of_nat b)) = of_nat k" "GET_ALLOC (mem s) (HDRP (of_nat b)) = of_bool e"
    using block_at_checks[OF 1(1)] block_at_checks[OF 1(2)] by simp_all
  have e: "p + c = base + total ((zs @ [(k, e)]) @ [(c, al)])" using p by simp
  have "GET_ALLOC (mem s) (HDRP (of_nat (p + c))) = of_bool (ys = [] \<or> snd (hd ys))
    \<and> GET_SIZE (mem s) (HDRP (of_nat (p + c))) = (if ys = [] then 0 else of_nat (fst (hd ys)))"
  proof (cases ys)
    case Nil
    then have "load32 (mem s) (of_nat (p + c - 4)) = tag 0 True"
      using heap_rawD(7)[OF H'] p by (simp add: add.assoc)
    from epilogue_checks[OF this] 1(2) Nil show ?thesis by (simp add: block_at_def del: of_nat_add)
  next
    case (Cons y ws)
    obtain j d where y: "y = (j, d)" by (cases y)
    have "heap_raw m0 K s base hi (((zs @ [(k, e)]) @ [(c, al)]) @ (j, d) # ws) fl" using H' Cons y by simp
    from block_at_checks[OF heap_raw_split_block[OF this e]] Cons y show ?thesis by (simp del: of_nat_add)
  qed
  then show "GET_ALLOC (mem s) (HDRP (of_nat (p + c))) = of_bool (ys = [] \<or> snd (hd ys))"
    "GET_SIZE (mem s) (HDRP (of_nat (p + c))) = (if ys = [] then 0 else of_nat (fst (hd ys)))" by blast+
qed

text \<open>The values that \<open>mm_realloc\<close> compares, for a block of \<open>c\<close> bytes and a request of \<open>n\<close>.\<close>

lemma mm_realloc_at:
  assumes I: "mm_inv s lo (xs @ (c, True) # ys) fl" and p: "p = lo + 16 + total xs" and n: "0 < n" "n + 15 < 2 ^ 32"
  shows "block_at (mem s) p c True" "(of_nat p :: u32) \<noteq> 0" "(of_nat n :: u32) \<noteq> 0"
    "adjusted_size (of_nat n) = of_nat (block_need n)" "GET_SIZE (mem s) (HDRP (of_nat p)) = of_nat c"
    "block_need n < 2 ^ 32" "c < 2 ^ 32"
proof -
  note i = mm_invD[OF I]
  have "heap_raw (mem s) {} s (lo + 8) (lo + heap_limit) (((8, True) # xs) @ (c, True) # ys) fl" using i(3) by simp
  from heap_raw_split_block[OF this, of p] p show b: "block_at (mem s) p c True" by simp
  show "(of_nat p :: u32) \<noteq> 0" using b by (subst of_nat_eq_0_iff_u32) (auto simp: block_at_def)
  show "(of_nat n :: u32) \<noteq> 0" using n by (subst of_nat_eq_0_iff_u32) auto
  show "adjusted_size (of_nat n) = of_nat (block_need n)" by (rule adjusted_size_eq[OF n(2)])
  show "GET_SIZE (mem s) (HDRP (of_nat p)) = of_nat c" by (rule block_at_checks(3)[OF b])
  show "block_need n < 2 ^ 32" using block_need_props(4)[of n] n by auto
  show "c < 2 ^ 32" using b by (auto simp: block_at_def)
qed


section \<open>Shrinking a block\<close>




lemma mm_inv_sized: "mm_inv s lo us fl \<Longrightarrow> sized us"
  by (rule mm_inv_facts(2))


section \<open>Taking the free block after it\<close>

text \<open>The comparisons of sizes, for a block of \<open>c\<close> bytes that is to have \<open>a\<close> and a neighbour of \<open>k\<close>.\<close>

lemma realloc_grow_compares:
  assumes "a < 2 ^ 32" "c < 2 ^ 32" "c < a" "a \<le> c + k" "k < 2 ^ 32" "a + 16 < 2 ^ 32"
  shows "of_nat a \<noteq> (of_nat c :: u32)" "\<not> of_nat a + MINIMUM \<le> (of_nat c :: u32)"
    "of_nat c < (of_nat a :: u32)" "of_nat a - of_nat c \<le> (of_nat k :: u32)"
proof -
  show "of_nat a \<noteq> (of_nat c :: u32)" "of_nat c < (of_nat a :: u32)"
    using of_nat_eq_iff_u32[OF assms(1,2)] of_nat_less_iff_u32[OF assms(2,1)] assms(3) by auto
  show "\<not> of_nat a + MINIMUM \<le> (of_nat c :: u32)"
    using of_nat_le_iff_u32[OF assms(6,2)] assms(3) by (simp add: MINIMUM_def)
  have "(of_nat a - of_nat c :: u32) = of_nat (a - c)" using assms(1,3) by simp
  then show "of_nat a - of_nat c \<le> (of_nat k :: u32)"
    using of_nat_le_iff_u32[of "a - c" k] assms by simp
qed


section \<open>Growing into the free block before it\<close>

lemma mm_realloc_prev_overlaps:
  assumes I: "mm_inv s lo (zs @ (k, False) # (c, True) # ys) fl" and p: "p = lo + 16 + total zs + k"
    and n: "0 < n" "n + 15 < 2 ^ 32" and a: "c < block_need n" "block_need n \<le> c + k"
    and nx: "ys = [] \<or> snd (hd ys)" and k: "k < c"
  shows "mm_realloc (of_nat p) (of_nat n) s = Inl (Undefined ''memcpy'')"
proof -
  have I': "mm_inv s lo ((zs @ [(k, False)]) @ (c, True) # ys) fl" using I by simp
  have p': "p = lo + 16 + total (zs @ [(k, False)])" using p by simp
  note i = mm_invD[OF I] and m = mm_realloc_at[OF I' p' n]
  let ?a = "block_need n" and ?b = "lo + 8 + total ((8, True) # zs)"
  have H: "heap_raw (mem s) {} s (lo + 8) (lo + heap_limit) (((8, True) # zs) @ (k, False) # (c, True) # ys) fl" using i(3) by simp
  have pb: "p = ?b + k" using p by simp
  note r = heap_raw_around[OF H refl pb]
  have ck: "16 \<le> k" "p + c < 2 ^ 32" "k < 2 ^ 32" "c < 2 ^ 32" using r(1,2) i(6) by (auto simp: block_at_def)
  have bf: "?b \<in> set fl" using i(4) by (simp add: add.commute)
  note H1 = heap_raw_around[OF heap_raw_remove1[OF H bf] refl pb]
  have "?a + 16 < 2 ^ 32" using a(2) ck heap_rawD(2)[OF H] by (simp add: p)
  note cmp = realloc_grow_compares[OF m(6,7) a ck(3) this]
  have e: "mm_realloc (of_nat p) (of_nat n) s = realloc_prev (of_nat p) (of_nat ?a) (of_nat c) s"
    using m(2-5) r(3,4,6-9) cmp nx by (simp add: mm_realloc_def Let_def del: of_nat_add)
  have "(of_nat p - of_nat ?b :: u32) = of_nat k" unfolding pb by simp
  then have "of_nat p - of_nat ?b < (of_nat c :: u32)" "(of_nat c :: u32) \<noteq> 0"
    using of_nat_less_iff_u32[of k c] ck k of_nat_eq_0_iff_u32[of c] by auto
  then have "regions_overlap (of_nat ?b) (of_nat p) (of_nat c)" by (simp add: regions_overlap_def del: of_nat_add)
  then show ?thesis unfolding e realloc_prev_def Let_def r(3) H1(3) memcpy_def by simp
qed

section \<open>The branches that keep the data\<close>











section \<open>The properties\<close>

text \<open>A heap with the blocks 32 (free), 112, 16 and a free rest.\<close>

definition heap_2 :: mm where "heap_2 = place 4112 32 heap_0"
definition heap_3 :: mm where "heap_3 = place 4144 112 heap_2"
definition heap_4 :: mm where "heap_4 = place 4256 16 heap_3"
definition heap_5 :: mm where "heap_5 = mm_free 4112 heap_4"

lemma heap_5_inv: "mm_inv heap_5 4096 [(32, False), (112, True), (16, True), (3936, False)] [4112, 4272]"
proof -
  have "mm_inv (place (of_nat 4112) (of_nat 32) heap_0) 4096 ([] @ placed 32 4096 @ []) (place_list 4112 32 4096 [4112])"
    by (rule place_refines(1)) (use heap_0_inv in simp_all)
  then have 2: "mm_inv heap_2 4096 [(32, True), (4064, False)] [4144]"
    by (simp add: heap_2_def placed_def place_list_def)
  have "mm_inv (place (of_nat 4144) (of_nat 112) heap_2) 4096 ([(32, True)] @ placed 112 4064 @ []) (place_list 4144 112 4064 [4144])"
    by (rule place_refines(1)) (use 2 in simp_all)
  then have 3: "mm_inv heap_3 4096 [(32, True), (112, True), (3952, False)] [4256]"
    by (simp add: heap_3_def placed_def place_list_def)
  have "mm_inv (place (of_nat 4256) (of_nat 16) heap_3) 4096 ([(32, True), (112, True)] @ placed 16 3952 @ []) (place_list 4256 16 3952 [4256])"
    by (rule place_refines(1)) (use 3 in simp_all)
  then have 4: "mm_inv heap_4 4096 [(32, True), (112, True), (16, True), (3936, False)] [4272]"
    by (simp add: heap_4_def placed_def place_list_def)
  have C: "coalesced [] 32 [(112, True), (16, True), (3936, False)] = ([], 32, [(112, True), (16, True), (3936, False)])"
    by code_simp
  have "mm_inv (mm_free (of_nat 4112) heap_4) 4096 ([] @ (32, False) # [(112, True), (16, True), (3936, False)])
      (4112 # outside 4112 32 [4272])"
    by (rule mm_free_refines(1)[OF _ _ C]) (use 4 in simp_all)
  then show ?thesis by (simp add: heap_5_def outside_def)
qed



text \<open>C17. Undefined behaviour: when the block before is free and large enough, but smaller than the block
  itself, \<open>mm_realloc\<close> moves the data down with \<open>memcpy\<close> between overlapping ranges.\<close>

theorem mm_realloc_copy_overlaps:
  assumes "mm_inv s lo (zs @ (k, False) # (c, True) # ys) fl" "p = lo + 16 + total zs + k"
    and "0 < n" "n + 15 < 2 ^ 32" "c < block_need n" "block_need n \<le> c + k" "ys = [] \<or> snd (hd ys)" "k < c"
  shows "mm_realloc (of_nat p) (of_nat n) s = Inl (Undefined ''memcpy'')"
  by (rule mm_realloc_prev_overlaps[OF assms])

theorem mm_realloc_copy_overlaps_witness: "mm_realloc 4144 120 heap_5 = Inl (Undefined ''memcpy'')"
  using mm_realloc_copy_overlaps[of heap_5 4096 "[]" 32 112 "[(16, True), (3936, False)]" "[4112, 4272]" 4144 120] heap_5_inv
  by (simp add: block_need_def)

end
