(* ===== verification/Tsh_Jobs.thy ===== *)
theory Tsh_Jobs
  imports C_Text
begin

text \<open>
  The job list of the tiny shell \<^verbatim>\<open>shlab-handout2/tsh.c\<close>: an array of \<open>MAXJOBS\<close> job structs, a free
  slot having process id 0, and the number the next job will get. Each helper routine of the file
  is a definition of the same name; a pointer into the array is its index, \<open>NULL\<close> is \<open>None\<close>.
\<close>

datatype job_state = UNDEF | FG | BG | ST

record job =
  pid :: int
  jid :: int
  state :: job_state
  cmdline :: string

text \<open>
  The global variables of the file and what the shell has done so far: the text it printed, one
  item per \<open>printf\<close>, and the signals it sent, as the two arguments of \<open>kill\<close>.
\<close>

record shell =
  jobs :: "job list"
  nextjid :: int
  verbose :: bool
  outp :: "string list"
  kills :: "(int \<times> int) list"

definition MAXJOBS :: nat where "MAXJOBS = 16"

definition printf :: "string \<Rightarrow> 'a shell_scheme \<Rightarrow> 'a shell_scheme" where
  "printf t s = s\<lparr>outp := outp s @ [t]\<rparr>"

text \<open>The loop \<open>for (i = 0; i < MAXJOBS; i++) if (...)\<close>: the first slot with the property.\<close>

fun first_slot :: "(job \<Rightarrow> bool) \<Rightarrow> job list \<Rightarrow> nat option" where
  "first_slot P [] = None"
| "first_slot P (j # js) = (if P j then Some 0 else map_option Suc (first_slot P js))"

definition clearjob :: "job \<Rightarrow> job" where
  "clearjob j = j\<lparr>pid := 0, jid := 0, state := UNDEF, cmdline := []\<rparr>"

definition initjobs :: "job list \<Rightarrow> job list" where
  "initjobs js = map clearjob js"

definition maxjid :: "job list \<Rightarrow> int" where
  "maxjid js = foldl (\<lambda>mx j. if jid j > mx then jid j else mx) 0 js"

definition addjob :: "int \<Rightarrow> job_state \<Rightarrow> string \<Rightarrow> 'a shell_scheme \<Rightarrow> int \<times> 'a shell_scheme" where
  "addjob p st line s =
     (if p < 1 then (0, s)
      else case first_slot (\<lambda>j. pid j = 0) (jobs s) of
        Some i \<Rightarrow>
          let j = (jobs s ! i)\<lparr>pid := p, jid := nextjid s, state := st, cmdline := line\<rparr>;
              n = nextjid s + 1;
              s1 = s\<lparr>jobs := (jobs s)[i := j], nextjid := (if n > int MAXJOBS then 1 else n)\<rparr>
          in (1, if verbose s1
                 then printf (''Added job ['' @ int_string (jid j) @ ''] '' @ int_string (pid j)
                   @ '' '' @ cmdline j @ newline) s1
                 else s1)
      | None \<Rightarrow> (0, printf (''Tried to create too many jobs'' @ newline) s))"

definition deletejob :: "int \<Rightarrow> 'a shell_scheme \<Rightarrow> int \<times> 'a shell_scheme" where
  "deletejob p s =
     (if p < 1 then (0, s)
      else case first_slot (\<lambda>j. pid j = p) (jobs s) of
        Some i \<Rightarrow> let js = (jobs s)[i := clearjob (jobs s ! i)]
                  in (1, s\<lparr>jobs := js, nextjid := maxjid js + 1\<rparr>)
      | None \<Rightarrow> (0, s))"

definition fgpid :: "job list \<Rightarrow> int" where
  "fgpid js = (case first_slot (\<lambda>j. state j = FG) js of Some i \<Rightarrow> pid (js ! i) | None \<Rightarrow> 0)"

definition getjobpid :: "job list \<Rightarrow> int \<Rightarrow> nat option" where
  "getjobpid js p = (if p < 1 then None else first_slot (\<lambda>j. pid j = p) js)"

definition getjobjid :: "job list \<Rightarrow> int \<Rightarrow> nat option" where
  "getjobjid js n = (if n < 1 then None else first_slot (\<lambda>j. jid j = n) js)"

definition pid2jid :: "job list \<Rightarrow> int \<Rightarrow> int" where
  "pid2jid js p =
     (if p < 1 then 0
      else case first_slot (\<lambda>j. pid j = p) js of Some i \<Rightarrow> jid (js ! i) | None \<Rightarrow> 0)"

text \<open>What \<open>listjobs\<close> prints for the slot \<open>i\<close>.\<close>

definition state_text :: "nat \<Rightarrow> job_state \<Rightarrow> string" where
  "state_text i st = (case st of BG \<Rightarrow> ''Running '' | FG \<Rightarrow> ''Foreground '' | ST \<Rightarrow> ''Stopped ''
     | UNDEF \<Rightarrow> ''listjobs: Internal error: job['' @ int_string (int i) @ ''].state=0 '')"

fun list_slots :: "nat \<Rightarrow> job list \<Rightarrow> string list" where
  "list_slots i [] = []"
| "list_slots i (j # js) =
     (if pid j \<noteq> 0
      then [''['' @ int_string (jid j) @ ''] ('' @ int_string (pid j) @ '') '', state_text i (state j), cmdline j]
      else []) @ list_slots (Suc i) js"

definition listjobs :: "'a shell_scheme \<Rightarrow> 'a shell_scheme" where
  "listjobs s = s\<lparr>outp := outp s @ list_slots 0 (jobs s)\<rparr>"

section \<open>The search loop\<close>

lemma first_slot_Some:
  "first_slot P js = Some i \<longleftrightarrow> i < length js \<and> P (js ! i) \<and> (\<forall>k < i. \<not> P (js ! k))"
proof (induction js arbitrary: i)
  case (Cons j js)
  show ?case
  proof (cases i)
    case (Suc n)
    have "(\<forall>k < Suc n. \<not> P ((j # js) ! k)) \<longleftrightarrow> \<not> P j \<and> (\<forall>k < n. \<not> P (js ! k))"
      by (auto simp: nth_Cons split: nat.splits)
    with Suc Cons show ?thesis by auto
  qed (use Cons in auto)
qed simp

lemma first_slot_None: "first_slot P js = None \<longleftrightarrow> (\<forall>j \<in> set js. \<not> P j)"
  by (induction js) auto

lemma first_slotD:
  "first_slot P js = Some i \<Longrightarrow> i < length js" "first_slot P js = Some i \<Longrightarrow> P (js ! i)"
  by (auto simp: first_slot_Some)

lemma printf_simps [simp]:
  "jobs (printf t s) = jobs s" "nextjid (printf t s) = nextjid s" "verbose (printf t s) = verbose s"
  "kills (printf t s) = kills s" "outp (printf t s) = outp s @ [t]"
  by (simp_all add: printf_def)

lemma clearjob_simps [simp]:
  "pid (clearjob j) = 0" "jid (clearjob j) = 0" "state (clearjob j) = UNDEF" "cmdline (clearjob j) = []"
  by (simp_all add: clearjob_def)

lemma maxjid_ge: "0 \<le> maxjid js \<and> (\<forall>j \<in> set js. jid j \<le> maxjid js)"
proof -
  have "m \<le> foldl (\<lambda>mx j. if jid j > mx then jid j else mx) m js
    \<and> (\<forall>j \<in> set js. jid j \<le> foldl (\<lambda>mx j. if jid j > mx then jid j else mx) m js)" for m
  proof (induction js arbitrary: m)
    case (Cons j js)
    show ?case using Cons[of "if jid j > m then jid j else m"] by (auto split: if_splits)
  qed simp
  then show ?thesis by (simp add: maxjid_def)
qed

lemma maxjid_in: "maxjid js = 0 \<or> maxjid js \<in> jid ` set js"
proof -
  have "foldl (\<lambda>mx j. if jid j > mx then jid j else mx) m js \<in> insert m (jid ` set js)" for m
  proof (induction js arbitrary: m)
    case (Cons j js)
    show ?case using Cons[of "if jid j > m then jid j else m"] by (auto split: if_splits)
  qed simp
  from this[of 0] show ?thesis by (simp add: maxjid_def)
qed

section \<open>Well-formed job lists\<close>

text \<open>
  Free slots carry no job id, the jobs have positive process ids, all different.
\<close>

definition jobs_ok :: "job list \<Rightarrow> bool" where
  "jobs_ok js \<longleftrightarrow> length js = MAXJOBS
     \<and> (\<forall>i < MAXJOBS. 0 \<le> pid (js ! i) \<and> (pid (js ! i) = 0 \<longrightarrow> jid (js ! i) = 0)
          \<and> (pid (js ! i) \<noteq> 0 \<longrightarrow> 1 \<le> jid (js ! i)))
     \<and> (\<forall>i < MAXJOBS. \<forall>k < MAXJOBS. pid (js ! i) = pid (js ! k) \<longrightarrow> pid (js ! i) \<noteq> 0 \<longrightarrow> i = k)"

definition pids :: "job list \<Rightarrow> int set" where
  "pids js = pid ` set js - {0}"

lemma jobs_okD:
  assumes "jobs_ok js"
  shows "length js = MAXJOBS" "i < MAXJOBS \<Longrightarrow> 0 \<le> pid (js ! i)"
    "i < MAXJOBS \<Longrightarrow> pid (js ! i) = 0 \<Longrightarrow> jid (js ! i) = 0"
    "i < MAXJOBS \<Longrightarrow> pid (js ! i) \<noteq> 0 \<Longrightarrow> 1 \<le> jid (js ! i)"
    "i < MAXJOBS \<Longrightarrow> k < MAXJOBS \<Longrightarrow> pid (js ! i) = pid (js ! k) \<Longrightarrow> pid (js ! i) \<noteq> 0 \<Longrightarrow> i = k"
  using assms by (auto simp: jobs_ok_def)

lemma pids_nth:
  assumes "length js = MAXJOBS" shows "p \<in> pids js \<longleftrightarrow> p \<noteq> 0 \<and> (\<exists>i < MAXJOBS. pid (js ! i) = p)"
proof -
  have "pid ` set js = {pid (js ! i) |i. i < MAXJOBS}" using assms by (auto simp: set_conv_nth)
  then show ?thesis by (auto simp: pids_def)
qed

lemma nth_slot:
  "length js = MAXJOBS \<Longrightarrow> k < MAXJOBS \<Longrightarrow> js[i := j] ! k = (if i = k then j else js ! k)"
  by (simp add: nth_list_update)

lemma jobs_ok_init: "length js = MAXJOBS \<Longrightarrow> jobs_ok (initjobs js)"
  by (simp add: jobs_ok_def initjobs_def)

lemma jobs_ok_update:
  assumes "jobs_ok js" "0 \<le> pid j" "pid j = 0 \<longrightarrow> jid j = 0" "pid j \<noteq> 0 \<longrightarrow> 1 \<le> jid j"
    "pid j \<noteq> 0 \<longrightarrow> (\<forall>k < MAXJOBS. k \<noteq> i \<longrightarrow> pid (js ! k) \<noteq> pid j)"
  shows "jobs_ok (js[i := j])"
  unfolding jobs_ok_def
proof (intro conjI allI impI)
  note d = jobs_okD[OF assms(1)]
  show "length (js[i := j]) = MAXJOBS" using d(1) by simp
  fix k assume k: "k < MAXJOBS"
  note n = nth_slot[OF d(1), of _ i j]
  show "0 \<le> pid (js[i := j] ! k)" using assms(2) d(2)[OF k] n[OF k] by simp
  show "jid (js[i := j] ! k) = 0" if "pid (js[i := j] ! k) = 0"
    using assms(3) d(3)[OF k] n[OF k] that by (auto split: if_splits)
  show "1 \<le> jid (js[i := j] ! k)" if "pid (js[i := j] ! k) \<noteq> 0"
    using assms(4) d(4)[OF k] n[OF k] that by (auto split: if_splits)
  fix l assume l: "l < MAXJOBS" "pid (js[i := j] ! k) = pid (js[i := j] ! l)" "pid (js[i := j] ! k) \<noteq> 0"
  then show "k = l" using assms(5) d(5)[OF k l(1)] n[OF k] n[OF l(1)] k by (auto split: if_splits)
qed

lemma jobs_ok_clear:
  assumes "jobs_ok js" shows "jobs_ok (js[i := clearjob (js ! i)])"
  by (rule jobs_ok_update[OF assms]) simp_all

lemma jobs_ok_state:
  assumes "jobs_ok js" shows "jobs_ok (js[i := (js ! i)\<lparr>state := st\<rparr>])"
proof (cases "i < MAXJOBS")
  case True
  note d = jobs_okD[OF assms]
  show ?thesis
  proof (rule jobs_ok_update[OF assms])
    show "pid ((js ! i)\<lparr>state := st\<rparr>) \<noteq> 0 \<longrightarrow>
        (\<forall>k < MAXJOBS. k \<noteq> i \<longrightarrow> pid (js ! k) \<noteq> pid ((js ! i)\<lparr>state := st\<rparr>))"
      using d(5)[OF _ True] by force
  qed (use d(2-4)[OF True] in auto)
qed (use assms jobs_okD(1)[OF assms] in \<open>simp add: list_update_beyond\<close>)

lemma pids_clear:
  assumes "jobs_ok js" "i < MAXJOBS" "pid (js ! i) = p"
  shows "pids (js[i := clearjob (js ! i)]) = pids js - {p}"
proof (rule set_eqI)
  note d = jobs_okD[OF assms(1)]
  fix x
  let ?c = "clearjob (js ! i)"
  have l: "length (js[i := ?c]) = MAXJOBS" using d(1) by simp
  have e: "pid (js[i := ?c] ! k) = (if k = i then 0 else pid (js ! k))" if "k < MAXJOBS" for k
    using that d(1) by (simp add: nth_list_update)
  have "x \<in> pids (js[i := ?c]) \<longleftrightarrow> x \<noteq> 0 \<and> (\<exists>k < MAXJOBS. k \<noteq> i \<and> pid (js ! k) = x)"
    unfolding pids_nth[OF l] by (auto simp: e split: if_splits)
  also have "\<dots> \<longleftrightarrow> x \<in> pids js - {p}"
  proof
    assume "x \<noteq> 0 \<and> (\<exists>k < MAXJOBS. k \<noteq> i \<and> pid (js ! k) = x)"
    then obtain k where k: "x \<noteq> 0" "k < MAXJOBS" "k \<noteq> i" "pid (js ! k) = x" by blast
    moreover from k d(5)[OF k(2) assms(2)] assms(3) have "x \<noteq> p" by metis
    ultimately show "x \<in> pids js - {p}" using pids_nth[OF d(1), of x] by blast
  next
    assume x: "x \<in> pids js - {p}"
    then obtain k where "x \<noteq> 0" "k < MAXJOBS" "pid (js ! k) = x" using pids_nth[OF d(1), of x] by blast
    moreover have "k \<noteq> i" using calculation x assms(3) by blast
    ultimately show "x \<noteq> 0 \<and> (\<exists>k < MAXJOBS. k \<noteq> i \<and> pid (js ! k) = x)" by blast
  qed
  finally show "x \<in> pids (js[i := clearjob (js ! i)]) \<longleftrightarrow> x \<in> pids js - {p}" .
qed

lemma pids_state: "pids (js[i := (js ! i)\<lparr>state := st\<rparr>]) = pids js"
proof (cases "i < length js")
  case True
  then have "map pid (js[i := (js ! i)\<lparr>state := st\<rparr>]) = map pid js"
    by (simp add: map_update list_update_same_conv)
  then show ?thesis unfolding pids_def by (metis list.set_map)
qed (simp add: list_update_beyond)

lemma getjobpid_Some:
  assumes "jobs_ok js"
  shows "getjobpid js p = Some i \<longleftrightarrow> 1 \<le> p \<and> i < MAXJOBS \<and> pid (js ! i) = p"
proof
  note d = jobs_okD[OF assms]
  show "getjobpid js p = Some i \<Longrightarrow> 1 \<le> p \<and> i < MAXJOBS \<and> pid (js ! i) = p"
    using d(1) by (auto simp: getjobpid_def first_slot_Some split: if_splits)
  assume a: "1 \<le> p \<and> i < MAXJOBS \<and> pid (js ! i) = p"
  have "pid (js ! k) \<noteq> p" if "k < i" for k
    using d(5)[of k i] a that by (metis not_one_le_zero order.strict_trans order_less_irrefl)
  then show "getjobpid js p = Some i" using a d(1) by (simp add: getjobpid_def first_slot_Some)
qed

lemma getjobpid_None:
  assumes "jobs_ok js" shows "getjobpid js p = None \<longleftrightarrow> p \<notin> pids js"
proof -
  note d = jobs_okD[OF assms]
  have "p \<in> pids js \<longleftrightarrow> 1 \<le> p \<and> (\<exists>i < MAXJOBS. pid (js ! i) = p)"
    using pids_nth[OF d(1), of p] d(2) by (metis int_one_le_iff_zero_less not_one_le_zero order_le_less)
  then show ?thesis using getjobpid_Some[OF assms, of p] by (cases "getjobpid js p") auto
qed

lemma pid2jid_eq:
  "pid2jid js p = (case getjobpid js p of Some i \<Rightarrow> jid (js ! i) | None \<Rightarrow> 0)"
  by (simp add: pid2jid_def getjobpid_def)

end
