(* ===== verification/Tsh_Parse.thy ===== *)
theory Tsh_Parse
  imports C_Text
begin

text \<open>
  The command line parser of \<^verbatim>\<open>shlab-handout2/tsh.c\<close>. Arguments are separated by spaces or enclosed
  in single quotes; the last character of the line, its newline, is replaced by a space; a last
  argument that begins with an ampersand asks for a background job.
\<close>

definition MAXARGS :: nat where "MAXARGS = 128"

definition skip_spaces :: "string \<Rightarrow> string" where
  "skip_spaces = dropWhile (\<lambda>c. c = CHR '' '')"

text \<open>The argument at the start of the buffer and the text after its delimiter, if there is a delimiter.\<close>

definition next_arg :: "string \<Rightarrow> (string \<times> string) option" where
  "next_arg buf = (case buf of c # r \<Rightarrow> if c = CHR 0x27 then strchr r (CHR 0x27) else strchr buf (CHR '' '')
     | [] \<Rightarrow> strchr buf (CHR '' ''))"

lemma next_arg_length: "next_arg buf = Some (w, r) \<Longrightarrow> length w + length r < length buf"
  by (auto simp: next_arg_def split: list.splits if_splits dest: strchr_length)

lemma skip_spaces_length: "length (skip_spaces s) \<le> length s"
  by (simp add: skip_spaces_def length_dropWhile_le)

function args_from :: "string \<Rightarrow> string list" where
  "args_from buf = (case next_arg buf of None \<Rightarrow> [] | Some (w, r) \<Rightarrow> w # args_from (skip_spaces r))"
  by auto
termination
proof (relation "measure length")
  fix buf x w r
  assume "next_arg buf = Some x" "(w, r) = x"
  then have "length w + length r < length buf" using next_arg_length[of buf w r] by simp
  with skip_spaces_length[of r] show "(skip_spaces r, buf) \<in> measure length" by simp
qed simp

declare args_from.simps [simp del]

text \<open>
  The empty string would make the code write before its buffer, and more than 127 arguments make it
  write after the array \<open>argv\<close>: both are undefined behaviour.
\<close>

definition parseline :: "string \<Rightarrow> c_stop + (string list \<times> bool)" where
  "parseline line =
     (if line = [] then Inl (Undefined ''parseline'')
      else
        let buf = skip_spaces (butlast line @ '' '');
            argv = args_from buf
        in if length argv \<ge> MAXARGS then Inl (Undefined ''parseline'')
           else if argv = [] then Inr ([], True)
           else if take 1 (last argv) = ''&'' then Inr (butlast argv, True)
           else Inr (argv, False))"

section \<open>The argument list\<close>

lemma next_arg_two:
  assumes "take 1 buf \<noteq> '' ''" "next_arg buf = Some (w, r)" shows "length r + 2 \<le> length buf"
proof (cases buf)
  case (Cons c cs)
  show ?thesis
  proof (cases "c = CHR 0x27")
    case True
    then show ?thesis using assms(2) Cons by (auto simp: next_arg_def dest: strchr_length)
  next
    case False
    then have "buf = w @ CHR '' '' # r" using assms(2) Cons strchr_SomeD by (auto simp: next_arg_def)
    moreover have "w \<noteq> []" using calculation assms(1) by auto
    ultimately show ?thesis by (cases w) auto
  qed
qed (use assms in \<open>simp add: next_arg_def strchr_def\<close>)

lemma skip_spaces_start: "take 1 (skip_spaces s) \<noteq> '' ''"
  by (induction s) (auto simp: skip_spaces_def)

lemma args_from_length:
  "take 1 buf \<noteq> '' '' \<Longrightarrow> 2 * length (args_from buf) \<le> length buf"
proof (induction buf rule: args_from.induct)
  case (1 buf)
  show ?case
  proof (cases "next_arg buf")
    case (Some p)
    obtain w r where p: "p = (w, r)" by (cases p)
    with 1(1)[OF Some p[symmetric] skip_spaces_start] next_arg_two[OF 1(2)] skip_spaces_length[of r] Some
    show ?thesis by (simp add: args_from.simps[of buf])
  qed (simp add: args_from.simps[of buf])
qed

text \<open>Words that the code reads back: no spaces, no quote at the front, not empty.\<close>

definition plain :: "string \<Rightarrow> bool" where
  "plain w \<longleftrightarrow> w \<noteq> [] \<and> CHR '' '' \<notin> set w \<and> hd w \<noteq> CHR 0x27"

definition quoted :: "string \<Rightarrow> string" where
  "quoted w = CHR 0x27 # w @ [CHR 0x27]"

text \<open>An argument as the user types it, plain or quoted, and the word it stands for.\<close>

definition typed :: "string \<Rightarrow> string \<Rightarrow> bool" where
  "typed t w \<longleftrightarrow> (t = w \<and> plain w) \<or> (t = quoted w \<and> CHR 0x27 \<notin> set w)"

lemma next_arg_typed:
  assumes "typed t w" shows "\<exists>r'. next_arg (t @ CHR '' '' # r) = Some (w, r') \<and> skip_spaces r' = skip_spaces r"
  using assms unfolding typed_def
proof
  assume a: "t = w \<and> plain w"
  then obtain c cs where w: "w = c # cs" by (cases w) (auto simp: plain_def)
  have "next_arg (t @ CHR '' '' # r) = Some (w, r)"
    using a w strchr_split[of "CHR '' ''" w r] by (simp add: next_arg_def plain_def)
  then show ?thesis by blast
next
  assume a: "t = quoted w \<and> CHR 0x27 \<notin> set w"
  then have "next_arg (t @ CHR '' '' # r) = Some (w, CHR '' '' # r)"
    using strchr_split[of "CHR 0x27" w "CHR '' '' # r"] by (simp add: next_arg_def quoted_def)
  then show ?thesis by (simp add: skip_spaces_def)
qed

lemma typed_start: "typed t w \<Longrightarrow> skip_spaces (t @ r) = t @ r"
  by (cases t) (auto simp: typed_def plain_def quoted_def skip_spaces_def)

definition typed_line :: "string list \<Rightarrow> string" where
  "typed_line ts = concat (map (\<lambda>t. t @ '' '') ts)"

lemma args_from_typed:
  "list_all2 typed ts ws \<Longrightarrow> args_from (skip_spaces (typed_line ts)) = ws"
proof (induction rule: list_all2_induct)
  case Nil
  then show ?case by (simp add: typed_line_def skip_spaces_def args_from.simps next_arg_def strchr_def)
next
  case (Cons t ts w ws)
  have l: "typed_line (t # ts) = t @ CHR '' '' # typed_line ts" by (simp add: typed_line_def)
  obtain r' where "next_arg (t @ CHR '' '' # typed_line ts) = Some (w, r')"
    "skip_spaces r' = skip_spaces (typed_line ts)"
    using next_arg_typed[OF Cons(1)] by blast
  with Cons show ?case by (simp add: l typed_start args_from.simps[of "t @ CHR '' '' # typed_line ts"])
qed

lemma parseline_typed:
  assumes "list_all2 typed ts ws" "ts \<noteq> []" "length ws < MAXARGS"
  shows "parseline (butlast (typed_line ts) @ [c])
    = (if take 1 (last ws) = ''&'' then Inr (butlast ws, True) else Inr (ws, False))"
proof -
  have e: "butlast (typed_line ts) @ '' '' = typed_line ts"
  proof -
    have "typed_line ts = typed_line (butlast ts) @ last ts @ '' ''"
      using assms(2) by (cases ts rule: rev_cases) (simp_all add: typed_line_def)
    then show ?thesis by (simp add: butlast_append)
  qed
  have "ws \<noteq> []" using assms(1,2) by auto
  then show ?thesis
    using args_from_typed[OF assms(1)] assms(3) by (simp add: parseline_def Let_def e)
qed

section \<open>The properties\<close>

text \<open>C25. Round trip of the command line parser: a line made of plain words and single-quoted words,
  separated by spaces and ended by a newline, is parsed to exactly these words; a last word that
  begins with an ampersand is dropped and makes the job a background job.\<close>

theorem parseline_roundtrip:
  assumes "list_all2 typed ts ws" "ts \<noteq> []" "length ws < MAXARGS"
  shows "parseline (butlast (typed_line ts) @ [char_of (10 :: nat)])
    = (if take 1 (last ws) = ''&'' then Inr (butlast ws, True) else Inr (ws, False))"
  by (rule parseline_typed[OF assms])

theorem parseline_roundtrip_witness:
  "parseline (''a '' @ [CHR 0x27] @ ''b c'' @ [CHR 0x27] @ '' &'' @ [char_of (10 :: nat)])
    = Inr ([''a'', ''b c''], True)"
  using parseline_roundtrip[of "[''a'', quoted ''b c'', ''&'']" "[''a'', ''b c'', ''&'']"]
  by (simp add: typed_def plain_def quoted_def typed_line_def MAXARGS_def)

text \<open>C26. A non-empty line of fewer than 256 characters never overruns the argument array: the parser
  returns at most one argument for every two characters.\<close>

theorem parseline_bounds:
  assumes "line \<noteq> []" "length line < 2 * MAXARGS"
  shows "\<exists>argv bg. parseline line = Inr (argv, bg) \<and> 2 * length argv \<le> length line"
proof -
  let ?buf = "skip_spaces (butlast line @ '' '')"
  have "2 * length (args_from ?buf) \<le> length ?buf"
    by (rule args_from_length[OF skip_spaces_start])
  moreover have "length ?buf \<le> length line"
    using skip_spaces_length[of "butlast line @ '' ''"] assms(1) by (cases line) auto
  ultimately show ?thesis using assms by (auto simp: parseline_def Let_def)
qed

theorem parseline_bounds_witness: "\<exists>argv bg. parseline ''jobs '' = Inr (argv, bg) \<and> 2 * length argv \<le> 5"
  using parseline_bounds[of "''jobs ''"] by (simp add: MAXARGS_def eval_nat_numeral)

end
