(* ===== verification/Tsh.thy ===== *)
theory Tsh
  imports Tsh_Jobs Tsh_Parse
begin

text \<open>
  The tiny shell \<^verbatim>\<open>shlab-handout2/tsh.c\<close>: evaluation of a command line, the builtins, waiting for the
  foreground job, and the signal handlers, which interrupt the main program between any two of its
  steps unless \<open>SIGCHLD\<close> is blocked. What the main program does next is the field \<open>ctrl\<close>. The
  operating system is a parameter: what \<open>fork\<close> returned, what each \<open>waitpid\<close> reported, the text of
  \<open>strerror(errno)\<close>; what the shell asks of it, the signals it sends, is recorded in \<open>kills\<close>.
\<close>

definition SIGINT :: int where "SIGINT = 2"
definition SIGCONT :: int where "SIGCONT = 18"
definition SIGTSTP :: int where "SIGTSTP = 20"
definition ECHILD :: int where "ECHILD = 10"

text \<open>
  The points of the main program at which a handler can run: \<open>Reading\<close>, before the next command
  line; \<open>Forked\<close>, after \<open>fork\<close> and before \<open>addjob\<close>, with \<open>SIGCHLD\<close> blocked; \<open>Unblocked\<close>, after it
  is unblocked again; \<open>Resumed\<close>, after \<open>do_bgfg\<close> has sent \<open>SIGCONT\<close>, holding the slot, the job id
  and the process id it looked up; \<open>Entering\<close>, at the call of \<open>waitfg\<close>; \<open>Waiting\<close>, in its loop
  over the slot it found. \<open>Halted\<close>: the shell has exited or run into undefined behaviour.
\<close>

datatype ctrl =
    Reading
  | Forked int bool string
  | Unblocked int bool string
  | Resumed nat int int bool
  | Entering int
  | Waiting nat
  | Halted c_stop

record tsh = shell +
  ctrl :: ctrl
  emit_prompt :: bool

definition goto :: "ctrl \<Rightarrow> tsh \<Rightarrow> tsh" where
  "goto c s = s\<lparr>ctrl := c\<rparr>"

definition set_state :: "nat \<Rightarrow> job_state \<Rightarrow> tsh \<Rightarrow> tsh" where
  "set_state i st s = s\<lparr>jobs := (jobs s)[i := (jobs s ! i)\<lparr>state := st\<rparr>]\<rparr>"

definition send_signal :: "int \<Rightarrow> int \<Rightarrow> tsh \<Rightarrow> tsh" where
  "send_signal p sig s = s\<lparr>kills := kills s @ [(p, sig)]\<rparr>"

text \<open>The error routines print and exit; \<open>err\<close> is the text of \<open>strerror(errno)\<close>.\<close>

definition unix_error :: "string \<Rightarrow> string \<Rightarrow> tsh \<Rightarrow> tsh" where
  "unix_error msg err s = goto (Halted (Exits 1)) (printf (msg @ '': '' @ err @ newline) s)"

definition app_error :: "string \<Rightarrow> tsh \<Rightarrow> tsh" where
  "app_error msg s = goto (Halted (Exits 1)) (printf (msg @ newline) s)"

definition usage :: "tsh \<Rightarrow> tsh" where
  "usage s = goto (Halted (Exits 1))
     (printf (''   -p   do not emit a command prompt'' @ newline)
     (printf (''   -v   print additional diagnostic information'' @ newline)
     (printf (''   -h   print this message'' @ newline)
     (printf (''Usage: shell [-hvp]'' @ newline) s))))"

section \<open>Builtin commands\<close>

text \<open>
  \<open>do_bgfg\<close> up to the \<open>kill\<close>: the argument is a process id or, after a percent sign, a job id.
\<close>

definition do_bgfg :: "string list \<Rightarrow> tsh \<Rightarrow> tsh" where
  "do_bgfg argv s =
     (let isbg = (argv ! 0 = ''bg''); name = (if isbg then ''bg'' else ''fg'')
      in case tl argv of
           [] \<Rightarrow> printf (name @ '' command requires PID or %jobid argument'' @ '' '' @ newline) s
         | p # _ \<Rightarrow>
             let by_jid = (take 1 p = ''%''); digits = (if by_jid then tl p else p)
             in if \<not> list_all isdigit digits
                then printf (name @ '': argument must be a PID or %jobid'' @ '' '' @ newline) s
                else case atoi digits of
                    None \<Rightarrow> goto (Halted (Undefined ''atoi'')) s
                  | Some n \<Rightarrow>
                     case if by_jid then getjobjid (jobs s) n else getjobpid (jobs s) n of
                       None \<Rightarrow>
                         if by_jid then printf (p @ '': '' @ ''No such job'' @ '' '' @ newline) s
                         else printf (''('' @ p @ ''): '' @ ''No such process'' @ '' '' @ newline) s
                     | Some i \<Rightarrow>
                         let q = (if by_jid then pid (jobs s ! i) else n);
                             k = (if by_jid then n else jid (jobs s ! i))
                         in goto (Resumed i k q isbg) (send_signal (- q) SIGCONT s))"

text \<open>The rest of \<open>do_bgfg\<close>, through the pointer to the slot it looked up.\<close>

definition do_bgfg_resume :: "nat \<Rightarrow> int \<Rightarrow> int \<Rightarrow> bool \<Rightarrow> tsh \<Rightarrow> tsh" where
  "do_bgfg_resume i k q isbg s =
     (if isbg
      then let s1 = set_state i BG s
           in goto Reading (printf (''['' @ int_string k @ ''] ('' @ int_string q @ '') ''
                @ cmdline (jobs s1 ! i)) s1)
      else goto (Entering q) (set_state i FG s))"

text \<open>The result says whether the command was a builtin; \<open>argv[0] = NULL\<close> is given to \<open>strcmp\<close>.\<close>

definition builtin_cmd :: "string list \<Rightarrow> tsh \<Rightarrow> bool \<times> tsh" where
  "builtin_cmd argv s =
     (case argv of
        [] \<Rightarrow> (True, goto (Halted (Undefined ''strcmp'')) s)
      | name # _ \<Rightarrow>
          if name = ''quit'' then (True, goto (Halted (Exits 0)) s)
          else if name = ''jobs'' then (True, listjobs s)
          else if name = ''fg'' then (True, do_bgfg argv s)
          else if name = ''bg'' then (True, do_bgfg argv s)
          else (False, s))"

section \<open>Evaluating a command line\<close>

text \<open>\<open>eval\<close> up to the return of \<open>fork\<close> in the parent, \<open>p\<close> being its result.\<close>

definition eval :: "string \<Rightarrow> int \<Rightarrow> string \<Rightarrow> tsh \<Rightarrow> tsh" where
  "eval line p err s =
     (case parseline line of
        Inl e \<Rightarrow> goto (Halted e) s
      | Inr (argv, bg) \<Rightarrow>
          (case builtin_cmd argv s of
             (True, s1) \<Rightarrow> s1
           | (False, s1) \<Rightarrow>
               if p < 0 then unix_error ''Fork error'' err s1
               else goto (Forked p bg line) s1))"

text \<open>The child of the fork: it runs the program, or prints and exits when \<open>execve\<close> fails.\<close>

definition child_run :: "string list \<Rightarrow> bool \<Rightarrow> tsh \<Rightarrow> tsh" where
  "child_run argv execve_ok s =
     (if execve_ok then s
      else goto (Halted (Exits 0)) (printf (argv ! 0 @ '': Command not found '' @ newline) s))"

definition eval_add :: "int \<Rightarrow> bool \<Rightarrow> string \<Rightarrow> tsh \<Rightarrow> tsh" where
  "eval_add p bg line s =
     goto (Unblocked p bg line) (snd (addjob p (if bg then BG else FG) line s))"

definition eval_finish :: "int \<Rightarrow> bool \<Rightarrow> string \<Rightarrow> tsh \<Rightarrow> tsh" where
  "eval_finish p bg line s =
     (if \<not> bg then goto (Entering p) s
      else goto Reading (printf (''['' @ int_string (pid2jid (jobs s) p) @ ''] ('' @ int_string p
             @ '') '' @ line) s))"

text \<open>
  \<open>waitfg\<close> looks its job up once and reads its state through the pointer; \<open>NULL\<close> is dereferenced.
\<close>

definition waitfg :: "int \<Rightarrow> tsh \<Rightarrow> tsh" where
  "waitfg p s = (case getjobpid (jobs s) p of
      None \<Rightarrow> goto (Halted (Undefined ''waitfg'')) s
    | Some i \<Rightarrow> goto (Waiting i) s)"

definition waitfg_poll :: "nat \<Rightarrow> tsh \<Rightarrow> tsh" where
  "waitfg_poll i s = (if state (jobs s ! i) = FG then s else goto Reading s)"

text \<open>The main loop's read: \<open>fgets\<close> failed, the input ended, or a line was read.\<close>

datatype input = Read_error | End_of_file | Line string

definition main_read :: "input \<Rightarrow> int \<Rightarrow> string \<Rightarrow> tsh \<Rightarrow> tsh" where
  "main_read inp p err s =
     (let s1 = (if emit_prompt s then printf ''tsh> '' s else s)
      in case inp of
           Read_error \<Rightarrow> app_error ''fgets error'' s1
         | End_of_file \<Rightarrow> goto (Halted (Exits 0)) s1
         | Line line \<Rightarrow> eval line p err s1)"

text \<open>The option loop of \<open>main\<close> over what \<open>getopt\<close> returned, then the empty job list.\<close>

fun main_options :: "char list \<Rightarrow> tsh \<Rightarrow> tsh" where
  "main_options [] s = s\<lparr>jobs := initjobs (jobs s)\<rparr>"
| "main_options (c # cs) s =
     (if c = CHR ''h'' then usage s
      else if c = CHR ''v'' then main_options cs (s\<lparr>verbose := True\<rparr>)
      else if c = CHR ''p'' then main_options cs (s\<lparr>emit_prompt := False\<rparr>)
      else usage s)"

section \<open>Signal handlers\<close>

datatype wstatus = Exited int | Signaled int | Stopped int

text \<open>One round of the loop of \<open>sigchld_handler\<close>, for a child that \<open>waitpid\<close> reported.\<close>

definition reap :: "int \<times> wstatus \<Rightarrow> tsh \<Rightarrow> tsh" where
  "reap r s =
     (case r of (p, st) \<Rightarrow>
        (case st of
           Exited _ \<Rightarrow> snd (deletejob p s)
         | Signaled _ \<Rightarrow>
             let s1 = printf (''Job'' @ '' ['' @ int_string (pid2jid (jobs s) p) @ ''] (''
                        @ int_string p @ '') '' @ ''terminated by signal 2'' @ '' '' @ newline) s
             in snd (deletejob p s1)
         | Stopped _ \<Rightarrow>
             (case getjobpid (jobs s) p of
                None \<Rightarrow> goto (Halted (Undefined ''sigchld_handler'')) s
              | Some i \<Rightarrow>
                  let k = jid (jobs s ! i)
                  in printf (''Job'' @ '' ['' @ int_string k @ ''] ('' @ int_string p @ '') ''
                       @ ''stopped by signal 20'' @ '' '' @ newline) (set_state i ST s))))"

fun reap_all :: "(int \<times> wstatus) list \<Rightarrow> tsh \<Rightarrow> tsh" where
  "reap_all [] s = s"
| "reap_all (r # rs) s = (let s1 = reap r s in case ctrl s1 of Halted _ \<Rightarrow> s1 | _ \<Rightarrow> reap_all rs s1)"

text \<open>
  \<open>rs\<close> are the positive results of \<open>waitpid\<close> with their status words, \<open>r\<close> the last result, which
  ends the loop, and \<open>errno\<close> its error number.
\<close>

definition sigchld_handler :: "(int \<times> wstatus) list \<Rightarrow> int \<Rightarrow> int \<Rightarrow> string \<Rightarrow> tsh \<Rightarrow> tsh" where
  "sigchld_handler rs r errno err s =
     (let s1 = reap_all rs s
      in case ctrl s1 of
           Halted _ \<Rightarrow> s1
         | _ \<Rightarrow> if errno \<noteq> ECHILD \<and> r < 0 then unix_error ''waitpid error'' err s1 else s1)"

definition sigint_handler :: "int \<Rightarrow> tsh \<Rightarrow> tsh" where
  "sigint_handler sig s =
     (let p = fgpid (jobs s) in if p \<noteq> 0 then send_signal (- p) sig s else s)"

definition sigtstp_handler :: "int \<Rightarrow> tsh \<Rightarrow> tsh" where
  "sigtstp_handler sig s =
     (let p = fgpid (jobs s) in if p \<noteq> 0 then send_signal (- p) sig s else s)"

definition sigquit_handler :: "int \<Rightarrow> tsh \<Rightarrow> tsh" where
  "sigquit_handler sig s =
     goto (Halted (Exits 1)) (printf (''Terminating after receipt of SIGQUIT signal'' @ newline) s)"

section \<open>Runs of the shell\<close>

definition running :: "tsh \<Rightarrow> bool" where
  "running s \<longleftrightarrow> (\<forall>e. ctrl s \<noteq> Halted e)"

definition sigchld_blocked :: "tsh \<Rightarrow> bool" where
  "sigchld_blocked s \<longleftrightarrow> (\<exists>p bg line. ctrl s = Forked p bg line)"

text \<open>
  What is assumed of the system: \<open>fork\<close> returns the process id of no child that the shell still has
  on its list (such a child has not been waited for), and \<open>waitpid\<close> reports positive process ids.
\<close>

definition fork_result :: "int \<Rightarrow> tsh \<Rightarrow> bool" where
  "fork_result p s \<longleftrightarrow> p < 0 \<or> (0 < p \<and> p \<notin> pids (jobs s))"

inductive tsh_step :: "tsh \<Rightarrow> tsh \<Rightarrow> bool" where
  main_reads: "ctrl s = Reading \<Longrightarrow> fork_result p s \<Longrightarrow> tsh_step s (main_read inp p err s)"
| job_added: "ctrl s = Forked p bg line \<Longrightarrow> tsh_step s (eval_add p bg line s)"
| eval_ends: "ctrl s = Unblocked p bg line \<Longrightarrow> tsh_step s (eval_finish p bg line s)"
| job_resumed: "ctrl s = Resumed i k p isbg \<Longrightarrow> tsh_step s (do_bgfg_resume i k p isbg s)"
| wait_starts: "ctrl s = Entering p \<Longrightarrow> tsh_step s (waitfg p s)"
| wait_polls: "ctrl s = Waiting i \<Longrightarrow> tsh_step s (waitfg_poll i s)"
| sigint: "running s \<Longrightarrow> tsh_step s (sigint_handler SIGINT s)"
| sigtstp: "running s \<Longrightarrow> tsh_step s (sigtstp_handler SIGTSTP s)"
| sigquit: "running s \<Longrightarrow> tsh_step s (sigquit_handler sig s)"
| sigchld: "running s \<Longrightarrow> \<not> sigchld_blocked s \<Longrightarrow> \<forall>(p, st) \<in> set rs. 0 < p \<Longrightarrow>
    tsh_step s (sigchld_handler rs r errno err s)"

definition start_job :: job where
  "start_job = \<lparr>pid = 0, jid = 0, state = UNDEF, cmdline = []\<rparr>"

text \<open>The static data when \<open>main\<close> starts; \<open>opts\<close> is what \<open>getopt\<close> will return.\<close>

definition start_tsh :: "char list \<Rightarrow> tsh" where
  "start_tsh opts = main_options opts \<lparr>jobs = replicate MAXJOBS start_job, nextjid = 1, verbose = False,
     outp = [], kills = [], ctrl = Reading, emit_prompt = True\<rparr>"

inductive tsh_reach :: "tsh \<Rightarrow> bool" where
  reach_start: "tsh_reach (start_tsh opts)"
| reach_step: "tsh_reach s \<Longrightarrow> tsh_step s s' \<Longrightarrow> tsh_reach s'"

end
