(* ===== verification/Tsh_Inv.thy ===== *)
theory Tsh_Inv
  imports Tsh
begin

text \<open>
  Invariants of the shell over all interleavings of the main program with the signal handlers: the
  job list stays well formed and at most one job is in the foreground, the one the main program is
  about to wait for or waits for. The handlers only clear slots and take jobs out of the foreground
  (\<open>shrinks\<close>); each step of the main program is one lemma.
\<close>

lemma tsh_simps [simp]:
  "jobs (goto c s) = jobs s" "nextjid (goto c s) = nextjid s" "kills (goto c s) = kills s"
  "outp (goto c s) = outp s" "ctrl (goto c s) = c" "verbose (goto c s) = verbose s"
  "ctrl (printf t s) = ctrl s" "ctrl (set_state i st s) = ctrl s" "ctrl (send_signal p sig s) = ctrl s"
  "nextjid (set_state i st s) = nextjid s" "kills (set_state i st s) = kills s"
  "jobs (send_signal p sig s) = jobs s" "nextjid (send_signal p sig s) = nextjid s"
  "kills (send_signal p sig s) = kills s @ [(p, sig)]"
  "jobs (set_state i st s) = (jobs s)[i := (jobs s ! i)\<lparr>state := st\<rparr>]"
  by (simp_all add: goto_def set_state_def send_signal_def printf_def)

definition fg_slots :: "job list \<Rightarrow> nat set" where
  "fg_slots js = {i. i < MAXJOBS \<and> state (js ! i) = FG}"

text \<open>Which slots can be in the foreground at each point of the main program.\<close>

fun fg_ok :: "ctrl \<Rightarrow> job list \<Rightarrow> bool" where
  "fg_ok Reading js \<longleftrightarrow> fg_slots js = {}"
| "fg_ok (Forked p bg line) js \<longleftrightarrow> fg_slots js = {} \<and> 0 < p \<and> p \<notin> pids js"
| "fg_ok (Unblocked p bg line) js \<longleftrightarrow> 0 < p \<and> (\<forall>i \<in> fg_slots js. \<not> bg \<and> pid (js ! i) = p)"
| "fg_ok (Resumed i k p isbg) js \<longleftrightarrow> fg_slots js = {} \<and> 0 < p \<and> i < MAXJOBS
     \<and> (pid (js ! i) = p \<or> pid (js ! i) = 0 \<and> p \<notin> pids js)"
| "fg_ok (Entering p) js \<longleftrightarrow> (\<exists>i. fg_slots js \<subseteq> {i}
     \<and> (i < MAXJOBS \<longrightarrow> pid (js ! i) = p \<or> pid (js ! i) = 0 \<and> p \<notin> pids js)) \<and> 0 < p"
| "fg_ok (Waiting i) js \<longleftrightarrow> fg_slots js \<subseteq> {i}"
| "fg_ok (Halted e) js \<longleftrightarrow> True"

definition tsh_inv :: "tsh \<Rightarrow> bool" where
  "tsh_inv s \<longleftrightarrow> jobs_ok (jobs s) \<and> 1 \<le> nextjid s \<and> fg_ok (ctrl s) (jobs s)"

section \<open>What the handlers can do\<close>

definition slot_shrinks :: "job \<Rightarrow> job \<Rightarrow> bool" where
  "slot_shrinks j j' \<longleftrightarrow> (pid j' = pid j \<and> (state j' = state j \<or> state j' \<noteq> FG)) \<or> (pid j' = 0 \<and> state j' \<noteq> FG)"

definition shrinks :: "tsh \<Rightarrow> tsh \<Rightarrow> bool" where
  "shrinks s s' \<longleftrightarrow> (jobs_ok (jobs s) \<longrightarrow> jobs_ok (jobs s')) \<and> (1 \<le> nextjid s \<longrightarrow> 1 \<le> nextjid s')
     \<and> (jobs_ok (jobs s) \<longrightarrow> (\<forall>i < MAXJOBS. slot_shrinks (jobs s ! i) (jobs s' ! i)))
     \<and> (ctrl s' = ctrl s \<or> (\<exists>e. ctrl s' = Halted e))"

lemma slot_shrinks_refl [simp, intro]: "slot_shrinks j j"
  by (simp add: slot_shrinks_def)

lemma slot_shrinks_trans: "slot_shrinks j k \<Longrightarrow> slot_shrinks k l \<Longrightarrow> slot_shrinks j l"
  by (auto simp: slot_shrinks_def)

lemma shrinks_trans: "shrinks s s' \<Longrightarrow> shrinks s' s'' \<Longrightarrow> shrinks s s''"
  unfolding shrinks_def by (auto intro: slot_shrinks_trans)

lemma shrinks_same:
  "jobs s' = jobs s \<Longrightarrow> nextjid s' = nextjid s \<Longrightarrow> ctrl s' = ctrl s \<or> (\<exists>e. ctrl s' = Halted e) \<Longrightarrow> shrinks s s'"
  by (simp add: shrinks_def)

lemma deletejob_ctrl [simp]: "ctrl (snd (deletejob p (s :: tsh))) = ctrl s"
  by (cases "first_slot (\<lambda>j. pid j = p) (jobs s)") (simp_all add: deletejob_def Let_def)

lemma deletejob_eq:
  assumes "jobs_ok (jobs s)"
  shows "deletejob p s = (case getjobpid (jobs s) p of None \<Rightarrow> (0, s)
    | Some i \<Rightarrow> (1, s\<lparr>jobs := (jobs s)[i := clearjob (jobs s ! i)],
        nextjid := maxjid ((jobs s)[i := clearjob (jobs s ! i)]) + 1\<rparr>))"
  by (cases "first_slot (\<lambda>j. pid j = p) (jobs s)") (simp_all add: deletejob_def getjobpid_def Let_def)

lemma shrinks_update:
  assumes j: "jobs_ok (jobs s) \<Longrightarrow> jobs_ok ((jobs s)[i := j])" "slot_shrinks (jobs s ! i) j"
    and s': "jobs s' = (jobs s)[i := j]" "1 \<le> nextjid s \<Longrightarrow> 1 \<le> nextjid s'" "ctrl s' = ctrl s"
  shows "shrinks s s'"
proof -
  have "slot_shrinks (jobs s ! k) (jobs s' ! k)" if "k < MAXJOBS" "jobs_ok (jobs s)" for k
    using that jobs_okD(1)[OF that(2)] j(2) s'(1) by (cases "k = i") (auto simp: nth_list_update)
  with assms show ?thesis by (simp add: shrinks_def)
qed

lemma shrinks_deletejob: "shrinks s (snd (deletejob p s))"
proof -
  consider "snd (deletejob p s) = s"
    | i where "snd (deletejob p s) = s\<lparr>jobs := (jobs s)[i := clearjob (jobs s ! i)],
        nextjid := maxjid ((jobs s)[i := clearjob (jobs s ! i)]) + 1\<rparr>"
    by (cases "p < 1"; cases "first_slot (\<lambda>j. pid j = p) (jobs s)") (auto simp: deletejob_def Let_def)
  then show ?thesis
  proof cases
    case 2
    then show ?thesis
      using maxjid_ge[of "(jobs s)[i := clearjob (jobs s ! i)]"]
      by (intro shrinks_update[of s i "clearjob (jobs s ! i)"] jobs_ok_clear)
        (simp_all add: slot_shrinks_def)
  qed (simp add: shrinks_def)
qed

lemma shrinks_stopped: "shrinks s (printf t (set_state i ST s))"
  by (rule shrinks_update[of s i "(jobs s ! i)\<lparr>state := ST\<rparr>"])
    (simp_all add: jobs_ok_state slot_shrinks_def)

lemma shrinks_reap: "shrinks s (reap r s)"
proof -
  have "shrinks s (printf t s)" for t by (rule shrinks_same) simp_all
  then have "shrinks s (snd (deletejob p (printf t s)))" for p t
    using shrinks_deletejob shrinks_trans by blast
  then show ?thesis
    using shrinks_deletejob[of s] shrinks_stopped[of s]
    by (auto simp: reap_def Let_def shrinks_same split: prod.splits wstatus.splits option.splits)
qed

lemma shrinks_reap_all: "shrinks s (reap_all rs s)"
proof (induction rs arbitrary: s)
  case (Cons r rs)
  show ?case
    using shrinks_reap[of s r] Cons[of "reap r s"]
    by (auto simp: Let_def split: ctrl.splits intro: shrinks_trans)
qed (simp add: shrinks_same)

lemma shrinks_sigchld: "shrinks s (sigchld_handler rs r errno err s)"
proof -
  have "shrinks (reap_all rs s) (unix_error msg err (reap_all rs s))" for msg
    by (rule shrinks_same) (simp_all add: unix_error_def)
  with shrinks_reap_all[of s rs] show ?thesis
    by (auto simp: sigchld_handler_def Let_def split: ctrl.splits intro: shrinks_trans)
qed

lemma shrinks_fg_slots:
  "shrinks s s' \<Longrightarrow> jobs_ok (jobs s) \<Longrightarrow> fg_slots (jobs s') \<subseteq> fg_slots (jobs s)
    \<and> (\<forall>i \<in> fg_slots (jobs s'). pid (jobs s' ! i) = pid (jobs s ! i))"
  by (auto simp: shrinks_def fg_slots_def slot_shrinks_def)

lemma shrinks_pids:
  assumes "shrinks s s'" "jobs_ok (jobs s)" shows "pids (jobs s') \<subseteq> pids (jobs s)"
proof
  have o: "jobs_ok (jobs s')" using assms by (simp add: shrinks_def)
  fix p assume "p \<in> pids (jobs s')"
  then obtain i where "p \<noteq> 0" "i < MAXJOBS" "pid (jobs s' ! i) = p"
    using pids_nth[OF jobs_okD(1)[OF o]] by blast
  moreover from this have "pid (jobs s ! i) = p"
    using assms by (auto simp: shrinks_def slot_shrinks_def)
  ultimately show "p \<in> pids (jobs s)"
    using pids_nth[OF jobs_okD(1)[OF assms(2)], of p] by blast
qed

text \<open>A slot whose job had process id \<open>p\<close> still has it, or \<open>p\<close> is on the list no more.\<close>

lemma shrinks_slot:
  assumes S: "shrinks s s'" "jobs_ok (jobs s)" and i: "i < MAXJOBS"
    and p: "pid (jobs s ! i) = p \<or> pid (jobs s ! i) = 0 \<and> p \<notin> pids (jobs s)" "0 < p"
  shows "pid (jobs s' ! i) = p \<or> pid (jobs s' ! i) = 0 \<and> p \<notin> pids (jobs s')"
proof (cases "pid (jobs s' ! i) = p")
  case False
  have o: "jobs_ok (jobs s')" using S by (simp add: shrinks_def)
  have "slot_shrinks (jobs s ! i) (jobs s' ! i)" using S i by (simp add: shrinks_def)
  then have z: "pid (jobs s' ! i) = 0" using p False by (auto simp: slot_shrinks_def)
  have "p \<notin> pids (jobs s')"
  proof
    assume x: "p \<in> pids (jobs s')"
    then obtain k where k: "k < MAXJOBS" "pid (jobs s' ! k) = p"
      using pids_nth[OF jobs_okD(1)[OF o]] by blast
    then have "pid (jobs s ! k) = p"
      using S p(2) by (auto simp: shrinks_def slot_shrinks_def)
    moreover have "pid (jobs s ! i) = p" using p shrinks_pids[OF S] x by blast
    ultimately have "k = i" using jobs_okD(5)[OF S(2) k(1) i] p(2) by simp
    with k(2) False show False by simp
  qed
  with z show ?thesis by simp
qed simp

lemma shrinks_inv:
  assumes S: "shrinks s s'" and I: "tsh_inv s" shows "tsh_inv s'"
proof -
  have o: "jobs_ok (jobs s)" using I by (simp add: tsh_inv_def)
  note f = shrinks_fg_slots[OF S o] and p = shrinks_pids[OF S o] and sl = shrinks_slot[OF S o]
  have "fg_ok (ctrl s) (jobs s')"
  proof (cases "ctrl s")
    case (Entering q)
    then obtain i where i: "fg_slots (jobs s) \<subseteq> {i}" "0 < q"
      "i < MAXJOBS \<longrightarrow> pid (jobs s ! i) = q \<or> pid (jobs s ! i) = 0 \<and> q \<notin> pids (jobs s)"
      using I by (auto simp: tsh_inv_def)
    then have "i < MAXJOBS \<longrightarrow> pid (jobs s' ! i) = q \<or> pid (jobs s' ! i) = 0 \<and> q \<notin> pids (jobs s')"
      using sl by blast
    moreover have "fg_slots (jobs s') \<subseteq> {i}" using f i(1) by blast
    ultimately show ?thesis using Entering i(2) by auto
  next
    case (Resumed i k q isbg)
    then show ?thesis using I f sl[of i q] by (auto simp: tsh_inv_def)
  qed (use I f p in \<open>fastforce simp: tsh_inv_def\<close>)+
  then show ?thesis using S I by (auto simp: tsh_inv_def shrinks_def)
qed

section \<open>The steps of the main program\<close>

lemma fg_slots_state:
  assumes "jobs_ok js" "i < MAXJOBS"
  shows "fg_slots (js[i := j]) = (if state j = FG then insert i (fg_slots js) else fg_slots js - {i})"
  using assms jobs_okD(1)[OF assms(1)] by (auto simp: fg_slots_def nth_list_update split: if_splits)

lemma inv_goto_halted: "tsh_inv s \<Longrightarrow> tsh_inv (goto (Halted e) s)"
  by (simp add: tsh_inv_def)

lemma tsh_inv_printf [simp]: "tsh_inv (printf t s) = tsh_inv s"
  by (simp add: tsh_inv_def)

lemma inv_listjobs: "tsh_inv s \<Longrightarrow> tsh_inv (listjobs s)"
  by (simp add: tsh_inv_def listjobs_def)

lemma first_slot_getjobjid:
  assumes "jobs_ok js" "getjobjid js n = Some i"
  shows "i < MAXJOBS" "0 < pid (js ! i)"
proof -
  from assms(2) have n: "1 \<le> n" "first_slot (\<lambda>j. jid j = n) js = Some i"
    by (auto simp: getjobjid_def split: if_splits)
  note d = jobs_okD[OF assms(1)]
  show "i < MAXJOBS" using first_slotD(1)[OF n(2)] d(1) by simp
  with n first_slotD(2)[OF n(2)] d(2)[of i] d(3)[of i] show "0 < pid (js ! i)" by fastforce
qed

lemma inv_do_bgfg:
  assumes I: "tsh_inv s" "ctrl s = Reading" shows "tsh_inv (do_bgfg argv s)"
proof -
  have o: "jobs_ok (jobs s)" "fg_slots (jobs s) = {}" "1 \<le> nextjid s" using I by (auto simp: tsh_inv_def)
  have r: "tsh_inv (goto (Resumed i k q b) (send_signal x y s))"
    if "i < MAXJOBS" "pid (jobs s ! i) = q" "0 < q" for i k q b x y
    using that o by (simp add: tsh_inv_def)
  have j: "i < MAXJOBS \<and> 0 < pid (jobs s ! i)" if "getjobjid (jobs s) n = Some i" for i n
    using first_slot_getjobjid[OF o(1) that] by simp
  have p: "i < MAXJOBS \<and> pid (jobs s ! i) = n \<and> 0 < n" if "getjobpid (jobs s) n = Some i" for i n
    using that getjobpid_Some[OF o(1)] by simp
  show ?thesis
    using I(1) j p by (auto simp: do_bgfg_def Let_def inv_goto_halted intro!: r split: list.splits option.splits)
qed

lemma inv_eval:
  assumes I: "tsh_inv s" "ctrl s = Reading" and p: "p < 0 \<or> (0 < p \<and> p \<notin> pids (jobs s))"
  shows "tsh_inv (eval line p err s)"
proof -
  have b: "tsh_inv (snd (builtin_cmd argv s))" for argv
    using I by (auto simp: builtin_cmd_def inv_goto_halted inv_listjobs inv_do_bgfg split: list.splits)
  have n: "builtin_cmd argv s = (False, s1) \<Longrightarrow> s1 = s" for argv s1
    by (auto simp: builtin_cmd_def split: list.splits if_splits)
  have "tsh_inv (goto (Forked p bg line) s)" if "\<not> p < 0" for bg
    using I p that by (simp add: tsh_inv_def)
  note f = this
  show ?thesis
  proof (cases "parseline line")
    case (Inr r)
    obtain argv bg where r: "r = (argv, bg)" by (cases r)
    obtain d s1 where d: "builtin_cmd argv s = (d, s1)" by (cases "builtin_cmd argv s")
    show ?thesis
    proof (cases d)
      case True
      with b[of argv] d Inr r show ?thesis by (simp add: eval_def)
    next
      case False
      with n d have "s1 = s" by simp
      with False d Inr r I(1) f show ?thesis by (auto simp: eval_def unix_error_def inv_goto_halted)
    qed
  qed (use I(1) in \<open>simp add: eval_def inv_goto_halted\<close>)
qed

lemma inv_main_read:
  assumes I: "tsh_inv s" "ctrl s = Reading" and p: "fork_result p s"
  shows "tsh_inv (main_read inp p err s)"
proof -
  let ?s = "if emit_prompt s then printf ''tsh> '' s else s"
  have "tsh_inv ?s" "ctrl ?s = Reading" "jobs ?s = jobs s" using I by simp_all
  then show ?thesis
    using inv_eval[of ?s p] p
    by (auto simp: main_read_def Let_def inv_goto_halted app_error_def fork_result_def split: input.splits)
qed

lemma addjob_ctrl [simp]: "ctrl (snd (addjob p st line (s :: tsh))) = ctrl s"
  by (auto simp: addjob_def Let_def split: option.splits)

lemma addjob_jobs:
  assumes "0 < p"
  shows "jobs (snd (addjob p st line s)) = (case first_slot (\<lambda>j. pid j = 0) (jobs s) of None \<Rightarrow> jobs s
      | Some i \<Rightarrow> (jobs s)[i := (jobs s ! i)\<lparr>pid := p, jid := nextjid s, state := st, cmdline := line\<rparr>])"
    and "nextjid (snd (addjob p st line s)) = (case first_slot (\<lambda>j. pid j = 0) (jobs s) of None \<Rightarrow> nextjid s
      | Some i \<Rightarrow> if nextjid s + 1 > int MAXJOBS then 1 else nextjid s + 1)"
  using assms by (auto simp: addjob_def Let_def split: option.splits)

lemma addjob_ok:
  assumes "jobs_ok (jobs s)" "1 \<le> nextjid s" "0 < p" "p \<notin> pids (jobs s)"
  shows "jobs_ok (jobs (snd (addjob p st line s)))" "1 \<le> nextjid (snd (addjob p st line s))"
proof -
  note d = jobs_okD[OF assms(1)]
  have "pid (jobs s ! k) \<noteq> p" if "k < MAXJOBS" for k
    using assms(3,4) that pids_nth[OF d(1), of p] by auto
  then have "jobs_ok ((jobs s)[i := (jobs s ! i)\<lparr>pid := p, jid := nextjid s, state := st, cmdline := line\<rparr>])" for i
    using assms(2,3) by (intro jobs_ok_update[OF assms(1)]) simp_all
  then show "jobs_ok (jobs (snd (addjob p st line s)))"
    using assms(1) by (auto simp: addjob_jobs[OF assms(3)] split: option.splits)
  show "1 \<le> nextjid (snd (addjob p st line s))"
    using assms(2) by (auto simp: addjob_jobs[OF assms(3)] split: option.splits)
qed

lemma inv_eval_add:
  assumes I: "tsh_inv s" "ctrl s = Forked p bg line" shows "tsh_inv (eval_add p bg line s)"
proof -
  have o: "jobs_ok (jobs s)" "1 \<le> nextjid s" "0 < p" "p \<notin> pids (jobs s)" "fg_slots (jobs s) = {}"
    using I by (auto simp: tsh_inv_def)
  let ?st = "if bg then BG else FG"
  have "\<forall>i \<in> fg_slots (jobs (snd (addjob p ?st line s))). \<not> bg \<and> pid (jobs (snd (addjob p ?st line s)) ! i) = p"
  proof (cases "first_slot (\<lambda>j. pid j = 0) (jobs s)")
    case (Some i)
    then have i: "i < MAXJOBS" using first_slotD(1) jobs_okD(1)[OF o(1)] by metis
    show ?thesis using o(3,5) i jobs_okD(1)[OF o(1)]
      by (auto simp: addjob_jobs Some fg_slots_state[OF o(1) i])
  qed (use o in \<open>simp add: addjob_jobs\<close>)
  then show ?thesis using addjob_ok[OF o(1-4)] o(3) by (auto simp add: eval_add_def tsh_inv_def)
qed

lemma inv_eval_finish:
  assumes I: "tsh_inv s" "ctrl s = Unblocked p bg line" shows "tsh_inv (eval_finish p bg line s)"
proof (cases bg)
  case True
  then show ?thesis using I by (auto simp: eval_finish_def tsh_inv_def)
next
  case False
  have o: "jobs_ok (jobs s)" using I by (simp add: tsh_inv_def)
  have u: "i = k" if "i \<in> fg_slots (jobs s)" "k \<in> fg_slots (jobs s)" for i k
    using that I jobs_okD(5)[OF o, of i k] by (force simp: tsh_inv_def fg_slots_def)
  have "\<exists>i. fg_slots (jobs s) \<subseteq> {i} \<and> (i < MAXJOBS \<longrightarrow> pid (jobs s ! i) = p \<or> pid (jobs s ! i) = 0 \<and> p \<notin> pids (jobs s))"
  proof (cases "fg_slots (jobs s) = {}")
    case False
    then obtain i where "i \<in> fg_slots (jobs s)" by blast
    with u I show ?thesis by (intro exI[of _ i]) (auto simp: tsh_inv_def)
  qed (auto intro: exI[of _ MAXJOBS])
  then show ?thesis using False I by (simp add: eval_finish_def tsh_inv_def)
qed

lemma inv_resume:
  assumes I: "tsh_inv s" "ctrl s = Resumed i k p isbg" shows "tsh_inv (do_bgfg_resume i k p isbg s)"
proof -
  have o: "jobs_ok (jobs s)" "1 \<le> nextjid s" "0 < p" "fg_slots (jobs s) = {}" "i < MAXJOBS"
    "pid (jobs s ! i) = p \<or> pid (jobs s ! i) = 0 \<and> p \<notin> pids (jobs s)"
    using I by (auto simp: tsh_inv_def)
  have l: "length (jobs s) = MAXJOBS" using jobs_okD(1)[OF o(1)] .
  show ?thesis
    using o l by (auto simp: do_bgfg_resume_def Let_def tsh_inv_def jobs_ok_state fg_slots_state pids_state
        intro!: exI[of _ i])
qed

lemma inv_waitfg:
  assumes I: "tsh_inv s" "ctrl s = Entering p" shows "tsh_inv (waitfg p s)"
proof (cases "getjobpid (jobs s) p")
  case (Some i)
  have o: "jobs_ok (jobs s)" using I by (simp add: tsh_inv_def)
  have i: "i < MAXJOBS" "pid (jobs s ! i) = p" "1 \<le> p" using Some getjobpid_Some[OF o] by auto
  obtain k where k: "fg_slots (jobs s) \<subseteq> {k}"
    "k < MAXJOBS \<longrightarrow> pid (jobs s ! k) = p \<or> pid (jobs s ! k) = 0 \<and> p \<notin> pids (jobs s)"
    using I by (auto simp: tsh_inv_def)
  have "p \<in> pids (jobs s)" using i pids_nth[OF jobs_okD(1)[OF o]] by auto
  then have "fg_slots (jobs s) \<subseteq> {i}"
    using k i jobs_okD(5)[OF o] by (auto simp: fg_slots_def)
  with I Some show ?thesis by (simp add: waitfg_def tsh_inv_def)
qed (use I in \<open>simp add: waitfg_def inv_goto_halted\<close>)

lemma inv_poll:
  assumes "tsh_inv s" "ctrl s = Waiting i" shows "tsh_inv (waitfg_poll i s)"
  using assms by (auto simp: waitfg_poll_def tsh_inv_def fg_slots_def)

end
