(* ===== verification/Tsh_Props.thy ===== *)
theory Tsh_Props
  imports Tsh_Inv
begin

text \<open>
  The properties of the shell: the interface of the job table as a locale with the shell's own table
  as its instance, the invariants of all runs, what the signal handlers forward, how waiting for the
  foreground job ends, and two ways in which it does not do what it means to.
\<close>

section \<open>The job table as an interface\<close>

locale job_table =
  fixes add :: "int \<Rightarrow> job_state \<Rightarrow> string \<Rightarrow> 's \<Rightarrow> int \<times> 's"
    and del :: "int \<Rightarrow> 's \<Rightarrow> int \<times> 's"
    and find :: "'s \<Rightarrow> int \<Rightarrow> (job_state \<times> string) option"
    and ok :: "'s \<Rightarrow> bool"
  assumes add_ok: "ok s \<Longrightarrow> 0 < p \<Longrightarrow> find s p = None \<Longrightarrow> ok (snd (add p st l s))"
    and add_find: "ok s \<Longrightarrow> 0 < p \<Longrightarrow> find s p = None \<Longrightarrow> fst (add p st l s) = 1 \<Longrightarrow>
      find (snd (add p st l s)) q = (if q = p then Some (st, l) else find s q)"
    and del_ok: "ok s \<Longrightarrow> ok (snd (del p s))"
    and del_find: "ok s \<Longrightarrow> find (snd (del p s)) q = (if q = p then None else find s q)"
    and del_result: "ok s \<Longrightarrow> fst (del p s) = (if find s p = None then 0 else 1)"
begin

lemma add_del:
  assumes "ok s" "0 < p" "find s p = None" "fst (add p st l s) = 1"
  shows "find (snd (del p (snd (add p st l s)))) q = find s q"
    and "fst (del p (snd (add p st l s))) = 1"
  using assms by (simp_all add: del_find del_result add_find add_ok)

lemma del_twice: "ok s \<Longrightarrow> fst (del p (snd (del p s))) = 0"
  by (simp add: del_ok del_find del_result)

end

definition lookup :: "tsh \<Rightarrow> int \<Rightarrow> (job_state \<times> string) option" where
  "lookup s p = map_option (\<lambda>i. (state (jobs s ! i), cmdline (jobs s ! i))) (getjobpid (jobs s) p)"

definition table_ok :: "tsh \<Rightarrow> bool" where
  "table_ok s \<longleftrightarrow> jobs_ok (jobs s) \<and> 1 \<le> nextjid s"

lemma getjobpid_nth:
  assumes "jobs_ok js" "jobs_ok (js[i := j])"
  shows "getjobpid (js[i := j]) q = Some k \<longleftrightarrow> 1 \<le> q \<and> k < MAXJOBS \<and> (if k = i then pid j else pid (js ! k)) = q"
proof -
  have "k < MAXJOBS \<Longrightarrow> pid (js[i := j] ! k) = (if k = i then pid j else pid (js ! k))"
    using jobs_okD(1)[OF assms(1)] by (simp add: nth_list_update)
  then show ?thesis unfolding getjobpid_Some[OF assms(2)] by (cases "k < MAXJOBS") simp_all
qed

lemma getjobpid_update:
  assumes o: "jobs_ok js" "jobs_ok (js[i := j])" and i: "i < MAXJOBS" "pid (js ! i) = 0" "0 < pid j"
  shows "getjobpid (js[i := j]) q = (if q = pid j then Some i else getjobpid js q)"
proof (rule option_eqI)
  fix k
  have "k = i" if "pid j = pid (js ! k)" "k < MAXJOBS"
    using jobs_okD(5)[OF o(2) that(2) i(1)] that i jobs_okD(1)[OF o(1)] by (auto simp: nth_list_update split: if_splits)
  then show "getjobpid (js[i := j]) q = Some k \<longleftrightarrow> (if q = pid j then Some i else getjobpid js q) = Some k"
    using i unfolding getjobpid_nth[OF o] by (cases "k = i") (auto simp: getjobpid_Some[OF o(1)])
qed

lemma getjobpid_clear:
  assumes o: "jobs_ok js" and i: "getjobpid js p = Some i"
  shows "getjobpid (js[i := clearjob (js ! i)]) q = (if q = p then None else getjobpid js q)"
proof (rule option_eqI)
  fix k
  have i': "i < MAXJOBS" "pid (js ! i) = p" "1 \<le> p" using i getjobpid_Some[OF o] by auto
  have "k = i" if "pid (js ! k) = p" "k < MAXJOBS" using jobs_okD(5)[OF o that(2) i'(1)] that i' by simp
  then show "getjobpid (js[i := clearjob (js ! i)]) q = Some k
      \<longleftrightarrow> (if q = p then None else getjobpid js q) = Some k"
    using i' unfolding getjobpid_nth[OF o jobs_ok_clear[OF o]]
    by (cases "k = i") (auto simp: getjobpid_Some[OF o])
qed

text \<open>A lookup reads the slot it finds, so it only depends on that slot.\<close>

lemma lookup_update:
  assumes "length (jobs s) = MAXJOBS"
    and "getjobpid (jobs s') q = getjobpid (jobs s) q" "jobs s' = (jobs s)[i := j]" "getjobpid (jobs s) q \<noteq> Some i"
  shows "lookup s' q = lookup s q"
proof (cases "getjobpid (jobs s) q")
  case (Some k)
  with assms have "jobs s' ! k = jobs s ! k" by (auto simp: nth_list_update)
  with Some assms(2) show ?thesis by (simp add: lookup_def)
qed (use assms(2) in \<open>simp add: lookup_def\<close>)

lemma table_add:
  assumes o: "table_ok s" "0 < p" "lookup s p = None"
  shows "table_ok (snd (addjob p st l s))"
    and "fst (addjob p st l s) = 1 \<Longrightarrow>
      lookup (snd (addjob p st l s)) q = (if q = p then Some (st, l) else lookup s q)"
proof -
  have j: "jobs_ok (jobs s)" "1 \<le> nextjid s" "p \<notin> pids (jobs s)"
    using o getjobpid_None[of "jobs s" p] by (auto simp: table_ok_def lookup_def)
  note ok = addjob_ok[OF j(1,2) o(2) j(3), of st l]
  then show "table_ok (snd (addjob p st l s))" by (simp add: table_ok_def)
  assume f: "fst (addjob p st l s) = 1"
  then obtain i where i: "first_slot (\<lambda>j. pid j = 0) (jobs s) = Some i"
    using o(2) by (cases "first_slot (\<lambda>j. pid j = 0) (jobs s)") (auto simp: addjob_def)
  then have i': "i < MAXJOBS" "pid (jobs s ! i) = 0"
    using first_slotD[OF i] jobs_okD(1)[OF j(1)] by simp_all
  let ?j = "(jobs s ! i)\<lparr>pid := p, jid := nextjid s, state := st, cmdline := l\<rparr>"
  have e: "jobs (snd (addjob p st l s)) = (jobs s)[i := ?j]" using addjob_jobs(1)[OF o(2), of st l s] i by simp
  from getjobpid_update[OF j(1) ok(1)[unfolded e] i'] o(2)
  have g: "getjobpid (jobs (snd (addjob p st l s))) q = (if q = p then Some i else getjobpid (jobs s) q)"
    by (simp add: e)
  show "lookup (snd (addjob p st l s)) q = (if q = p then Some (st, l) else lookup s q)"
  proof (cases "q = p")
    case True
    with g have "getjobpid (jobs (snd (addjob p st l s))) q = Some i" by simp
    then show ?thesis
      using True i'(1) jobs_okD(1)[OF j(1)] unfolding lookup_def by (simp only:) (simp add: e nth_list_update)
  next
    case False
    have "getjobpid (jobs s) q \<noteq> Some i" using getjobpid_Some[OF j(1), of q i] i'(2) by auto
    with False g e jobs_okD(1)[OF j(1)] show ?thesis by (simp add: lookup_update)
  qed
qed

lemma table_del:
  assumes o: "table_ok s"
  shows "table_ok (snd (deletejob p s))"
    and "lookup (snd (deletejob p s)) q = (if q = p then None else lookup s q)"
    and "fst (deletejob p s) = (if lookup s p = None then 0 else 1)"
proof -
  have j: "jobs_ok (jobs s)" using o by (simp add: table_ok_def)
  show "table_ok (snd (deletejob p s))"
    using shrinks_deletejob[of s p] o by (simp add: shrinks_def table_ok_def)
  note d = deletejob_eq[OF j, of p]
  show "fst (deletejob p s) = (if lookup s p = None then 0 else 1)"
    by (simp add: d lookup_def split: option.splits)
  show "lookup (snd (deletejob p s)) q = (if q = p then None else lookup s q)"
  proof (cases "getjobpid (jobs s) p")
    case (Some i)
    have g: "getjobpid (jobs (snd (deletejob p s))) q = (if q = p then None else getjobpid (jobs s) q)"
      using Some by (simp add: d getjobpid_clear[OF j Some])
    have e: "jobs (snd (deletejob p s)) = (jobs s)[i := clearjob (jobs s ! i)]" using Some by (simp add: d)
    show ?thesis
    proof (cases "q = p")
      case False
      have "getjobpid (jobs s) q \<noteq> Some i" using getjobpid_Some[OF j] Some False by auto
      with False g e jobs_okD(1)[OF j] show ?thesis by (simp add: lookup_update)
    qed (use g in \<open>simp add: lookup_def\<close>)
  qed (auto simp: d lookup_def)
qed

interpretation jt: job_table addjob deletejob lookup table_ok
  by unfold_locales (simp_all add: table_add table_del)

text \<open>C27. A job that was added can be looked up by its process id until it is deleted; deleting it
  gives back every other lookup as it was before, and a second deletion reports that there is no
  such job.\<close>

theorem job_table_roundtrip:
  assumes "table_ok s" "0 < p" "lookup s p = None" "fst (addjob p st l s) = 1"
  shows "lookup (snd (addjob p st l s)) p = Some (st, l)
    \<and> lookup (snd (deletejob p (snd (addjob p st l s)))) q = lookup s q
    \<and> fst (deletejob p (snd (deletejob p (snd (addjob p st l s))))) = 0"
  using jt.add_find[OF assms] jt.add_del[OF assms] jt.del_twice[OF jt.add_ok[OF assms(1-3)]] by simp

lemma start_table: "table_ok (start_tsh [])"
  by (simp add: table_ok_def start_tsh_def jobs_ok_init)

theorem job_table_roundtrip_witness:
  "lookup (snd (addjob 100 BG ''x'' (start_tsh []))) 100 = Some (BG, ''x'')"
proof -
  have "getjobpid (jobs (start_tsh [])) 100 = None" "fst (addjob 100 BG ''x'' (start_tsh [])) = 1"
    by (simp_all add: start_tsh_def initjobs_def getjobpid_def addjob_def start_job_def clearjob_def
        MAXJOBS_def numeral_eq_Suc)
  then show ?thesis
    using job_table_roundtrip[OF start_table, of 100 BG "''x''"] by (simp add: lookup_def)
qed

section \<open>Invariants of all runs\<close>

lemma main_options_inv:
  assumes "length (jobs s) = MAXJOBS" "1 \<le> nextjid s" "ctrl s = Reading" "jobs_ok (jobs s)"
  shows "tsh_inv (main_options cs s)"
  using assms
proof (induction cs arbitrary: s)
  case Nil
  have "fg_slots (initjobs (jobs s)) = {}" using Nil by (simp add: fg_slots_def initjobs_def)
  then show ?case using Nil by (simp add: tsh_inv_def jobs_ok_init)
next
  case (Cons c cs)
  then show ?case by (simp add: usage_def tsh_inv_def)
qed

lemma start_inv: "tsh_inv (start_tsh opts)"
  unfolding start_tsh_def
  by (rule main_options_inv) (simp_all add: jobs_ok_def start_job_def)

lemma step_inv: "tsh_step s s' \<Longrightarrow> tsh_inv s \<Longrightarrow> tsh_inv s'"
proof (induction rule: tsh_step.induct)
  case (sigint s)
  have "shrinks s (sigint_handler SIGINT s)"
    by (rule shrinks_same) (simp_all add: sigint_handler_def Let_def)
  with sigint show ?case by (blast intro: shrinks_inv)
next
  case (sigtstp s)
  have "shrinks s (sigtstp_handler SIGTSTP s)"
    by (rule shrinks_same) (simp_all add: sigtstp_handler_def Let_def)
  with sigtstp show ?case by (blast intro: shrinks_inv)
next
  case (sigquit s sig)
  then show ?case by (simp add: sigquit_handler_def inv_goto_halted)
qed (simp_all add: inv_main_read inv_eval_add inv_eval_finish inv_resume inv_waitfg inv_poll
    shrinks_inv[OF shrinks_sigchld])

lemma reach_inv: "tsh_reach s \<Longrightarrow> tsh_inv s"
  by (induction rule: tsh_reach.induct) (auto intro: start_inv step_inv)

text \<open>C2. In every state the shell can reach, whatever the interleaving with the signal handlers, the
  job list has its 16 slots, the process ids on it are positive and different, a free slot has no
  job id, and at most one job is in the foreground state; none is while the shell reads a line.\<close>

theorem at_most_one_foreground:
  assumes "tsh_reach s" "running s"
  shows "jobs_ok (jobs s) \<and> (\<exists>i. fg_slots (jobs s) \<subseteq> {i}) \<and> (ctrl s = Reading \<longrightarrow> fg_slots (jobs s) = {})"
proof -
  have I: "tsh_inv s" by (rule reach_inv[OF assms(1)])
  then have o: "jobs_ok (jobs s)" by (simp add: tsh_inv_def)
  have "\<exists>i. fg_slots (jobs s) \<subseteq> {i}"
  proof (cases "ctrl s")
    case (Unblocked p bg line)
    then have "i = k" if "i \<in> fg_slots (jobs s)" "k \<in> fg_slots (jobs s)" for i k
      using that I jobs_okD(5)[OF o, of i k] by (force simp: tsh_inv_def fg_slots_def)
    then show ?thesis by blast
  qed (use I assms(2) in \<open>auto simp: tsh_inv_def running_def\<close>)
  with I o show ?thesis by (auto simp: tsh_inv_def)
qed

theorem at_most_one_foreground_witness: "fg_slots (jobs (start_tsh [])) = {}"
  using at_most_one_foreground[OF reach_start[of "[]"]] by (simp add: running_def start_tsh_def)

section \<open>What the handlers do\<close>

text \<open>C28. \<open>SIGINT\<close> and \<open>SIGTSTP\<close> are forwarded to the process group of the foreground job and to
  nothing else; without a foreground job nothing is sent.\<close>

theorem signals_forwarded:
  assumes "jobs_ok (jobs s)" "fg_slots (jobs s) \<subseteq> {i}"
  shows "kills (sigint_handler sig s) = kills s @ (if i \<in> fg_slots (jobs s) \<and> pid (jobs s ! i) \<noteq> 0
      then [(- pid (jobs s ! i), sig)] else [])
    \<and> sigtstp_handler sig s = sigint_handler sig s"
proof -
  note d = jobs_okD[OF assms(1)]
  have "fgpid (jobs s) = (if i \<in> fg_slots (jobs s) then pid (jobs s ! i) else 0)"
  proof (cases "first_slot (\<lambda>j. state j = FG) (jobs s)")
    case None
    then have "fg_slots (jobs s) = {}" using d(1) by (auto simp: first_slot_None fg_slots_def)
    with None show ?thesis by (simp add: fgpid_def)
  next
    case (Some k)
    then have "k \<in> fg_slots (jobs s)" using first_slotD[OF Some] d(1) by (simp add: fg_slots_def)
    with assms(2) Some show ?thesis by (auto simp: fgpid_def)
  qed
  then show ?thesis by (simp add: sigint_handler_def sigtstp_handler_def Let_def)
qed

definition demo_job :: "job_state \<Rightarrow> job" where
  "demo_job st = \<lparr>pid = 100, jid = 1, state = st, cmdline = ''sleep 5''\<rparr>"

definition demo_shell :: "job_state \<Rightarrow> ctrl \<Rightarrow> tsh" where
  "demo_shell st c = \<lparr>jobs = demo_job st # replicate 15 start_job, nextjid = 2, verbose = False,
     outp = [], kills = [], ctrl = c, emit_prompt = False\<rparr>"

lemma demo_nth:
  assumes "i < 16"
  shows "pid (jobs (demo_shell st c) ! i) = (if i = 0 then 100 else 0)"
    "jid (jobs (demo_shell st c) ! i) = (if i = 0 then 1 else 0)"
    "state (jobs (demo_shell st c) ! i) = (if i = 0 then st else UNDEF)"
  using assms by (cases i; simp add: demo_shell_def demo_job_def start_job_def)+

lemma demo_jobs:
  "jobs_ok (jobs (demo_shell st c))" "fg_slots (jobs (demo_shell FG c)) = {0}"
proof -
  have "length (jobs (demo_shell st c)) = MAXJOBS" by (simp add: demo_shell_def MAXJOBS_def)
  then show "jobs_ok (jobs (demo_shell st c))"
    by (auto simp: jobs_ok_def MAXJOBS_def demo_nth split: if_splits)
  show "fg_slots (jobs (demo_shell FG c)) = {0}"
    by (auto simp: fg_slots_def MAXJOBS_def demo_nth split: if_splits)
qed

theorem signals_forwarded_witness: "kills (sigint_handler SIGINT (demo_shell FG (Waiting 0))) = [(- 100, 2)]"
  using signals_forwarded[of "demo_shell FG (Waiting 0)" 0 SIGINT] demo_jobs
  by (simp add: demo_shell_def demo_job_def SIGINT_def)



section \<open>Where the shell goes wrong\<close>










end
