(* ===== verification/Thr_Names.thy ===== *)
theory Thr_Names
  imports C_Text
begin

text \<open>The two name tables of \<^verbatim>\<open>thrlab/help.c\<close>: the barbers, one per room, and the customers.\<close>

definition barber_names :: "string list" where
  "barber_names =
    [''HAL9000'', ''Terminator'', ''Wall-E'', ''Johnny-5'', ''Dot-Matrix'', ''C-3PO'', ''R2D2'',
     ''Optimus-Prime'', ''Bishop'', ''Call'', ''Robot'', ''Robocop'', ''Andrew'', ''Bender'',
     ''T-1000'', ''GERTY-3000'', ''Data'', ''Sonny'', ''Astro-Boy'', ''Baymax'', ''TARS'',
     ''CASE'', ''Cylon'', ''C.H.E.E.S.E.'', ''Funnybot'', ''GIR'', ''D.A.V.E.'', ''Six'',
     ''Replicator'', ''MegaMan'', ''ED209'', ''B.E.N.'', ''SID-6.7'', ''21-B'', ''Fembot'',
     ''Sentinel'', ''Gigalo-Joe'', ''DroidEkas'', ''D.A.R.Y.L.'', ''Pris'', ''Omnidroid'',
     ''Teddy'', ''EVE'', ''Mechagodzilla'', ''Steprod-Wive'', ''Marvin'', ''Ash'', ''Gort'',
     ''Roy-Batty'']"

definition customer_names :: "string list" where
  "customer_names =
    [''Abigail'', ''Adam'', ''Adrian'', ''Alan'', ''Alexander'', ''Alexandra'', ''Alison'',
     ''Amanda'', ''Amelia'', ''Amy'', ''Andrea'', ''Andrew'', ''Angela'', ''Anna'', ''Anne'',
     ''Anthony'', ''Audrey'', ''Austin'', ''Ava'', ''Bella'', ''Benjamin'', ''Bernadette'',
     ''Blake'', ''Boris'', ''Brandon'', ''Brian'', ''Cameron'', ''Carl'', ''Carol'', ''Caroline'',
     ''Carolyn'', ''Charles'', ''Chloe'', ''Christian'', ''Christopher'', ''Claire'', ''Colin'',
     ''Connor'', ''Dan'', ''David'', ''Deirdre'', ''Diana'', ''Diane'', ''Dominic'', ''Donna'',
     ''Dorothy'', ''Dylan'', ''Edward'', ''Elizabeth'', ''Ella'', ''Emily'', ''Emma'', ''Eric'',
     ''Evan'', ''Faith'', ''Felicity'', ''Fiona'', ''Frank'', ''Gabrielle'', ''Gavin'',
     ''Gordon'', ''Grace'', ''Hannah'', ''Harry'', ''Heather'', ''Ian'', ''Irene'', ''Isaac'',
     ''Jack'', ''Jacob'', ''Jake'', ''James'', ''Jan'', ''Jane'', ''Jasmine'', ''Jason'',
     ''Jennifer'', ''Jessica'', ''Joan'', ''Joanne'', ''Joe'', ''John'', ''Jonathan'', ''Joseph'',
     ''Joshua'', ''Julia'', ''Julian'', ''Justin'', ''Karen'', ''Katherine'', ''Keith'',
     ''Kevin'', ''Kimberly'', ''Kylie'', ''Lauren'', ''Leah'', ''Leonard'', ''Liam'', ''Lillian'',
     ''Lily'', ''Lisa'', ''Lucas'', ''Luke'', ''Madeleine'', ''Maria'', ''Mary'', ''Matt'',
     ''Max'', ''Megan'', ''Melanie'', ''Michael'', ''Michelle'', ''Molly'', ''Natalie'',
     ''Nathan'', ''Neil'', ''Nicholas'', ''Nicola'', ''Oliver'', ''Olivia'', ''Owen'', ''Paul'',
     ''Penelope'', ''Peter'', ''Phil'', ''Piers'', ''Pippa'', ''Rachel'', ''Rebecca'',
     ''Richard'', ''Robert'', ''Rose'', ''Ruth'', ''Ryan'', ''Sally'', ''Sam'', ''Samantha'',
     ''Sarah'', ''Sean'', ''Sebastian'', ''Simon'', ''Sonia'', ''Sophie'', ''Stephanie'',
     ''Stephen'', ''Steven'', ''Stewart'', ''Sue'', ''Theresa'', ''Thomas'', ''Tim'', ''Tracey'',
     ''Trevor'', ''Una'', ''Vanessa'', ''Victor'', ''Victoria'', ''Virginia'', ''Wanda'',
     ''Warren'', ''Wendy'', ''William'', ''Yvonne'', ''Zoe'']"

lemma length_barber_names: "length barber_names = 49"
  by (simp add: barber_names_def)

lemma length_customer_names: "length customer_names = 164"
  by (simp add: customer_names_def)

end
