(* ===== verification/Thr_Monitor.thy ===== *)
theory Thr_Monitor
  imports Thr_Names
begin

text \<open>
  The barbershop monitor of \<^verbatim>\<open>thrlab/help.c\<close>: it knows every customer's status and which customer sits
  in which room, counts the ways in which the simulation can misbehave, and reports them at the end.
  Each entry point holds the monitor's lock from its first access to its last, so it is one step on
  the record; \<open>now\<close> is the clock reading it prints, \<open>at\<close> the one it stores or compares. A customer is
  known by its id, the index under which \<open>add_customer\<close> stored it. The counters are \<open>size_t\<close>.
\<close>

datatype customer_status =
  CUSTOMER_PENDING | CUSTOMER_WAITING | CUSTOMER_CUTTING | CUSTOMER_DONE | CUSTOMER_REJECTED

datatype complaint =
    Reject_avail | Reject_wait | Reject_cut | Reject_done | Reject_again | Accept_full
    | Accept_wait | Accept_cut | Accept_done | Accept_reject | Prepare_pending | Prepare_busy
    | Prepare_again | Prepare_done | Prepare_reject | Prepare_self | Dismiss_pending
    | Dismiss_wait | Dismiss_done | Dismiss_reject | Dismiss_room | Dismiss_self
    | Dismiss_early | Cut_fast | Cut_slow

record timespec =
  tv_sec :: int
  tv_nsec :: int

record customer =
  cname :: string
  cid :: nat
  hair_length :: nat
  hair_goal :: nat

record monitor =
  start :: timespec
  visitors :: nat
  barbers :: nat
  chairs :: nat
  rate :: nat
  num_cutting :: nat
  num_waiting :: nat
  num_pending :: nat
  complaints :: "complaint \<Rightarrow> nat"
  customers :: "customer list"
  statuses :: "customer_status list"
  times :: "nat \<Rightarrow> timespec"
  occupancy :: "nat option list"
  mlog :: "(int \<times> string) list"

text \<open>Arithmetic of \<open>size_t\<close> (64 bits) and of \<open>unsigned int\<close>.\<close>

definition size_incr :: "nat \<Rightarrow> nat" where "size_incr n = (n + 1) mod 2 ^ 64"
definition size_decr :: "nat \<Rightarrow> nat" where "size_decr n = (n + 2 ^ 64 - 1) mod 2 ^ 64"
definition uint_sub :: "nat \<Rightarrow> nat \<Rightarrow> nat" where "uint_sub a b = (a + 2 ^ 32 - b) mod 2 ^ 32"

definition zu :: "nat \<Rightarrow> string" where "zu n = nat_digits n"

text \<open>Time differences in nanoseconds; the code computes them in seconds with a \<open>double\<close>.\<close>

definition timespec_diff :: "timespec \<Rightarrow> timespec \<Rightarrow> int" where
  "timespec_diff now before =
     (tv_sec now * 1000000000 + tv_nsec now) - (tv_sec before * 1000000000 + tv_nsec before)"

text \<open>\<open>time_printf\<close>: the log keeps the time since the start with the text.\<close>

definition time_printf :: "timespec \<Rightarrow> string \<Rightarrow> monitor \<Rightarrow> monitor" where
  "time_printf now t m = m\<lparr>mlog := mlog m @ [(timespec_diff now (start m), t)]\<rparr>"

definition complain :: "complaint \<Rightarrow> monitor \<Rightarrow> monitor" where
  "complain k m = m\<lparr>complaints := (complaints m)(k := size_incr (complaints m k))\<rparr>"

definition set_status :: "nat \<Rightarrow> customer_status \<Rightarrow> monitor \<Rightarrow> monitor" where
  "set_status i st m = m\<lparr>statuses := (statuses m)[i := st]\<rparr>"

text \<open>The text "name (#id)" that the messages share, and the genitive's s.\<close>

definition who :: "customer \<Rightarrow> string" where
  "who c = cname c @ '' (#'' @ zu (cid c) @ '')''"

definition genitive :: "string \<Rightarrow> string" where
  "genitive w = [CHR 0x27] @ (if last w = CHR ''s'' then '''' else ''s'')"

definition customer_cutting_time :: "customer \<Rightarrow> int" where
  "customer_cutting_time c = 5000000 * int (uint_sub (hair_length c) (hair_goal c))"

definition add_customer :: "customer \<Rightarrow> customer_status \<Rightarrow> monitor \<Rightarrow> c_stop + (nat \<times> monitor)" where
  "add_customer c st m =
     (if \<not> length (customers m) < visitors m then Inl (Aborts ''add_customer'')
      else Inr (length (customers m), m\<lparr>customers := customers m @ [c], statuses := statuses m @ [st]\<rparr>))"

section \<open>Entry points\<close>

text \<open>The customer's id is asserted to be a visitor's; an id not yet stored has no status to read.\<close>

definition with_status :: "customer \<Rightarrow> monitor \<Rightarrow> (customer_status \<Rightarrow> monitor) \<Rightarrow> c_stop + monitor" where
  "with_status c m f =
     (if \<not> cid c < visitors m then Inl (Aborts ''assert'')
      else if \<not> cid c < length (statuses m) then Inl (Undefined ''status'')
      else Inr (f (statuses m ! cid c)))"

definition thrlab_accept_customer :: "customer \<Rightarrow> timespec \<Rightarrow> monitor \<Rightarrow> c_stop + monitor" where
  "thrlab_accept_customer c now m = with_status c m (\<lambda>st.
     let m1 = (if st = CUSTOMER_PENDING then time_printf now (who c @ '' waits.'' @ newline) m
               else time_printf now (who c @ '' is confused!'' @ newline) m)
     in case st of
          CUSTOMER_PENDING \<Rightarrow>
            let m2 = (if chairs m1 \<le> num_waiting m1 then complain Accept_full m1 else m1);
                m3 = set_status (cid c) CUSTOMER_WAITING m2
            in m3\<lparr>num_waiting := size_incr (num_waiting m3), num_pending := size_decr (num_pending m3)\<rparr>
        | CUSTOMER_WAITING \<Rightarrow> complain Accept_wait m1
        | CUSTOMER_CUTTING \<Rightarrow> complain Accept_cut m1
        | CUSTOMER_DONE \<Rightarrow> complain Accept_done m1
        | CUSTOMER_REJECTED \<Rightarrow> complain Accept_reject m1)"

definition thrlab_reject_customer :: "customer \<Rightarrow> timespec \<Rightarrow> monitor \<Rightarrow> c_stop + monitor" where
  "thrlab_reject_customer c now m = with_status c m (\<lambda>st.
     let m1 = (if st = CUSTOMER_PENDING then time_printf now (who c @ '' was turned away!'' @ newline) m
               else time_printf now (who c @ '' is confused!'' @ newline) m)
     in case st of
          CUSTOMER_PENDING \<Rightarrow>
            let m2 = (if chairs m1 > num_waiting m1 then complain Reject_avail m1 else m1);
                m3 = set_status (cid c) CUSTOMER_REJECTED m2
            in m3\<lparr>num_pending := size_decr (num_pending m3)\<rparr>
        | CUSTOMER_WAITING \<Rightarrow> complain Reject_wait m1
        | CUSTOMER_CUTTING \<Rightarrow> complain Reject_cut m1
        | CUSTOMER_DONE \<Rightarrow> complain Reject_done m1
        | CUSTOMER_REJECTED \<Rightarrow> complain Reject_again m1)"

definition thrlab_prepare_customer ::
    "customer \<Rightarrow> nat \<Rightarrow> bool \<Rightarrow> timespec \<Rightarrow> timespec \<Rightarrow> monitor \<Rightarrow> c_stop + monitor" where
  "thrlab_prepare_customer c room self now at m =
     (if \<not> room < barbers m then Inl (Aborts ''assert'')
      else with_status c m (\<lambda>st.
        let b = barber_names ! room; occ = occupancy m ! room
        in if occ \<noteq> None \<and> occ \<noteq> Some (cid c) then
             complain Prepare_busy (time_printf now (cname c @ genitive (cname c) @ '' (#'' @ zu (cid c)
               @ '') confused! '' @ b @ '' is busy cutting someone else!'' @ newline) m)
           else
             let m1 =
               (if st = CUSTOMER_WAITING then
                  if \<not> self then
                    time_printf now (b @ '' begins giving '' @ who c @ '' a haircut in room '' @ zu room @ newline) m
                  else complain Prepare_self
                    (time_printf now (b @ '' orders '' @ who c @ '' to cut their own hair!'' @ newline) m)
                else time_printf now (b @ '' and '' @ who c @ '' are confused!'' @ newline) m)
             in case st of
                  CUSTOMER_PENDING \<Rightarrow> complain Prepare_pending m1
                | CUSTOMER_WAITING \<Rightarrow>
                    if occ \<noteq> None then complain Prepare_busy m1
                    else
                      let m2 = set_status (cid c) CUSTOMER_CUTTING
                                 (m1\<lparr>occupancy := (occupancy m1)[room := Some (cid c)]\<rparr>)
                      in m2\<lparr>num_cutting := size_incr (num_cutting m2), num_waiting := size_decr (num_waiting m2),
                           times := (times m2)(cid c := at)\<rparr>
                | CUSTOMER_CUTTING \<Rightarrow> complain Prepare_again m1
                | CUSTOMER_DONE \<Rightarrow> complain Prepare_done m1
                | CUSTOMER_REJECTED \<Rightarrow> complain Prepare_reject m1))"

definition thrlab_dismiss_customer ::
    "customer \<Rightarrow> nat \<Rightarrow> bool \<Rightarrow> timespec \<Rightarrow> timespec \<Rightarrow> monitor \<Rightarrow> c_stop + monitor" where
  "thrlab_dismiss_customer c room self now at m =
     (if \<not> room < barbers m then Inl (Aborts ''assert'')
      else with_status c m (\<lambda>st.
        let b = barber_names ! room
        in if occupancy m ! room \<noteq> Some (cid c) then
             complain Dismiss_room (time_printf now (b @ genitive b @ '' confused! '' @ who c
               @ '' wasn'' @ [CHR 0x27] @ ''t found in their room!'' @ newline) m)
           else
             let m1 =
               (if st = CUSTOMER_CUTTING then
                  if \<not> self then
                    time_printf now (b @ '' finishes cutting '' @ cname c @ genitive (cname c)
                      @ '' (#'' @ zu (cid c) @ '') hair.'' @ newline) m
                  else complain Dismiss_self (time_printf now (b @ '' orders '' @ who c
                      @ '' to show themselves to the door after their haircut!'' @ newline) m)
                else time_printf now (b @ '' and '' @ who c @ '' are confused!'' @ newline) m)
             in case st of
                  CUSTOMER_PENDING \<Rightarrow> complain Dismiss_pending m1
                | CUSTOMER_WAITING \<Rightarrow> complain Dismiss_wait m1
                | CUSTOMER_CUTTING \<Rightarrow>
                    let t = customer_cutting_time c;
                        dt = timespec_diff at (times m1 (cid c));
                        m2 = (if dt < t then complain Cut_fast m1 else m1);
                        m3 = (if dt \<ge> 2 * t then complain Cut_slow m2 else m2);
                        m4 = set_status (cid c) CUSTOMER_DONE
                               (m3\<lparr>occupancy := (occupancy m3)[room := None]\<rparr>)
                    in m4\<lparr>num_cutting := size_decr (num_cutting m4)\<rparr>
                | CUSTOMER_DONE \<Rightarrow> complain Dismiss_done m1
                | CUSTOMER_REJECTED \<Rightarrow> complain Dismiss_reject m1))"

text \<open>One arrival in the loop of \<open>thrlab_wait_for_customers\<close>, its thread created: the id it was given.\<close>

definition customer_arrives :: "string \<Rightarrow> nat \<Rightarrow> nat \<Rightarrow> timespec \<Rightarrow> monitor \<Rightarrow> c_stop + (customer \<times> monitor)" where
  "customer_arrives name len goal now m =
     (let c0 = \<lparr>cname = name, cid = 0, hair_length = len, hair_goal = goal\<rparr>
      in case add_customer (c0\<lparr>cid := length (customers m)\<rparr>) CUSTOMER_PENDING m of
           Inl e \<Rightarrow> Inl e
         | Inr (i, m1) \<Rightarrow>
             let c = c0\<lparr>cid := i\<rparr>;
                 m2 = time_printf now (who c @ '' arrives at the door.'' @ newline) m1
             in Inr (c, m2\<lparr>num_pending := size_incr (num_pending m2)\<rparr>))"

text \<open>What the customer's thread does after the callback returned (\<open>my_callback\<close>).\<close>

definition callback_returned :: "customer \<Rightarrow> monitor \<Rightarrow> c_stop + monitor" where
  "callback_returned c m =
     with_status c m (\<lambda>st. if st = CUSTOMER_CUTTING then complain Dismiss_early m else m)"

section \<open>The report\<close>

text \<open>The texts of \<open>check_complaints\<close>, in its order, for each counter that is not zero.\<close>

definition reject_lines :: "(complaint \<times> (nat \<Rightarrow> string)) list" where
  "reject_lines =
    [(Reject_avail, \<lambda>n. ''  - '' @ zu n @ '' '' @ (if n > 1 then ''were'' else ''was'') @
        '' shown the door, but witnessed that seats were available! (If this is the only complaint, then this might be OK)'' @
        newline),
     (Reject_wait, \<lambda>n. ''  - '' @ zu n @ '' '' @ (if n > 1 then ''were'' else ''was'') @
        '' shown the door whilst waiting for a barber!'' @ newline),
     (Reject_cut, \<lambda>n. ''  - '' @ zu n @ '' '' @ (if n > 1 then ''were'' else ''was'') @
        '' shown the door in the middle of a haircut!'' @ newline),
     (Reject_done, \<lambda>n. ''  - '' @ zu n @ '' '' @ (if n > 1 then ''were'' else ''was'') @
        '' told to come come back to be shown the door, after having gotten their haircut!'' @
        newline),
     (Reject_again, \<lambda>n. ''  - '' @ zu n @ '' '' @ (if n > 1 then ''were'' else ''was'') @
        '' shown the door, repeatedly!'' @ newline)]"

definition accept_lines :: "(complaint \<times> (nat \<Rightarrow> string)) list" where
  "accept_lines =
    [(Accept_full, \<lambda>n. ''  - '' @ zu n @ '' couldn'' @ [CHR 0x27] @
        ''t find a chair and had to wait in the hallway!'' @ newline),
     (Accept_wait, \<lambda>n. ''  - '' @ zu n @ '' '' @ (if n > 1 then ''were'' else ''was'') @
        '' told to come inside and wait, whilst already waiting!'' @ newline),
     (Accept_cut, \<lambda>n. ''  - '' @ zu n @ '' '' @ (if n > 1 then ''were'' else ''was'') @
        '' told to come inside and wait, whilst their barber was alredy cutting their hair!'' @
        newline),
     (Accept_done, \<lambda>n. ''  - '' @ zu n @ '' '' @ (if n > 1 then ''were'' else ''was'') @
        '' told to come inside and wait, already having received their haircuts!'' @ newline),
     (Accept_reject, \<lambda>n. ''  - '' @ zu n @ '' '' @ (if n > 1 then ''were'' else ''was'') @
        '' told to come inside and wait, after having been rejected earlier!'' @ newline)]"

definition prepare_lines :: "(complaint \<times> (nat \<Rightarrow> string)) list" where
  "prepare_lines =
    [(Prepare_pending, \<lambda>n. ''  - '' @ zu n @ '' had to have their haircut outside!'' @ newline),
     (Prepare_busy, \<lambda>n. ''  - '' @ zu n @ '' '' @ (if n > 1 then ''were'' else ''was'') @
        '' told their barber was ready, but it turned out they were otherwise occupied!'' @
        newline),
     (Prepare_again, \<lambda>n. ''  - '' @ zu n @ '' '' @ (if n > 1 then ''were'' else ''was'') @ '' told '' @
        [CHR 0x22] @ ''their'' @ [CHR 0x22] @
        '' barber was ready, but a barber was already cutting their hairs!'' @ newline),
     (Prepare_done, \<lambda>n. ''  - '' @ zu n @ '' '' @ (if n > 1 then ''were'' else ''was'') @
        '' told their barber was ready, but had already just gotten their haircuts!'' @ newline),
     (Prepare_reject, \<lambda>n. ''  - '' @ zu n @ '' '' @ (if n > 1 then ''were'' else ''was'') @
        '' told their barber was ready, after having previously been rejected!'' @ newline),
     (Prepare_self, \<lambda>n. ''  - '' @ zu n @ '' had to cut their own hair!'' @ newline)]"

definition dismiss_lines :: "(complaint \<times> (nat \<Rightarrow> string)) list" where
  "dismiss_lines =
    [(Dismiss_pending, \<lambda>n. ''  - '' @ zu n @ '' '' @ (if n > 1 then ''were'' else ''was'') @
        '' told they had already received their haircuts when they even hadn'' @ [CHR 0x27] @
        ''t entered the building yet!'' @ newline),
     (Dismiss_wait, \<lambda>n. ''  - '' @ zu n @ '' '' @ (if n > 1 then ''were'' else ''was'') @
        '' told they had already received their haircuts whilst waiting in the waiting room!'' @
        newline),
     (Dismiss_done, \<lambda>n. ''  - '' @ zu n @ '' '' @ (if n > 1 then ''were'' else ''was'') @
        '' asked to leave the barber'' @ [CHR 0x27] @ ''s room, repeatedly!'' @ newline),
     (Dismiss_reject, \<lambda>n. ''  - '' @ zu n @ '' '' @ (if n > 1 then ''were'' else ''was'') @
        '' told that they had already received their haircuts, but were previously rejected entry!'' @
        newline),
     (Dismiss_room, \<lambda>n. ''  - A barber saw a false positive customer on '' @ zu n @ '' occasion'' @
        (if n > 1 then ''s'' else '''') @ ''!'' @ newline),
     (Dismiss_self, \<lambda>n. ''  - '' @ zu n @ '' had to show themselves to the door!'' @ newline),
     (Dismiss_early, \<lambda>n. ''  - '' @ zu n @ '' lost their '' @ (if n > 1 then ''lives'' else ''life'') @
        '' while undergoing a haircut!'' @ newline)]"

definition cut_lines :: "(complaint \<times> (nat \<Rightarrow> string)) list" where
  "cut_lines =
    [(Cut_fast, \<lambda>n. ''  - '' @ zu n @ '' '' @ (if n > 1 then ''were'' else ''was'') @
        '' cut way too fast! You better call Saul, neither you nor the public are ready to witness this.'' @
        newline),
     (Cut_slow, \<lambda>n. ''  - '' @ zu n @
        '' hair was cut too slowly! (This will happen with many threads and is fine)'' @ newline)]"

definition complaint_lines :: "(complaint \<times> (nat \<Rightarrow> string)) list" where
  "complaint_lines = reject_lines @ accept_lines @ prepare_lines @ dismiss_lines @ cut_lines"

definition complaint_total :: "monitor \<Rightarrow> nat" where
  "complaint_total m = (num_cutting m + num_waiting m + num_pending m
     + sum_list (map (\<lambda>(k, _). complaints m k) complaint_lines)) mod 2 ^ 64"

definition forgotten_text :: "monitor \<Rightarrow> string" where
  "forgotten_text m =
     (let forgotten = (num_cutting m + num_waiting m) mod 2 ^ 64
      in if forgotten = 0 then ''''
         else ''  - '' @ zu forgotten @ '' customer'' @ (if forgotten > 1 then ''s were'' else '' was'')
           @ '' locked inside!''
           @ (if num_cutting m \<noteq> 0
              then '', of which '' @ zu (num_cutting m) @ '' '' @ (if num_cutting m > 1 then ''were'' else ''was'')
                @ '' still being cut!'' @ newline
              else ''!'' @ newline))"

definition pending_text :: "monitor \<Rightarrow> string" where
  "pending_text m =
     (if num_pending m = 0 then ''''
      else ''  - '' @ zu (num_pending m) @ '' '' @ (if num_pending m > 1 then ''were'' else ''was'')
        @ '' never greeted at the door!'' @ newline)"

definition check_complaints :: "monitor \<Rightarrow> string" where
  "check_complaints m =
     (let n = complaint_total m
      in if n = 0 then ''''
         else newline @ ''OH NO'' @ (if n > 1 then ''ES'' else '''') @ ''! ''
           @ (if n > 1 then ''Some customers'' else ''A customer'') @ '' submitted ''
           @ (if n > 1 then ''a number of complaints'' else ''a complaint'') @ ''!'' @ newline
           @ forgotten_text m @ pending_text m
           @ concat (map (\<lambda>(k, t). if complaints m k \<noteq> 0 then t (complaints m k) else '''') complaint_lines))"

end
