(* ===== verification/Thr_Correct.thy ===== *)
theory Thr_Correct
  imports Thr_Monitor
begin

text \<open>
  The monitor of the barbershop on its own: a customer's status only moves forward, the three numbers
  it keeps are the numbers of customers with the statuses, and the rooms hold exactly the customers
  being cut, whatever the program under test does; the report is empty exactly when nothing went wrong.
\<close>

section \<open>The order of the statuses\<close>

fun status_rank :: "customer_status \<Rightarrow> nat" where
  "status_rank CUSTOMER_PENDING = 0"
| "status_rank CUSTOMER_WAITING = 1"
| "status_rank CUSTOMER_CUTTING = 2"
| "status_rank CUSTOMER_DONE = 3"
| "status_rank CUSTOMER_REJECTED = 4"

lemma status_rank_eq: "status_rank a = status_rank b \<longleftrightarrow> a = b"
  by (cases a; cases b) auto

instantiation customer_status :: linorder
begin

definition less_eq_customer_status :: "customer_status \<Rightarrow> customer_status \<Rightarrow> bool" where
  "a \<le> b \<longleftrightarrow> status_rank a \<le> status_rank b"

definition less_customer_status :: "customer_status \<Rightarrow> customer_status \<Rightarrow> bool" where
  "a < b \<longleftrightarrow> status_rank a < status_rank b"

instance
  by standard (auto simp: less_eq_customer_status_def less_customer_status_def status_rank_eq)

end

section \<open>Counting\<close>

lemma size_incr_small: "n < 2 ^ 64 - 1 \<Longrightarrow> size_incr n = Suc n"
  by (simp add: size_incr_def)

lemma size_decr_pos: "0 < n \<Longrightarrow> n < 2 ^ 64 \<Longrightarrow> size_decr n = n - 1"
  by (simp add: size_decr_def mod_if)

lemma count_list_update:
  assumes "i < length xs"
  shows "count_list (xs[i := y]) z + of_bool (xs ! i = z) = count_list xs z + of_bool (y = z)"
  using assms
proof (induction xs arbitrary: i)
  case (Cons x xs)
  then show ?case by (cases i) auto
qed simp

lemma count_list_le: "count_list xs z \<le> length xs"
  by (induction xs) auto

lemma count_list_pos: "i < length xs \<Longrightarrow> xs ! i = z \<Longrightarrow> 0 < count_list xs z"
  by (metis count_list_0_iff nth_mem gr0I)

section \<open>Frames\<close>

lemma monitor_simps [simp]:
  "statuses (time_printf now t m) = statuses m" "statuses (complain k m) = statuses m"
  "visitors (time_printf now t m) = visitors m" "visitors (complain k m) = visitors m" "visitors (set_status i st m) = visitors m"
  "barbers (time_printf now t m) = barbers m" "barbers (complain k m) = barbers m" "barbers (set_status i st m) = barbers m"
  "chairs (time_printf now t m) = chairs m" "chairs (complain k m) = chairs m" "chairs (set_status i st m) = chairs m"
  "customers (time_printf now t m) = customers m" "customers (complain k m) = customers m" "customers (set_status i st m) = customers m"
  "occupancy (time_printf now t m) = occupancy m" "occupancy (complain k m) = occupancy m" "occupancy (set_status i st m) = occupancy m"
  "num_cutting (time_printf now t m) = num_cutting m" "num_cutting (complain k m) = num_cutting m" "num_cutting (set_status i st m) = num_cutting m"
  "num_waiting (time_printf now t m) = num_waiting m" "num_waiting (complain k m) = num_waiting m" "num_waiting (set_status i st m) = num_waiting m"
  "num_pending (time_printf now t m) = num_pending m" "num_pending (complain k m) = num_pending m" "num_pending (set_status i st m) = num_pending m"
  "times (time_printf now t m) = times m" "times (complain k m) = times m" "times (set_status i st m) = times m"
  "complaints (time_printf now t m) = complaints m" "complaints (set_status i st m) = complaints m"
  "complaints (complain k m) = (complaints m)(k := size_incr (complaints m k))"
  "statuses (set_status i st m) = (statuses m)[i := st]"
  by (simp_all add: time_printf_def complain_def set_status_def)

lemma complain_if_simps [simp]:
  "statuses (if b then complain k m else m) = statuses m"
  "visitors (if b then complain k m else m) = visitors m"
  "barbers (if b then complain k m else m) = barbers m"
  "chairs (if b then complain k m else m) = chairs m"
  "customers (if b then complain k m else m) = customers m"
  "occupancy (if b then complain k m else m) = occupancy m"
  "num_cutting (if b then complain k m else m) = num_cutting m"
  "num_waiting (if b then complain k m else m) = num_waiting m"
  "num_pending (if b then complain k m else m) = num_pending m"
  "times (if b then complain k m else m) = times m"
  by simp_all

section \<open>The effect of each entry point on the counted state\<close>

text \<open>What the invariant looks at; complaints and the log do not matter for it.\<close>

definition view :: "monitor \<Rightarrow> nat \<times> nat \<times> nat \<times> customer_status list \<times> nat option list" where
  "view m = (num_pending m, num_waiting m, num_cutting m, statuses m, occupancy m)"

definition same_shop :: "monitor \<Rightarrow> monitor \<Rightarrow> bool" where
  "same_shop m m' \<longleftrightarrow> visitors m' = visitors m \<and> barbers m' = barbers m \<and> customers m' = customers m
     \<and> chairs m' = chairs m"

lemma with_status_ok:
  "with_status c m f = Inr m' \<longleftrightarrow> cid c < visitors m \<and> cid c < length (statuses m) \<and> m' = f (statuses m ! cid c)"
  by (auto simp: with_status_def)

lemma accept_view:
  assumes "thrlab_accept_customer c now m = Inr m'"
  shows "same_shop m m'" "cid c < length (statuses m)"
    "view m' = (if statuses m ! cid c = CUSTOMER_PENDING
       then (size_decr (num_pending m), size_incr (num_waiting m), num_cutting m,
         (statuses m)[cid c := CUSTOMER_WAITING], occupancy m)
       else view m)"
  using assms unfolding thrlab_accept_customer_def with_status_ok
  by (auto simp: same_shop_def view_def Let_def split: customer_status.splits)

lemma reject_view:
  assumes "thrlab_reject_customer c now m = Inr m'"
  shows "same_shop m m'" "cid c < length (statuses m)"
    "view m' = (if statuses m ! cid c = CUSTOMER_PENDING
       then (size_decr (num_pending m), num_waiting m, num_cutting m,
         (statuses m)[cid c := CUSTOMER_REJECTED], occupancy m)
       else view m)"
  using assms unfolding thrlab_reject_customer_def with_status_ok
  by (auto simp: same_shop_def view_def Let_def split: customer_status.splits)

lemma prepare_view:
  assumes "thrlab_prepare_customer c room self now at m = Inr m'"
  shows "same_shop m m'" "cid c < length (statuses m)" "room < barbers m"
    "view m' = (if occupancy m ! room = None \<and> statuses m ! cid c = CUSTOMER_WAITING
       then (num_pending m, size_decr (num_waiting m), size_incr (num_cutting m),
         (statuses m)[cid c := CUSTOMER_CUTTING], (occupancy m)[room := Some (cid c)])
       else view m)"
proof -
  have r: "room < barbers m" and w: "\<exists>f. with_status c m f = Inr m'"
    using assms by (auto simp: thrlab_prepare_customer_def split: if_splits)
  then show "room < barbers m" "cid c < length (statuses m)" by (auto simp: with_status_ok)
  have "same_shop m m' \<and> view m' = (if occupancy m ! room = None \<and> statuses m ! cid c = CUSTOMER_WAITING
       then (num_pending m, size_decr (num_waiting m), size_incr (num_cutting m),
         (statuses m)[cid c := CUSTOMER_CUTTING], (occupancy m)[room := Some (cid c)])
       else view m)"
  proof (cases "occupancy m ! room \<noteq> None \<and> occupancy m ! room \<noteq> Some (cid c)")
    case True
    then obtain y where "occupancy m ! room = Some y" "y \<noteq> cid c" by auto
    then show ?thesis using assms r unfolding thrlab_prepare_customer_def
      by (simp add: with_status_ok same_shop_def view_def Let_def)
  next
    case False
    then show ?thesis using assms r unfolding thrlab_prepare_customer_def
      by (cases "statuses m ! cid c"; cases "occupancy m ! room"; cases self)
        (simp_all add: with_status_ok same_shop_def view_def Let_def)
  qed
  then show "same_shop m m'" "view m' = (if occupancy m ! room = None \<and> statuses m ! cid c = CUSTOMER_WAITING
       then (num_pending m, size_decr (num_waiting m), size_incr (num_cutting m),
         (statuses m)[cid c := CUSTOMER_CUTTING], (occupancy m)[room := Some (cid c)])
       else view m)" by blast+
qed

lemma dismiss_view:
  assumes "thrlab_dismiss_customer c room self now at m = Inr m'"
  shows "same_shop m m'" "cid c < length (statuses m)" "room < barbers m"
    "view m' = (if occupancy m ! room = Some (cid c) \<and> statuses m ! cid c = CUSTOMER_CUTTING
       then (num_pending m, num_waiting m, size_decr (num_cutting m),
         (statuses m)[cid c := CUSTOMER_DONE], (occupancy m)[room := None])
       else view m)"
proof -
  have r: "room < barbers m" and w: "\<exists>f. with_status c m f = Inr m'"
    using assms by (auto simp: thrlab_dismiss_customer_def split: if_splits)
  then show "room < barbers m" "cid c < length (statuses m)" by (auto simp: with_status_ok)
  have "same_shop m m' \<and> view m' = (if occupancy m ! room = Some (cid c) \<and> statuses m ! cid c = CUSTOMER_CUTTING
       then (num_pending m, num_waiting m, size_decr (num_cutting m),
         (statuses m)[cid c := CUSTOMER_DONE], (occupancy m)[room := None])
       else view m)"
    using assms r unfolding thrlab_dismiss_customer_def
    by (cases "statuses m ! cid c"; cases "occupancy m ! room = Some (cid c)"; cases self)
      (simp_all add: with_status_ok same_shop_def view_def Let_def)
  then show "same_shop m m'" "view m' = (if occupancy m ! room = Some (cid c) \<and> statuses m ! cid c = CUSTOMER_CUTTING
       then (num_pending m, num_waiting m, size_decr (num_cutting m),
         (statuses m)[cid c := CUSTOMER_DONE], (occupancy m)[room := None])
       else view m)" by blast+
qed

lemma arrives_view:
  assumes "customer_arrives name len goal now m = Inr (c, m')"
  shows "length (customers m) < visitors m" "cid c = length (customers m)"
    "customers m' = customers m @ [c]" "visitors m' = visitors m" "barbers m' = barbers m" "chairs m' = chairs m"
    "view m' = (size_incr (num_pending m), num_waiting m, num_cutting m,
       statuses m @ [CUSTOMER_PENDING], occupancy m)" "complaints m' = complaints m"
proof -
  show l: "length (customers m) < visitors m"
  proof (rule ccontr)
    assume "\<not> length (customers m) < visitors m"
    then have "customer_arrives name len goal now m = Inl (Aborts ''add_customer'')"
      by (simp only: customer_arrives_def add_customer_def Let_def if_True simp_thms sum.case)
    with assms show False by simp
  qed
  define d where "d = \<lparr>cname = name, cid = length (customers m), hair_length = len, hair_goal = goal\<rparr>"
  define m1 where "m1 = m\<lparr>customers := customers m @ [d], statuses := statuses m @ [CUSTOMER_PENDING]\<rparr>"
  have "customer_arrives name len goal now m = Inr (d, (time_printf now (who d @ '' arrives at the door.'' @ newline) m1)
      \<lparr>num_pending := size_incr (num_pending m)\<rparr>)"
    using l unfolding customer_arrives_def add_customer_def Let_def d_def m1_def by simp
  with assms have e: "c = d" "m' = (time_printf now (who d @ '' arrives at the door.'' @ newline) m1)
      \<lparr>num_pending := size_incr (num_pending m)\<rparr>" by auto
  show "cid c = length (customers m)" by (simp add: e(1) d_def)
  show "customers m' = customers m @ [c]" "visitors m' = visitors m" "barbers m' = barbers m" "chairs m' = chairs m"
    "view m' = (size_incr (num_pending m), num_waiting m, num_cutting m,
       statuses m @ [CUSTOMER_PENDING], occupancy m)" "complaints m' = complaints m"
    unfolding e by (simp_all add: view_def time_printf_def m1_def)
qed

lemma callback_view:
  assumes "callback_returned c m = Inr m'" shows "same_shop m m'" "view m' = view m"
  using assms unfolding callback_returned_def with_status_ok by (auto simp: same_shop_def view_def)

section \<open>The invariant of the monitor\<close>

definition monitor_ok :: "monitor \<Rightarrow> bool" where
  "monitor_ok m \<longleftrightarrow> visitors m < 2 ^ 64 - 1 \<and> length (customers m) \<le> visitors m
     \<and> length (statuses m) = length (customers m) \<and> length (occupancy m) = barbers m
     \<and> num_pending m = count_list (statuses m) CUSTOMER_PENDING
     \<and> num_waiting m = count_list (statuses m) CUSTOMER_WAITING
     \<and> num_cutting m = count_list (statuses m) CUSTOMER_CUTTING
     \<and> (\<forall>r < barbers m. \<forall>i. occupancy m ! r = Some i \<longrightarrow> i < length (statuses m) \<and> statuses m ! i = CUSTOMER_CUTTING)
     \<and> (\<forall>i < length (statuses m). statuses m ! i = CUSTOMER_CUTTING \<longrightarrow> (\<exists>r < barbers m. occupancy m ! r = Some i))
     \<and> (\<forall>r < barbers m. \<forall>q < barbers m. \<forall>i. occupancy m ! r = Some i \<longrightarrow> occupancy m ! q = Some i \<longrightarrow> r = q)"

lemma monitor_okD:
  assumes "monitor_ok m"
  shows "visitors m < 2 ^ 64 - 1" "length (customers m) \<le> visitors m"
    "length (statuses m) = length (customers m)" "length (occupancy m) = barbers m"
    "num_pending m = count_list (statuses m) CUSTOMER_PENDING"
    "num_waiting m = count_list (statuses m) CUSTOMER_WAITING"
    "num_cutting m = count_list (statuses m) CUSTOMER_CUTTING"
    "r < barbers m \<Longrightarrow> occupancy m ! r = Some i \<Longrightarrow> i < length (statuses m) \<and> statuses m ! i = CUSTOMER_CUTTING"
    "i < length (statuses m) \<Longrightarrow> statuses m ! i = CUSTOMER_CUTTING \<Longrightarrow> \<exists>r < barbers m. occupancy m ! r = Some i"
    "r < barbers m \<Longrightarrow> q < barbers m \<Longrightarrow> occupancy m ! r = Some i \<Longrightarrow> occupancy m ! q = Some i \<Longrightarrow> r = q"
  using assms unfolding monitor_ok_def by blast+

lemma monitor_ok_view:
  assumes "monitor_ok m" "view m' = view m" "same_shop m m'" shows "monitor_ok m'"
proof -
  have e: "visitors m' = visitors m" "barbers m' = barbers m" "customers m' = customers m"
    "num_pending m' = num_pending m" "num_waiting m' = num_waiting m" "num_cutting m' = num_cutting m"
    "statuses m' = statuses m" "occupancy m' = occupancy m"
    using assms(2,3) by (simp_all add: view_def same_shop_def)
  show ?thesis using assms(1) unfolding monitor_ok_def e .
qed

lemma monitor_numbers:
  assumes "monitor_ok m" "i < length (statuses m)"
  shows "statuses m ! i = CUSTOMER_PENDING \<Longrightarrow> size_decr (num_pending m) = num_pending m - 1 \<and> 0 < num_pending m"
    "statuses m ! i = CUSTOMER_WAITING \<Longrightarrow> size_decr (num_waiting m) = num_waiting m - 1 \<and> 0 < num_waiting m"
    "statuses m ! i = CUSTOMER_CUTTING \<Longrightarrow> size_decr (num_cutting m) = num_cutting m - 1 \<and> 0 < num_cutting m"
    "size_incr (num_pending m) = Suc (num_pending m)" "size_incr (num_waiting m) = Suc (num_waiting m)"
    "size_incr (num_cutting m) = Suc (num_cutting m)"
proof -
  note d = monitor_okD[OF assms(1)]
  have b: "count_list (statuses m) z < 2 ^ 64 - 1" for z
    using count_list_le[of "statuses m" z] d(1-3) by linarith
  show "statuses m ! i = CUSTOMER_PENDING \<Longrightarrow> size_decr (num_pending m) = num_pending m - 1 \<and> 0 < num_pending m"
    "statuses m ! i = CUSTOMER_WAITING \<Longrightarrow> size_decr (num_waiting m) = num_waiting m - 1 \<and> 0 < num_waiting m"
    "statuses m ! i = CUSTOMER_CUTTING \<Longrightarrow> size_decr (num_cutting m) = num_cutting m - 1 \<and> 0 < num_cutting m"
    using count_list_pos[OF assms(2)] b d(5-7) by (simp_all add: size_decr_pos order.strict_trans[of _ "2 ^ 64 - 1"])
  show "size_incr (num_pending m) = Suc (num_pending m)" "size_incr (num_waiting m) = Suc (num_waiting m)"
    "size_incr (num_cutting m) = Suc (num_cutting m)"
    using b d(5-7) by (simp_all add: size_incr_small)
qed

text \<open>A step of one customer's status, with the room that is taken or given back.\<close>

lemma monitor_ok_step:
  assumes I: "monitor_ok m" and S: "same_shop m m'" and i: "i < length (statuses m)"
    and st: "statuses m' = (statuses m)[i := new]" and old: "statuses m ! i = old"
    and p: "num_pending m' = num_pending m - of_bool (old = CUSTOMER_PENDING)"
    and w: "num_waiting m' = num_waiting m + of_bool (new = CUSTOMER_WAITING) - of_bool (old = CUSTOMER_WAITING)"
    and c: "num_cutting m' = num_cutting m + of_bool (new = CUSTOMER_CUTTING) - of_bool (old = CUSTOMER_CUTTING)"
    and np: "new \<noteq> CUSTOMER_PENDING"
    and occ: "length (occupancy m') = barbers m"
      "\<forall>r < barbers m. \<forall>k. occupancy m' ! r = Some k \<longleftrightarrow>
         (if k = i then new = CUSTOMER_CUTTING \<and> r = room else occupancy m ! r = Some k)"
      "new = CUSTOMER_CUTTING \<longrightarrow> room < barbers m"
  shows "monitor_ok m'"
proof -
  note d = monitor_okD[OF I] and u = count_list_update[OF i]
  have n: "num_pending m' = count_list (statuses m') CUSTOMER_PENDING"
    "num_waiting m' = count_list (statuses m') CUSTOMER_WAITING"
    "num_cutting m' = count_list (statuses m') CUSTOMER_CUTTING"
    using u[of new CUSTOMER_PENDING] u[of new CUSTOMER_WAITING] u[of new CUSTOMER_CUTTING] d(5-7)
      p w c old np unfolding st by auto
  have l: "length (statuses m') = length (statuses m)" using st by simp
  have s': "statuses m' ! k = (if k = i then new else statuses m ! k)" if "k < length (statuses m)" for k
    using that st by (simp add: nth_list_update)
  have o1: "k < length (statuses m') \<and> statuses m' ! k = CUSTOMER_CUTTING"
    if "r < barbers m" "occupancy m' ! r = Some k" for r k
    using that occ(2) d(8)[of r k] i l s'[of k] by (auto split: if_splits)
  have o2: "\<exists>r < barbers m. occupancy m' ! r = Some k"
    if "k < length (statuses m')" "statuses m' ! k = CUSTOMER_CUTTING" for k
    using that occ(2,3) d(9)[of k] s'[of k] l by (cases "k = i") auto
  have o3: "r = q" if "r < barbers m" "q < barbers m" "occupancy m' ! r = Some k" "occupancy m' ! q = Some k" for r q k
    using that occ(2) d(10)[of r q k] by (cases "k = i") auto
  show ?thesis
    unfolding monitor_ok_def using S d(1-4) n l occ(1) o1 o2 o3 by (auto simp: same_shop_def)
qed

lemma room_update:
  assumes "length occ = n" "room < n" "\<forall>r < n. r \<noteq> room \<longrightarrow> occ ! r \<noteq> Some i"
    "occ ! room = None \<or> occ ! room = Some i" "r < n"
  shows "(occ[room := x]) ! r = Some k \<longleftrightarrow> (if k = i then x = Some i \<and> r = room else (if r = room then x = Some k else occ ! r = Some k))"
  using assms by (auto simp: nth_list_update)

lemma accept_ok:
  assumes "monitor_ok m" "thrlab_accept_customer c now m = Inr m'" shows "monitor_ok m'"
proof (cases "statuses m ! cid c = CUSTOMER_PENDING")
  case True
  note v = accept_view[OF assms(2)] and d = monitor_okD[OF assms(1)]
  note n = monitor_numbers[OF assms(1) v(2)]
  have "occupancy m ! r \<noteq> Some (cid c)" if "r < barbers m" for r using d(8)[OF that] True by auto
  then show ?thesis
    using v True n d(4) by (intro monitor_ok_step[OF assms(1) v(1,2) _ True]) (auto simp: view_def)
qed (use assms monitor_ok_view accept_view in auto)

lemma reject_ok:
  assumes "monitor_ok m" "thrlab_reject_customer c now m = Inr m'" shows "monitor_ok m'"
proof (cases "statuses m ! cid c = CUSTOMER_PENDING")
  case True
  note v = reject_view[OF assms(2)] and d = monitor_okD[OF assms(1)]
  note n = monitor_numbers[OF assms(1) v(2)]
  have "occupancy m ! r \<noteq> Some (cid c)" if "r < barbers m" for r using d(8)[OF that] True by auto
  then show ?thesis
    using v True n d(4) by (intro monitor_ok_step[OF assms(1) v(1,2) _ True]) (auto simp: view_def)
qed (use assms monitor_ok_view reject_view in auto)

lemma prepare_ok:
  assumes "monitor_ok m" "thrlab_prepare_customer c room self now at m = Inr m'" shows "monitor_ok m'"
proof (cases "occupancy m ! room = None \<and> statuses m ! cid c = CUSTOMER_WAITING")
  case True
  note v = prepare_view[OF assms(2)] and d = monitor_okD[OF assms(1)]
  note n = monitor_numbers[OF assms(1) v(2)]
  have f: "occupancy m ! r \<noteq> Some (cid c)" if "r < barbers m" for r using d(8)[OF that] True by auto
  show ?thesis
    using v True n d(4) f by (intro monitor_ok_step[OF assms(1) v(1,2), where room = room])
      (auto simp: view_def nth_list_update)
qed (use assms monitor_ok_view prepare_view in auto)

lemma dismiss_ok:
  assumes "monitor_ok m" "thrlab_dismiss_customer c room self now at m = Inr m'" shows "monitor_ok m'"
proof (cases "occupancy m ! room = Some (cid c) \<and> statuses m ! cid c = CUSTOMER_CUTTING")
  case True
  note v = dismiss_view[OF assms(2)] and d = monitor_okD[OF assms(1)]
  note n = monitor_numbers[OF assms(1) v(2)]
  have f: "occupancy m ! r \<noteq> Some (cid c)" if "r < barbers m" "r \<noteq> room" for r
    using d(10)[OF that(1) v(3)] True that(2) by blast
  show ?thesis
    using v True n d(4) f by (intro monitor_ok_step[OF assms(1) v(1,2), where room = room])
      (auto simp: view_def nth_list_update)
qed (use assms monitor_ok_view dismiss_view in auto)

lemma arrives_ok:
  assumes "monitor_ok m" "customer_arrives name len goal now m = Inr (c, m')" shows "monitor_ok m'"
proof -
  note v = arrives_view[OF assms(2)] and d = monitor_okD[OF assms(1)]
  have x: "num_pending m' = size_incr (num_pending m)" "num_waiting m' = num_waiting m"
    "num_cutting m' = num_cutting m" "statuses m' = statuses m @ [CUSTOMER_PENDING]" "occupancy m' = occupancy m"
    using v(7) by (simp_all add: view_def)
  have "count_list (statuses m) CUSTOMER_PENDING < 2 ^ 64 - 1"
    using count_list_le[of "statuses m" CUSTOMER_PENDING] d(1-3) by linarith
  then have n: "num_pending m' = Suc (num_pending m)" using x(1) d(5) by (simp add: size_incr_small)
  have s': "statuses m' ! k = (if k < length (statuses m) then statuses m ! k else CUSTOMER_PENDING)"
    if "k < length (statuses m')" for k
    using that by (auto simp: x(4) nth_append)
  have o1: "k < length (statuses m') \<and> statuses m' ! k = CUSTOMER_CUTTING"
    if "r < barbers m" "occupancy m ! r = Some k" for r k
    using d(8)[OF that] s'[of k] by (simp add: x(4))
  have o2: "\<exists>r < barbers m. occupancy m ! r = Some k"
    if "k < length (statuses m')" "statuses m' ! k = CUSTOMER_CUTTING" for k
    using that s'[of k] d(9)[of k] by (auto split: if_splits)
  have n3: "num_pending m' = count_list (statuses m') CUSTOMER_PENDING"
    "num_waiting m' = count_list (statuses m') CUSTOMER_WAITING"
    "num_cutting m' = count_list (statuses m') CUSTOMER_CUTTING"
    using n x d(5-7) by simp_all
  show ?thesis
    unfolding monitor_ok_def using n3 v(1-6) d(1-4,10) o1 o2 by (auto simp: x(4,5))
qed

end
