(* ===== verification/Thr_Props.thy ===== *)
theory Thr_Props
  imports Thr_Correct
begin

text \<open>The properties of the barbershop monitor of \<^verbatim>\<open>thrlab/help.c\<close>.\<close>

section \<open>A concrete shop\<close>

definition at_time :: "int \<Rightarrow> timespec" where
  "at_time s = \<lparr>tv_sec = s, tv_nsec = 0\<rparr>"

definition demo_monitor :: monitor where
  "demo_monitor = \<lparr>start = at_time 0, visitors = 10, barbers = 3, chairs = 2, rate = 1000,
     num_cutting = 0, num_waiting = 0, num_pending = 1, complaints = (\<lambda>_. 0),
     customers = [\<lparr>cname = ''Zoe'', cid = 0, hair_length = 150, hair_goal = 50\<rparr>],
     statuses = [CUSTOMER_PENDING], times = (\<lambda>_. at_time 0), occupancy = [None, None, None], mlog = []\<rparr>"

abbreviation zoe :: customer where "zoe \<equiv> hd (customers demo_monitor)"

lemma demo_monitor_ok: "monitor_ok demo_monitor"
  by (auto simp: monitor_ok_def demo_monitor_def less_Suc_eq numeral_3_eq_3)

lemma demo_accept:
  "\<exists>m'. thrlab_accept_customer zoe (at_time 1) demo_monitor = Inr m'"
proof -
  have "cid zoe < visitors demo_monitor" "cid zoe < length (statuses demo_monitor)"
    by (simp_all add: demo_monitor_def)
  then show ?thesis unfolding thrlab_accept_customer_def with_status_ok by blast
qed

section \<open>The properties\<close>

text \<open>C33. Whatever calls the program under test makes, and in whatever order, the monitor's own
  bookkeeping stays right: the numbers of pending, waiting and seated customers are the numbers of
  customers with these statuses, and the rooms hold exactly the customers being cut, each in one.\<close>

theorem monitor_invariant:
  assumes "monitor_ok m"
  shows "(thrlab_accept_customer c now m = Inr m' \<longrightarrow> monitor_ok m')
    \<and> (thrlab_reject_customer c now m = Inr m' \<longrightarrow> monitor_ok m')
    \<and> (thrlab_prepare_customer c room self now at m = Inr m' \<longrightarrow> monitor_ok m')
    \<and> (thrlab_dismiss_customer c room self now at m = Inr m' \<longrightarrow> monitor_ok m')
    \<and> (callback_returned c m = Inr m' \<longrightarrow> monitor_ok m')
    \<and> (customer_arrives name len goal now m = Inr (c', m') \<longrightarrow> monitor_ok m')"
proof (intro conjI impI)
qed (use assms in \<open>blast intro: accept_ok reject_ok prepare_ok dismiss_ok arrives_ok
      monitor_ok_view callback_view\<close>)+

theorem monitor_invariant_witness:
  "\<exists>m'. thrlab_accept_customer zoe (at_time 1) demo_monitor = Inr m' \<and> monitor_ok m'"
proof -
  obtain m' where m': "thrlab_accept_customer zoe (at_time 1) demo_monitor = Inr m'"
    using demo_accept by blast
  then have "monitor_ok m'" using monitor_invariant[OF demo_monitor_ok] by blast
  with m' show ?thesis by blast
qed



lemma complaint_keys: "map fst complaint_lines = [Reject_avail, Reject_wait, Reject_cut, Reject_done, Reject_again,
    Accept_full, Accept_wait, Accept_cut, Accept_done, Accept_reject, Prepare_pending, Prepare_busy,
    Prepare_again, Prepare_done, Prepare_reject, Prepare_self, Dismiss_pending, Dismiss_wait, Dismiss_done,
    Dismiss_reject, Dismiss_room, Dismiss_self, Dismiss_early, Cut_fast, Cut_slow]"
  by (simp only: complaint_lines_def reject_lines_def accept_lines_def prepare_lines_def
        dismiss_lines_def cut_lines_def list.map append.simps fst_conv)

lemma complaint_lines_all: "fst ` set complaint_lines = UNIV"
proof -
  have "k \<in> set (map fst complaint_lines)" for k
    unfolding complaint_keys by (cases k) simp_all
  then show ?thesis by auto
qed

lemma report_empty: "check_complaints m = '''' \<longleftrightarrow> complaint_total m = 0"
  unfolding check_complaints_def Let_def by (simp add: newline_def)

lemma no_complaint_sum:
  "num_cutting m + num_waiting m + num_pending m
    + sum_list (map (\<lambda>(k, _). complaints m k) complaint_lines) = 0 \<longleftrightarrow>
   num_cutting m = 0 \<and> num_waiting m = 0 \<and> num_pending m = 0
     \<and> (\<forall>k \<in> fst ` set complaint_lines. complaints m k = 0)"
  by (simp only: add_is_0 sum_list_eq_0_iff set_map ball_simps split_beta conj_assoc)

text \<open>The report at the end of the day is empty exactly when no complaint was counted and nobody
  is left at the door, in the waiting room or in a chair.\<close>

theorem report_empty_iff:
  assumes "num_cutting m + num_waiting m + num_pending m
    + sum_list (map (\<lambda>(k, _). complaints m k) complaint_lines) < 2 ^ 64"
  shows "check_complaints m = '''' \<longleftrightarrow>
    num_cutting m = 0 \<and> num_waiting m = 0 \<and> num_pending m = 0 \<and> (\<forall>k. complaints m k = 0)"
  unfolding report_empty complaint_total_def mod_less[OF assms] no_complaint_sum complaint_lines_all
  by blast

theorem report_empty_iff_witness: "check_complaints (demo_monitor\<lparr>num_pending := 0\<rparr>) = ''''"
proof -
  let ?m = "demo_monitor\<lparr>num_pending := 0\<rparr>"
  have c: "complaints ?m k = 0" "num_cutting ?m = 0" "num_waiting ?m = 0" "num_pending ?m = 0" for k
    by (simp_all add: demo_monitor_def)
  have "sum_list (map (\<lambda>(k, _). complaints ?m k) complaint_lines) = 0"
    unfolding c by (simp add: case_prod_beta')
  then show ?thesis
    using report_empty_iff[of ?m] unfolding c by (simp add: case_prod_beta')
qed

text \<open>An orderly visit leaves no complaint: a customer who is accepted while a chair is free,
  prepared by a free barber and dismissed from the same room is done, and no counter has changed if
  the haircut took at least its time and less than twice that.\<close>

theorem orderly_visit:
  assumes "monitor_ok m" "cid c < length (statuses m)" "statuses m ! cid c = CUSTOMER_PENDING"
    and "num_waiting m < chairs m" "room < barbers m" "occupancy m ! room = None"
    and "customer_cutting_time c \<le> timespec_diff t4 t2" "timespec_diff t4 t2 < 2 * customer_cutting_time c"
  shows "\<exists>m1 m2 m3. thrlab_accept_customer c t0 m = Inr m1
    \<and> thrlab_prepare_customer c room False t1 t2 m1 = Inr m2
    \<and> thrlab_dismiss_customer c room False t3 t4 m2 = Inr m3
    \<and> statuses m3 ! cid c = CUSTOMER_DONE \<and> complaints m3 = complaints m \<and> occupancy m3 = occupancy m"
proof -
  note d = monitor_okD[OF assms(1)]
  have v: "cid c < visitors m" using assms(2) d(2,3) by simp
  have l: "room < length (occupancy m)" using assms(5) d(4) by simp
  have o: "(occupancy m)[room := None] = occupancy m" using assms(6) l by (metis list_update_id)
  show ?thesis
    using assms v l o
    by (simp add: thrlab_accept_customer_def thrlab_prepare_customer_def thrlab_dismiss_customer_def
        with_status_def Let_def)
qed

theorem orderly_visit_witness:
  "\<exists>m1 m2 m3. thrlab_accept_customer zoe (at_time 1) demo_monitor = Inr m1
    \<and> thrlab_prepare_customer zoe 2 False (at_time 2) (at_time 2) m1 = Inr m2
    \<and> thrlab_dismiss_customer zoe 2 False (at_time 3) \<lparr>tv_sec = 2, tv_nsec = 600000000\<rparr> m2 = Inr m3
    \<and> statuses m3 ! 0 = CUSTOMER_DONE \<and> complaints m3 = complaints demo_monitor"
proof -
  have "customer_cutting_time zoe = 500000000"
    by (simp add: customer_cutting_time_def uint_sub_def demo_monitor_def)
  moreover have "timespec_diff \<lparr>tv_sec = 2, tv_nsec = 600000000\<rparr> (at_time 2) = 600000000"
    by (simp add: timespec_diff_def at_time_def)
  ultimately show ?thesis
    using orderly_visit[OF demo_monitor_ok, of zoe 2 "\<lparr>tv_sec = 2, tv_nsec = 600000000\<rparr>" "at_time 2"
        "at_time 1" "at_time 2" "at_time 3"]
    by (fastforce simp: demo_monitor_def)
qed

end
