(* ===== verification/Thr_Setup.thy ===== *)
theory Thr_Setup
  imports Thr_Correct
begin

text \<open>
  Opening and closing the barbershop of \<^verbatim>\<open>thrlab/help.c\<close>: the options, the monitor's allocations
  and their release on every path, the random draws that make a customer, and the sleep.
  \<open>strtoul\<close> is the C library's, for base 10 and a 64-bit \<open>unsigned long\<close>; the options arrive as the
  list of pairs that \<open>argp\<close> finds on the command line. The ways the allocations and the mutex can
  fail, and the interruptions of a sleep, are arguments.
\<close>

section \<open>Options\<close>

record arguments =
  arg_barbers :: nat
  arg_chairs :: nat
  arg_customers :: nat
  arg_rate :: nat

text \<open>The value and whether \<open>errno\<close> is set; a minus sign negates the value, and a number that is
  too large for the type is reported as its largest value.\<close>

definition strtoul :: "string \<Rightarrow> nat \<times> bool" where
  "strtoul s =
     (let t = dropWhile isspace s;
          neg = (t \<noteq> [] \<and> hd t = CHR ''-'');
          u = (if t \<noteq> [] \<and> (hd t = CHR ''-'' \<or> hd t = CHR ''+'') then tl t else t);
          v = digits_value (takeWhile isdigit u)
      in if 2 ^ 64 \<le> v then (2 ^ 64 - 1, True)
         else (if neg then (2 ^ 64 - v) mod 2 ^ 64 else v, False))"

definition my_strtonum :: "string \<Rightarrow> nat \<Rightarrow> nat \<Rightarrow> nat \<times> string option" where
  "my_strtonum str lo hi =
     (let (num, errno) = strtoul str
      in (num, if errno then Some ''Not an integer''
               else if num < lo then Some ''Integer too small''
               else if num > hi then Some ''Integer too large''
               else None))"

text \<open>\<open>argp_usage\<close> prints the usage and exits with \<open>EX_USAGE\<close>, which is 64. The option parser
  answers \<open>None\<close> for a key it does not know (\<open>ARGP_ERR_UNKNOWN\<close>).\<close>

definition argp_usage :: "c_stop + 'a" where "argp_usage = Inl (Exits 64)"

definition argparse_opt :: "char \<Rightarrow> string \<Rightarrow> arguments \<Rightarrow> c_stop + arguments option" where
  "argparse_opt key arg a =
     (if key = CHR ''b'' then
        let (n, err) = my_strtonum arg 1 (length barber_names); a' = a\<lparr>arg_barbers := n\<rparr>
        in if err \<noteq> None then argp_usage else Inr (Some a')
      else if key = CHR ''c'' then
        let (n, err) = my_strtonum arg 1 1000; a' = a\<lparr>arg_customers := n\<rparr>
        in if err \<noteq> None then argp_usage else Inr (Some a')
      else if key = CHR ''r'' then
        let (n, err) = my_strtonum arg 1 10000; a' = a\<lparr>arg_rate := n\<rparr>
        in if err \<noteq> None then argp_usage else Inr (Some a')
      else if key = CHR ''w'' then
        let (n, err) = my_strtonum arg 1 1000; a' = a\<lparr>arg_chairs := n\<rparr>
        in if err \<noteq> None then argp_usage else Inr (Some a')
      else Inr None)"

text \<open>\<open>argp_parse\<close> gives the options to the parser in their order and exits for one it rejects.\<close>

fun argp_parse :: "(char \<times> string) list \<Rightarrow> arguments \<Rightarrow> c_stop + arguments" where
  "argp_parse [] a = Inr a"
| "argp_parse ((key, arg) # opts) a =
     (case argparse_opt key arg a of
        Inl e \<Rightarrow> Inl e
      | Inr None \<Rightarrow> argp_usage
      | Inr (Some a') \<Rightarrow> argp_parse opts a')"

definition argparse :: "(char \<times> string) list \<Rightarrow> c_stop + arguments" where
  "argparse opts = argp_parse opts
     \<lparr>arg_barbers = 3, arg_chairs = 2, arg_customers = 10, arg_rate = 1000\<rparr>"

section \<open>Opening\<close>

text \<open>The monitor's allocations, by the field that holds them, and the set of those not freed.\<close>

datatype block = B_thrlab | B_customers | B_statuses | B_times | B_occupancy | B_customer nat

definition free_block :: "block \<Rightarrow> block set \<Rightarrow> c_stop + block set" where
  "free_block b live = (if b \<in> live then Inr (live - {b}) else Inl (Undefined ''free''))"

fun free_blocks :: "block list \<Rightarrow> block set \<Rightarrow> c_stop + block set" where
  "free_blocks [] live = Inr live"
| "free_blocks (b # bs) live = (case free_block b live of Inl e \<Rightarrow> Inl e | Inr live' \<Rightarrow> free_blocks bs live')"

text \<open>An error path frees its blocks and exits; the answer keeps what is still allocated.\<close>

definition fail_after :: "block list \<Rightarrow> block set \<Rightarrow> (c_stop \<times> block set) + 'a" where
  "fail_after bs live =
     (case free_blocks bs live of Inl e \<Rightarrow> Inl (e, live) | Inr live' \<Rightarrow> Inl (Exits 1, live'))"

datatype setup_step = Alloc_thrlab | Alloc_customers | Alloc_statuses | Alloc_times | Alloc_occupancy | Init_mutex

definition open_monitor :: "arguments \<Rightarrow> timespec \<Rightarrow> monitor" where
  "open_monitor a now = \<lparr>start = now, visitors = arg_customers a, barbers = arg_barbers a,
     chairs = arg_chairs a, rate = arg_rate a, num_cutting = 0, num_waiting = 0, num_pending = 0,
     complaints = (\<lambda>_. 0), customers = [], statuses = [], times = (\<lambda>_. now),
     occupancy = replicate (arg_barbers a) None, mlog = []\<rparr>"

text \<open>\<open>fails s\<close> says that step \<open>s\<close> fails; the labels of the error paths are the lists of \<open>fail_after\<close>.\<close>

definition thrlab_setup ::
    "(char \<times> string) list \<Rightarrow> (setup_step \<Rightarrow> bool) \<Rightarrow> timespec \<Rightarrow> (c_stop \<times> block set) + monitor \<times> block set" where
  "thrlab_setup opts fails now =
     (case argparse opts of
        Inl e \<Rightarrow> Inl (e, {})
      | Inr a \<Rightarrow>
          if fails Alloc_thrlab then fail_after [] {}
          else if fails Alloc_customers then fail_after [B_thrlab] {B_thrlab}
          else if fails Alloc_statuses then fail_after [B_customers, B_thrlab] {B_thrlab, B_customers}
          else if fails Alloc_times then
            fail_after [B_statuses, B_customers, B_thrlab] {B_thrlab, B_customers, B_statuses}
          else if fails Alloc_occupancy then
            fail_after [B_times, B_statuses, B_customers, B_thrlab] {B_thrlab, B_customers, B_statuses, B_times}
          else
            let live = {B_thrlab, B_customers, B_statuses, B_times, B_occupancy}
            in if fails Init_mutex then
                 fail_after [B_statuses, B_times, B_statuses, B_customers, B_thrlab] live
               else Inr (open_monitor a now, live))"

section \<open>Closing\<close>

text \<open>Every customer's thread has been joined; a customer is freed once, then the monitor's parts.\<close>

definition thrlab_cleanup :: "bool \<Rightarrow> monitor \<times> block set \<Rightarrow> (c_stop \<times> block set) + string \<times> block set" where
  "thrlab_cleanup destroy_fails st =
     (let (m, live) = st
      in case free_blocks (map B_customer [0..<length (customers m)]
               @ [B_customers, B_statuses, B_times, B_occupancy]) live of
           Inl e \<Rightarrow> Inl (e, live)
         | Inr live' \<Rightarrow>
             if destroy_fails then Inl (Exits 1, live')
             else
               let out = ''============================'' @ newline
                     @ ''POSIX Barbershop closed! Good bye!'' @ newline @ check_complaints m
               in case free_block B_thrlab live' of Inl e \<Rightarrow> Inl (e, live') | Inr live'' \<Rightarrow> Inr (out, live''))"

definition thrlab_get_num_barbers :: "monitor \<Rightarrow> nat" where
  "thrlab_get_num_barbers m = barbers m mod 2 ^ 32"

definition thrlab_get_num_chairs :: "monitor \<Rightarrow> nat" where
  "thrlab_get_num_chairs m = chairs m mod 2 ^ 32"

section \<open>Random draws\<close>

text \<open>The 31 values of \<open>random()\<close> that one draw uses are an argument; the exclusive or keeps the low 32 bits.\<close>

definition random_bits :: "(nat \<Rightarrow> 64 word) \<Rightarrow> u32" where
  "random_bits rs = fold (\<lambda>i r. r XOR ucast (push_bit i (rs i))) [0..<31] 0"

definition my_arc4random_uniform :: "(nat \<Rightarrow> 64 word) \<Rightarrow> u32 \<Rightarrow> c_stop + u32" where
  "my_arc4random_uniform rs upper_bound =
     (if \<not> 0 < upper_bound then Inl (Aborts ''assert'') else Inr (random_bits rs mod upper_bound))"

definition random_name :: "(nat \<Rightarrow> 64 word) \<Rightarrow> c_stop + string" where
  "random_name rs =
     (case my_arc4random_uniform rs (of_nat (length customer_names)) of
        Inl e \<Rightarrow> Inl e | Inr i \<Rightarrow> Inr (customer_names ! unat i))"

text \<open>The draws of one arrival in \<open>thrlab_wait_for_customers\<close>: the pause before it, the name, the
  length of the hair and the length it shall have.\<close>

definition draw_customer :: "(nat \<Rightarrow> nat \<Rightarrow> 64 word) \<Rightarrow> c_stop + string \<times> nat \<times> nat" where
  "draw_customer rs =
     (case random_name (rs 0) of Inl e \<Rightarrow> Inl e | Inr name \<Rightarrow>
      case my_arc4random_uniform (rs 1) 100 of Inl e \<Rightarrow> Inl e | Inr len \<Rightarrow>
      case my_arc4random_uniform (rs 2) 25 of Inl e \<Rightarrow> Inl e | Inr goal \<Rightarrow>
        Inr (name, unat (len + 100), unat (goal + 50)))"

section \<open>Sleeping\<close>

datatype nap = Slept | Interrupted int

text \<open>\<open>nanosleep\<close> either sleeps the whole time or is interrupted after some of it and writes what is
  left back; its answers are an argument of the loop, which waits for another one when the list ends.\<close>

definition ns :: "timespec \<Rightarrow> int" where
  "ns ts = tv_sec ts * 1000000000 + tv_nsec ts"

definition to_timespec :: "int \<Rightarrow> timespec" where
  "to_timespec n = \<lparr>tv_sec = n div 1000000000, tv_nsec = n mod 1000000000\<rparr>"

fun sleep_loop :: "nap list \<Rightarrow> timespec \<Rightarrow> int option" where
  "sleep_loop naps ts =
     (if tv_sec ts > 0 \<or> tv_nsec ts > 0 then
        (case naps of
           [] \<Rightarrow> None
         | Slept # _ \<Rightarrow> Some (ns ts)
         | Interrupted k # naps' \<Rightarrow>
             (case sleep_loop naps' (to_timespec (ns ts - k)) of None \<Rightarrow> None | Some t \<Rightarrow> Some (k + t)))
      else Some 0)"

declare sleep_loop.simps [simp del]

definition thrlab_sleep :: "nap list \<Rightarrow> int \<Rightarrow> c_stop + int option" where
  "thrlab_sleep naps ms =
     (if \<not> 0 \<le> ms then Inl (Aborts ''assert'')
      else Inr (sleep_loop naps \<lparr>tv_sec = ms div 1000, tv_nsec = ms mod 1000 * 1000000\<rparr>))"

definition sleep_until_customer :: "(nat \<Rightarrow> 64 word) \<Rightarrow> nap list \<Rightarrow> monitor \<Rightarrow> c_stop + int option" where
  "sleep_until_customer rs naps m =
     (case my_arc4random_uniform rs (of_nat (rate m * 2)) of
        Inl e \<Rightarrow> Inl e | Inr ms \<Rightarrow> thrlab_sleep naps (sint ms))"

end
