(* ===== verification/Thr_Ring.thy ===== *)
theory Thr_Ring
  imports C_Prelude
begin

text \<open>
  The waiting room of \<^verbatim>\<open>thrlab/main.c\<close>: a ring buffer of \<open>max\<close> chairs with two counters that only
  grow, reduced modulo \<open>max\<close> at each access (\<open>struct chairs\<close> without its semaphores). A chair that was
  never written is \<open>None\<close>. The interface \<open>waiting_room\<close> says what the shop needs of it.
\<close>

section \<open>The ring buffer\<close>

record 'a ring =
  seat :: "nat \<Rightarrow> 'a option"
  rmax :: nat
  front :: nat
  rear :: nat

text \<open>\<open>++n\<close> on an \<open>int\<close>, then the remainder by \<open>max\<close>.\<close>

definition next_seat :: "nat \<Rightarrow> 'a ring \<Rightarrow> c_stop + nat" where
  "next_seat n q =
     (if \<not> n + 1 < 2 ^ 31 then Inl (Undefined ''int overflow'')
      else if rmax q = 0 then Inl (Undefined ''remainder by zero'')
      else Inr ((n + 1) mod rmax q))"

definition ring_put :: "'a \<Rightarrow> 'a ring \<Rightarrow> c_stop + 'a ring" where
  "ring_put x q =
     (case next_seat (rear q) q of
        Inl e \<Rightarrow> Inl e
      | Inr i \<Rightarrow> Inr (q\<lparr>seat := (seat q)(i \<mapsto> x), rear := rear q + 1\<rparr>))"

definition ring_take :: "'a ring \<Rightarrow> c_stop + 'a \<times> 'a ring" where
  "ring_take q =
     (case next_seat (front q) q of
        Inl e \<Rightarrow> Inl e
      | Inr i \<Rightarrow>
          (case seat q i of
             None \<Rightarrow> Inl (Undefined ''uninitialised chair'')
           | Some x \<Rightarrow> Inr (x, q\<lparr>front := front q + 1\<rparr>)))"

section \<open>The interface\<close>

datatype 'a queue_op = Put 'a | Take

text \<open>Running operations on a queue and on a list; the second answers \<open>None\<close> where the program has
  to keep its promise: no \<open>Take\<close> from an empty room, no \<open>Put\<close> into a full one.\<close>

fun queue_run :: "('a \<Rightarrow> 'q \<Rightarrow> c_stop + 'q) \<Rightarrow> ('q \<Rightarrow> c_stop + 'a \<times> 'q) \<Rightarrow>
    'a queue_op list \<Rightarrow> 'q \<Rightarrow> c_stop + 'a list \<times> 'q" where
  "queue_run put get [] q = Inr ([], q)"
| "queue_run put get (Put x # ops) q =
     (case put x q of Inl e \<Rightarrow> Inl e | Inr q' \<Rightarrow> queue_run put get ops q')"
| "queue_run put get (Take # ops) q =
     (case get q of Inl e \<Rightarrow> Inl e
      | Inr (x, q') \<Rightarrow> (case queue_run put get ops q' of Inl e \<Rightarrow> Inl e | Inr (xs, q'') \<Rightarrow> Inr (x # xs, q'')))"

fun list_run :: "nat \<Rightarrow> 'a queue_op list \<Rightarrow> 'a list \<Rightarrow> ('a list \<times> 'a list) option" where
  "list_run cap [] xs = Some ([], xs)"
| "list_run cap (Put x # ops) xs = (if length xs < cap then list_run cap ops (xs @ [x]) else None)"
| "list_run cap (Take # ops) xs =
     (case xs of [] \<Rightarrow> None | x # xs' \<Rightarrow> map_option (\<lambda>(ys, zs). (x # ys, zs)) (list_run cap ops xs'))"

fun puts :: "'a queue_op list \<Rightarrow> nat" where
  "puts [] = 0" | "puts (Put x # ops) = Suc (puts ops)" | "puts (Take # ops) = puts ops"

locale waiting_room =
  fixes put :: "'a \<Rightarrow> 'q \<Rightarrow> c_stop + 'q" and get :: "'q \<Rightarrow> c_stop + 'a \<times> 'q"
    and inv :: "nat \<Rightarrow> 'q \<Rightarrow> bool" and contents :: "'q \<Rightarrow> 'a list" and cap :: "'q \<Rightarrow> nat"
  assumes put_law: "inv (Suc n) q \<Longrightarrow> length (contents q) < cap q \<Longrightarrow>
      \<exists>q'. put x q = Inr q' \<and> inv n q' \<and> contents q' = contents q @ [x] \<and> cap q' = cap q"
    and get_law: "inv n q \<Longrightarrow> contents q = x # xs \<Longrightarrow>
      \<exists>q'. get q = Inr (x, q') \<and> inv n q' \<and> contents q' = xs \<and> cap q' = cap q"
begin

lemma run_refines:
  "inv (puts ops) q \<Longrightarrow> list_run (cap q) ops (contents q) = Some (ys, zs) \<Longrightarrow>
   \<exists>q'. queue_run put get ops q = Inr (ys, q') \<and> contents q' = zs"
proof (induction ops arbitrary: q ys zs)
  case (Cons a ops)
  show ?case
  proof (cases a)
    case (Put x)
    with Cons.prems have "inv (Suc (puts ops)) q" "length (contents q) < cap q"
      and r: "list_run (cap q) ops (contents q @ [x]) = Some (ys, zs)" by (auto split: if_splits)
    from put_law[OF this(1,2), of x] obtain q' where
      "put x q = Inr q'" "inv (puts ops) q'" "contents q' = contents q @ [x]" "cap q' = cap q" by blast
    with Cons.IH[of q' ys zs] r show ?thesis by (simp add: Put)
  next
    case Take
    with Cons.prems obtain x xs where c: "contents q = x # xs" by (auto split: list.splits)
    with Cons.prems Take obtain us where
      r: "list_run (cap q) ops xs = Some (us, zs)" "ys = x # us" by auto
    from Cons.prems Take have "inv (puts ops) q" by simp
    from get_law[OF this c] obtain q' where
      "get q = Inr (x, q')" "inv (puts ops) q'" "contents q' = xs" "cap q' = cap q" by blast
    with Cons.IH[of q' us zs] r show ?thesis by (auto simp: Take)
  qed
qed simp

end

section \<open>The ring buffer keeps the interface's promises\<close>

definition contents :: "'a ring \<Rightarrow> 'a list" where
  "contents q = map (\<lambda>k. the (seat q (k mod rmax q))) [Suc (front q)..<Suc (rear q)]"

text \<open>\<open>ring_ok n q\<close>: the chairs between the counters are taken and \<open>n\<close> more customers can be counted.\<close>

definition ring_ok :: "nat \<Rightarrow> 'a ring \<Rightarrow> bool" where
  "ring_ok n q \<longleftrightarrow> front q \<le> rear q \<and> rear q \<le> front q + rmax q \<and> rear q + n < 2 ^ 31
     \<and> (\<forall>k. front q < k \<and> k \<le> rear q \<longrightarrow> seat q (k mod rmax q) \<noteq> None)"

lemma length_contents: "length (contents q) = rear q - front q"
  by (simp add: contents_def del: upt_Suc)

lemma mod_window_inj:
  assumes "a < k" "k < (b :: nat)" "b \<le> a + m" shows "k mod m \<noteq> b mod m"
proof
  assume "k mod m = b mod m"
  then have "m dvd b - k" using assms(2) mod_eq_dvd_iff_nat[of k b m] by simp
  moreover have "0 < b - k" "b - k < m" using assms by auto
  ultimately show False by (auto dest: dvd_imp_le)
qed

lemma ring_put_ok:
  assumes "ring_ok (Suc n) q" "length (contents q) < rmax q"
  shows "\<exists>q'. ring_put x q = Inr q' \<and> ring_ok n q' \<and> contents q' = contents q @ [x] \<and> rmax q' = rmax q"
proof -
  have r: "rear q < front q + rmax q" "front q \<le> rear q" "rear q + 1 < 2 ^ 31" "rmax q \<noteq> 0"
    using assms by (auto simp: ring_ok_def length_contents)
  let ?i = "Suc (rear q) mod rmax q"
  let ?q = "q\<lparr>seat := (seat q)(?i \<mapsto> x), rear := Suc (rear q)\<rparr>"
  have p: "ring_put x q = Inr ?q" using r by (simp add: ring_put_def next_seat_def)
  have ne: "k mod rmax q \<noteq> ?i" if "front q < k" "k \<le> rear q" for k
    using that r by (intro mod_window_inj[of "front q"]) auto
  have "contents ?q = contents q @ [x]"
    using r(2) ne by (auto simp: contents_def)
  moreover have "ring_ok n ?q"
    using assms(1) r ne by (auto simp: ring_ok_def le_Suc_eq)
  ultimately show ?thesis using p by simp
qed

lemma ring_take_ok:
  assumes "ring_ok n q" "contents q = x # xs"
  shows "\<exists>q'. ring_take q = Inr (x, q') \<and> ring_ok n q' \<and> contents q' = xs \<and> rmax q' = rmax q"
proof -
  have "length (contents q) \<noteq> 0" using assms(2) by simp
  then have f: "front q < rear q" by (simp add: length_contents)
  have r: "rear q \<le> front q + rmax q" "rear q < 2 ^ 31" and m: "rmax q \<noteq> 0"
    using assms(1) f by (auto simp: ring_ok_def)
  have c: "contents q = the (seat q (Suc (front q) mod rmax q))
      # map (\<lambda>k. the (seat q (k mod rmax q))) [Suc (Suc (front q))..<Suc (rear q)]"
    unfolding contents_def using f by (subst upt_conv_Cons) (simp_all del: upt_Suc)
  have "seat q (Suc (front q) mod rmax q) \<noteq> None" using assms(1) f unfolding ring_ok_def by (metis Suc_leI lessI)
  with c assms(2) have s: "seat q (Suc (front q) mod rmax q) = Some x" by auto
  have "ring_take q = Inr (x, q\<lparr>front := Suc (front q)\<rparr>)"
    using f r m s by (simp add: ring_take_def next_seat_def)
  moreover have "contents (q\<lparr>front := Suc (front q)\<rparr>) = xs"
    using c assms(2) by (simp add: contents_def del: upt_Suc)
  moreover have "ring_ok n (q\<lparr>front := Suc (front q)\<rparr>)"
    using assms(1) f by (auto simp: ring_ok_def)
  ultimately show ?thesis by simp
qed

interpretation chairs: waiting_room ring_put ring_take ring_ok contents rmax
  by unfold_locales (fact ring_put_ok, fact ring_take_ok)

text \<open>C34. The waiting room is a first-in first-out queue: for every sequence of arrivals and calls that
  never exceeds the chairs and never asks an empty room, the ring buffer hands out the customers in
  the order of their arrival, as a list would, and keeps the others; no chair is overwritten, and no
  counter overflows while fewer than \<open>2^31\<close> customers come.\<close>

theorem ring_is_queue:
  assumes "ring_ok (puts ops) q" "list_run (rmax q) ops (contents q) = Some (ys, zs)"
  shows "\<exists>q'. queue_run ring_put ring_take ops q = Inr (ys, q') \<and> contents q' = zs"
  using assms by (rule chairs.run_refines)

theorem ring_is_queue_witness:
  "\<exists>q'. queue_run ring_put ring_take [Put 7, Put 8, Take, Put 9, Take]
      \<lparr>seat = \<lambda>_. None, rmax = 2, front = 5, rear = 5\<rparr> = Inr ([7 :: nat, 8], q') \<and> contents q' = [9]"
  using ring_is_queue[of "[Put 7, Put 8, Take, Put 9, Take]"
      "\<lparr>seat = \<lambda>_. None, rmax = 2, front = 5, rear = 5\<rparr>" "[7 :: nat, 8]" "[9]"]
  by (simp add: ring_ok_def contents_def)

end
