(* ===== verification/Thr_Shop.thy ===== *)
theory Thr_Shop
  imports Thr_Setup Thr_Ring
begin

text \<open>
  The barbershop simulation of \<^verbatim>\<open>thrlab/main.c\<close>: one thread per barber, one per customer, and the main
  thread that lets the customers in. A thread's step is the code between two points where another
  thread can run: one semaphore operation, one call of the monitor (which holds its own lock
  throughout), one access to the waiting room. A step is a function of the state and of what the
  environment contributes (clock, random bits, interruptions, failures); it answers \<open>None\<close> when the
  thread blocks.
\<close>

section \<open>Semaphores and threads\<close>

text \<open>\<open>unix_error\<close> prints and exits with status 1. The wrappers call it when the library call fails:
  \<open>sem_post\<close> at the largest value, \<open>sem_trywait\<close> at zero. \<open>sem_wait\<close> blocks at zero.\<close>

definition unix_error :: "c_stop + 'a" where "unix_error = Inl (Exits 1)"

definition SEM_VALUE_MAX :: nat where "SEM_VALUE_MAX = 2147483647"

definition Sem_post :: "nat \<Rightarrow> c_stop + nat" where
  "Sem_post v = (if v = SEM_VALUE_MAX then unix_error else Inr (v + 1))"

definition Sem_wait :: "nat \<Rightarrow> nat option" where
  "Sem_wait v = (if v = 0 then None else Some (v - 1))"

definition sem_trywait :: "nat \<Rightarrow> int \<times> nat" where
  "sem_trywait v = (if v = 0 then (-1, 0) else (0, v - 1))"

definition Sem_trywait :: "nat \<Rightarrow> c_stop + int \<times> nat" where
  "Sem_trywait v = (let (val, v') = sem_trywait v in if val < 0 then unix_error else Inr (val, v'))"

text \<open>The thread wrappers exit when the library's answer is not zero.\<close>

definition Pthread_create :: "int \<Rightarrow> c_stop + int" where
  "Pthread_create val = (if val \<noteq> 0 then unix_error else Inr val)"

definition Pthread_detach :: "int \<Rightarrow> c_stop + int" where
  "Pthread_detach val = (if val \<noteq> 0 then unix_error else Inr val)"

section \<open>The state\<close>

text \<open>Where a barber is in the loop of \<open>barber_work\<close>; from \<open>B_prepare\<close> on he has a customer.\<close>

datatype barber_pc = B_items | B_lock | B_take | B_prepare customer | B_cut customer
  | B_dismiss customer | B_unblock customer | B_unlock | B_slots

text \<open>Where a customer's thread is in \<open>my_callback\<close> and \<open>customer_arrived\<close>.\<close>

datatype customer_pc = C_try | C_lock | C_accept | C_insert | C_unlock | C_items | C_wait
  | C_reject | C_return | C_gone

record shop =
  mon :: monitor
  chairs_ring :: "customer ring"
  sem_mutex :: nat
  sem_slots :: nat
  sem_items :: nat
  customer_mutex :: "nat \<Rightarrow> nat"
  bpc :: "nat \<Rightarrow> barber_pc"
  cpc :: "nat \<Rightarrow> customer_pc"
  live :: "block set"
  printed :: string
  halted :: "c_stop option"

record env =
  env_now :: timespec
  env_at :: timespec
  env_random :: "nat \<Rightarrow> nat \<Rightarrow> 64 word"
  env_naps :: "nap list"
  env_fails :: bool

section \<open>Setting up\<close>

fun start_barbers :: "(nat \<Rightarrow> int) \<Rightarrow> nat list \<Rightarrow> shop \<Rightarrow> c_stop + shop" where
  "start_barbers create [] s = Inr s"
| "start_barbers create (i # rs) s =
     (case Pthread_create (create i) of
        Inl e \<Rightarrow> Inl e
      | Inr _ \<Rightarrow>
          (case Pthread_detach 0 of
             Inl e \<Rightarrow> Inl e
           | Inr _ \<Rightarrow> start_barbers create rs (s\<lparr>bpc := (bpc s)(i := B_items)\<rparr>)))"

definition shop_setup :: "(nat \<Rightarrow> int) \<Rightarrow> monitor \<times> block set \<Rightarrow> c_stop + shop" where
  "shop_setup create st =
     (let (m, bs) = st
      in start_barbers create [0..<thrlab_get_num_barbers m]
       \<lparr>mon = m, chairs_ring = \<lparr>seat = (\<lambda>_. None), rmax = thrlab_get_num_chairs m, front = 0, rear = 0\<rparr>,
        sem_mutex = 1, sem_slots = thrlab_get_num_chairs m, sem_items = 0,
        customer_mutex = (\<lambda>_. 0), bpc = (\<lambda>_. B_items), cpc = (\<lambda>_. C_gone),
        live = bs, printed = '''', halted = None\<rparr>)"

section \<open>The steps\<close>

text \<open>Where a step fails, the program stops.\<close>

definition stop :: "c_stop \<Rightarrow> shop \<Rightarrow> shop option" where
  "stop e s = Some (s\<lparr>halted := Some e\<rparr>)"

definition with_mon :: "(monitor \<Rightarrow> c_stop + monitor) \<Rightarrow> (shop \<Rightarrow> shop) \<Rightarrow> shop \<Rightarrow> shop option" where
  "with_mon f k s = (case f (mon s) of Inl e \<Rightarrow> stop e s | Inr m \<Rightarrow> Some (k (s\<lparr>mon := m\<rparr>)))"

definition goto_b :: "nat \<Rightarrow> barber_pc \<Rightarrow> shop \<Rightarrow> shop" where
  "goto_b r pc s = s\<lparr>bpc := (bpc s)(r := pc)\<rparr>"

definition goto_c :: "nat \<Rightarrow> customer_pc \<Rightarrow> shop \<Rightarrow> shop" where
  "goto_c i pc s = s\<lparr>cpc := (cpc s)(i := pc)\<rparr>"

definition post_mutex :: "(shop \<Rightarrow> shop) \<Rightarrow> shop \<Rightarrow> shop option" where
  "post_mutex k s = (case Sem_post (sem_mutex s) of Inl e \<Rightarrow> stop e s | Inr v \<Rightarrow> Some (k (s\<lparr>sem_mutex := v\<rparr>)))"

definition wait_mutex :: "(shop \<Rightarrow> shop) \<Rightarrow> shop \<Rightarrow> shop option" where
  "wait_mutex k s = map_option (\<lambda>v. k (s\<lparr>sem_mutex := v\<rparr>)) (Sem_wait (sem_mutex s))"

text \<open>The haircut: \<open>5 * (hair_length - hair_goal)\<close> in \<open>unsigned int\<close>, passed as an \<open>int\<close>.\<close>

definition cut_ms :: "customer \<Rightarrow> int" where
  "cut_ms c = sint (of_nat (5 * uint_sub (hair_length c) (hair_goal c)) :: u32)"

definition barber_work :: "env \<Rightarrow> nat \<Rightarrow> shop \<Rightarrow> shop option" where
  "barber_work e r s =
     (case bpc s r of
        B_items \<Rightarrow> map_option (\<lambda>v. goto_b r B_lock (s\<lparr>sem_items := v\<rparr>)) (Sem_wait (sem_items s))
      | B_lock \<Rightarrow> wait_mutex (goto_b r B_take) s
      | B_take \<Rightarrow>
          (case ring_take (chairs_ring s) of
             Inl x \<Rightarrow> stop x s
           | Inr (c, q) \<Rightarrow> Some (goto_b r (B_prepare c) (s\<lparr>chairs_ring := q\<rparr>)))
      | B_prepare c \<Rightarrow>
          with_mon (thrlab_prepare_customer c r False (env_now e) (env_at e)) (goto_b r (B_cut c)) s
      | B_cut c \<Rightarrow>
          (case thrlab_sleep (env_naps e) (cut_ms c) of
             Inl x \<Rightarrow> stop x s
           | Inr t \<Rightarrow> map_option (\<lambda>_. goto_b r (B_dismiss c) s) t)
      | B_dismiss c \<Rightarrow>
          with_mon (thrlab_dismiss_customer c r False (env_now e) (env_at e)) (goto_b r (B_unblock c)) s
      | B_unblock c \<Rightarrow>
          (case Sem_post (customer_mutex s (cid c)) of
             Inl x \<Rightarrow> stop x s
           | Inr v \<Rightarrow> Some (goto_b r B_unlock (s\<lparr>customer_mutex := (customer_mutex s)(cid c := v)\<rparr>)))
      | B_unlock \<Rightarrow> post_mutex (goto_b r B_slots) s
      | B_slots \<Rightarrow>
          (case Sem_post (sem_slots s) of
             Inl x \<Rightarrow> stop x s
           | Inr v \<Rightarrow> Some (goto_b r B_items (s\<lparr>sem_slots := v\<rparr>))))"

text \<open>\<open>customer_arrived\<close>, called by \<open>my_callback\<close> in the customer's thread; \<open>C_return\<close> is the rest
  of \<open>my_callback\<close>.\<close>

definition customer_arrived :: "env \<Rightarrow> nat \<Rightarrow> shop \<Rightarrow> shop option" where
  "customer_arrived e i s =
     (let c = customers (mon s) ! i in
      case cpc s i of
        C_try \<Rightarrow>
          (let s1 = s\<lparr>customer_mutex := (customer_mutex s)(i := 0)\<rparr>
           in case Sem_trywait (sem_slots s1) of
                Inl x \<Rightarrow> stop x s1
              | Inr (val, v) \<Rightarrow>
                  Some (goto_c i (if val = 0 then C_lock else C_reject) (s1\<lparr>sem_slots := v\<rparr>)))
      | C_lock \<Rightarrow> wait_mutex (goto_c i C_accept) s
      | C_accept \<Rightarrow> with_mon (thrlab_accept_customer c (env_now e)) (goto_c i C_insert) s
      | C_insert \<Rightarrow>
          (case ring_put c (chairs_ring s) of
             Inl x \<Rightarrow> stop x s
           | Inr q \<Rightarrow> Some (goto_c i C_unlock (s\<lparr>chairs_ring := q\<rparr>)))
      | C_unlock \<Rightarrow> post_mutex (goto_c i C_items) s
      | C_items \<Rightarrow>
          (case Sem_post (sem_items s) of
             Inl x \<Rightarrow> stop x s
           | Inr v \<Rightarrow> Some (goto_c i C_wait (s\<lparr>sem_items := v\<rparr>)))
      | C_wait \<Rightarrow> map_option (\<lambda>v. goto_c i C_return (s\<lparr>customer_mutex := (customer_mutex s)(i := v)\<rparr>))
                   (Sem_wait (customer_mutex s i))
      | C_reject \<Rightarrow> with_mon (thrlab_reject_customer c (env_now e)) (goto_c i C_return) s
      | C_return \<Rightarrow> with_mon (callback_returned c) (goto_c i C_gone) s
      | C_gone \<Rightarrow> None)"

text \<open>One turn of the loop of \<open>thrlab_wait_for_customers\<close>: the pause, the new customer, the new
  thread; running out of memory or of threads ends the program.\<close>

definition wait_for_customer :: "env \<Rightarrow> shop \<Rightarrow> shop option" where
  "wait_for_customer e s =
     (case sleep_until_customer (env_random e 0) (env_naps e) (mon s) of
        Inl x \<Rightarrow> stop x s
      | Inr None \<Rightarrow> None
      | Inr (Some _) \<Rightarrow>
          if env_fails e then stop (Exits 1) s
          else
            (case draw_customer (\<lambda>k. env_random e (Suc k)) of
               Inl x \<Rightarrow> stop x s
             | Inr (name, len, goal) \<Rightarrow>
                 (case customer_arrives name len goal (env_now e) (mon s) of
                    Inl x \<Rightarrow> stop x s
                  | Inr (c, m) \<Rightarrow>
                      Some (goto_c (cid c) C_try (s\<lparr>mon := m, live := insert (B_customer (cid c)) (live s)\<rparr>)))))"

text \<open>When everybody has come, \<open>main\<close> joins the customers' threads, closes the shop and returns 0.\<close>

definition main_close :: "shop \<Rightarrow> shop option" where
  "main_close s =
     (if \<forall>i < length (customers (mon s)). cpc s i = C_gone then
        (case thrlab_cleanup False (mon s, live s) of
           Inl (x, _) \<Rightarrow> stop x s
         | Inr (out, bs) \<Rightarrow> stop (Exits 0) (s\<lparr>printed := out, live := bs\<rparr>))
      else None)"

definition main_thread :: "env \<Rightarrow> shop \<Rightarrow> shop option" where
  "main_thread e s =
     (if length (customers (mon s)) < visitors (mon s) then wait_for_customer e s else main_close s)"

inductive shop_step :: "shop \<Rightarrow> shop \<Rightarrow> bool" where
  barber: "halted s = None \<Longrightarrow> r < barbers (mon s) \<Longrightarrow> barber_work e r s = Some s' \<Longrightarrow> shop_step s s'"
| customer: "halted s = None \<Longrightarrow> i < length (customers (mon s)) \<Longrightarrow> customer_arrived e i s = Some s'
    \<Longrightarrow> shop_step s s'"
| main: "halted s = None \<Longrightarrow> main_thread e s = Some s' \<Longrightarrow> shop_step s s'"

inductive_cases shop_stepE: "shop_step s s'"

text \<open>The states of a day that began with these options.\<close>

inductive shop_reach :: "arguments \<Rightarrow> shop \<Rightarrow> bool" for a where
  opened: "argparse opts = Inr a \<Longrightarrow> thrlab_setup opts (\<lambda>_. False) now = Inr st \<Longrightarrow>
    shop_setup (\<lambda>_. 0) st = Inr s \<Longrightarrow> shop_reach a s"
| stepped: "shop_reach a s \<Longrightarrow> shop_step s s' \<Longrightarrow> shop_reach a s'"

end
