(* ===== verification/Thr_Shop_Control.thy ===== *)
theory Thr_Shop_Control
  imports Thr_Shop
begin

text \<open>
  The control part of the barbershop's invariant: what the three semaphores count. The mutex is held
  by at most one thread; the free slots, the customers and barbers that own one and the taken chairs
  add up to the chairs; the taken chairs are the items plus the barbers and customers on their way.
\<close>

section \<open>Counting threads\<close>

definition cnt :: "('a \<Rightarrow> bool) \<Rightarrow> (nat \<Rightarrow> 'a) \<Rightarrow> nat \<Rightarrow> nat" where
  "cnt P f n = (\<Sum>i<n. of_bool (P (f i)))"

lemma cnt_upd: "i < n \<Longrightarrow> cnt P (f(i := y)) n + of_bool (P (f i)) = cnt P f n + of_bool (P y)"
proof (induction n)
  case (Suc n)
  show ?case
  proof (cases "i = n")
    case True
    have "(\<Sum>k<n. of_bool (P ((f(n := y)) k)) :: nat) = (\<Sum>k<n. of_bool (P (f k)))"
      by (rule sum.cong) auto
    then show ?thesis by (simp add: cnt_def True)
  next
    case False
    with Suc show ?thesis by (auto simp: cnt_def)
  qed
qed simp

lemma cnt_grow: "cnt P (f(n := y)) (Suc n) = cnt P f n + of_bool (P y)"
proof -
  have "(\<Sum>k<n. of_bool (P ((f(n := y)) k)) :: nat) = (\<Sum>k<n. of_bool (P (f k)))"
    by (rule sum.cong) auto
  then show ?thesis by (simp add: cnt_def)
qed

lemma cnt_pos: "i < n \<Longrightarrow> P (f i) \<Longrightarrow> 0 < cnt P f n"
  unfolding cnt_def by (rule ccontr) auto

lemma cnt_two:
  assumes "i < n" "j < n" "i \<noteq> j" "P (f i)" "P (f j)" shows "2 \<le> cnt P f n"
proof -
  have "cnt P f n = (\<Sum>k\<in>{i, j}. of_bool (P (f k))) + (\<Sum>k\<in>{..<n} - {i, j}. of_bool (P (f k)))"
    unfolding cnt_def using assms(1,2) by (subst sum.subset_diff[of "{i, j}"]) auto
  then show ?thesis using assms(3-5) by simp
qed

lemma cnt_zero: "cnt P f n = 0 \<longleftrightarrow> (\<forall>i<n. \<not> P (f i))"
  by (auto simp: cnt_def)

lemma cnt_mono: "(\<And>x. P x \<Longrightarrow> Q x) \<Longrightarrow> cnt P f n \<le> cnt Q f n"
  unfolding cnt_def by (rule sum_mono) auto

lemma cnt_split: "cnt P f n + cnt (\<lambda>x. \<not> P x) f n = n"
  by (induction n) (auto simp: cnt_def)

lemma cnt_le: "cnt P f n \<le> n"
  using sum_mono[of "{..<n}" "\<lambda>i. of_bool (P (f i)) :: nat" "\<lambda>_. 1"] by (simp add: cnt_def)

section \<open>Which threads the semaphores count\<close>

fun b_holds :: "barber_pc \<Rightarrow> bool" where
  "b_holds B_items = False" | "b_holds B_lock = False" | "b_holds B_slots = False" | "b_holds _ = True"

fun b_slot :: "barber_pc \<Rightarrow> bool" where
  "b_slot B_items = False" | "b_slot B_lock = False" | "b_slot B_take = False" | "b_slot _ = True"

fun b_called :: "barber_pc \<Rightarrow> bool" where
  "b_called B_lock = True" | "b_called B_take = True" | "b_called _ = False"

fun b_prep :: "barber_pc \<Rightarrow> bool" where
  "b_prep (B_prepare _) = True" | "b_prep _ = False"

fun c_holds :: "customer_pc \<Rightarrow> bool" where
  "c_holds C_accept = True" | "c_holds C_insert = True" | "c_holds C_unlock = True" | "c_holds _ = False"

fun c_slot :: "customer_pc \<Rightarrow> bool" where
  "c_slot C_lock = True" | "c_slot C_accept = True" | "c_slot C_insert = True" | "c_slot _ = False"

fun c_item :: "customer_pc \<Rightarrow> bool" where
  "c_item C_unlock = True" | "c_item C_items = True" | "c_item _ = False"

fun c_past :: "customer_pc \<Rightarrow> bool" where
  "c_past C_try = False" | "c_past C_lock = False" | "c_past C_accept = False" | "c_past C_insert = False"
| "c_past C_reject = False" | "c_past _ = True"

definition cntB :: "(barber_pc \<Rightarrow> bool) \<Rightarrow> shop \<Rightarrow> nat" where
  "cntB P s = cnt P (bpc s) (barbers (mon s))"

definition cntC :: "(customer_pc \<Rightarrow> bool) \<Rightarrow> shop \<Rightarrow> nat" where
  "cntC P s = cnt P (cpc s) (length (customers (mon s)))"

abbreviation queue :: "shop \<Rightarrow> customer list" where "queue s \<equiv> contents (chairs_ring s)"

definition control_ok :: "shop \<Rightarrow> bool" where
  "control_ok s \<longleftrightarrow>
     sem_mutex s + cntB b_holds s + cntC c_holds s = 1
     \<and> sem_slots s + cntB b_slot s + cntC c_slot s + length (queue s) = rmax (chairs_ring s)
     \<and> length (queue s) = sem_items s + cntB b_called s + cntC c_item s
     \<and> ring_ok 0 (chairs_ring s) \<and> rear (chairs_ring s) = cntC c_past s
     \<and> 0 < rmax (chairs_ring s) \<and> rmax (chairs_ring s) \<le> 1000
     \<and> length (customers (mon s)) \<le> 1000
     \<and> (\<forall>i < length (customers (mon s)). cpc s i \<noteq> C_reject)"

lemma control_okD:
  assumes "control_ok s"
  shows "sem_mutex s + cntB b_holds s + cntC c_holds s = 1"
    "sem_slots s + cntB b_slot s + cntC c_slot s + length (queue s) = rmax (chairs_ring s)"
    "length (queue s) = sem_items s + cntB b_called s + cntC c_item s"
    "ring_ok 0 (chairs_ring s)" "rear (chairs_ring s) = cntC c_past s"
    "0 < rmax (chairs_ring s)" "rmax (chairs_ring s) \<le> 1000" "length (customers (mon s)) \<le> 1000"
    "i < length (customers (mon s)) \<Longrightarrow> cpc s i \<noteq> C_reject"
  using assms unfolding control_ok_def by blast+

section \<open>What a step leaves alone\<close>

lemma goto_b_simps [simp]:
  "mon (goto_b r pc s) = mon s" "chairs_ring (goto_b r pc s) = chairs_ring s" "sem_mutex (goto_b r pc s) = sem_mutex s"
  "sem_slots (goto_b r pc s) = sem_slots s" "sem_items (goto_b r pc s) = sem_items s"
  "customer_mutex (goto_b r pc s) = customer_mutex s" "bpc (goto_b r pc s) = (bpc s)(r := pc)"
  "cpc (goto_b r pc s) = cpc s" "halted (goto_b r pc s) = halted s" "live (goto_b r pc s) = live s"
  "printed (goto_b r pc s) = printed s"
  by (simp_all add: goto_b_def)

lemma goto_c_simps [simp]:
  "mon (goto_c i pc s) = mon s" "chairs_ring (goto_c i pc s) = chairs_ring s" "sem_mutex (goto_c i pc s) = sem_mutex s"
  "sem_slots (goto_c i pc s) = sem_slots s" "sem_items (goto_c i pc s) = sem_items s"
  "customer_mutex (goto_c i pc s) = customer_mutex s" "bpc (goto_c i pc s) = bpc s"
  "cpc (goto_c i pc s) = (cpc s)(i := pc)" "halted (goto_c i pc s) = halted s" "live (goto_c i pc s) = live s"
  "printed (goto_c i pc s) = printed s"
  by (simp_all add: goto_c_def)

lemma cntB_goto_b:
  "r < barbers (mon s) \<Longrightarrow> cntB P (goto_b r pc s) + of_bool (P (bpc s r)) = cntB P s + of_bool (P pc)"
  by (simp add: cntB_def cnt_upd)

lemma cntC_goto_c:
  "i < length (customers (mon s)) \<Longrightarrow>
   cntC P (goto_c i pc s) + of_bool (P (cpc s i)) = cntC P s + of_bool (P pc)"
  by (simp add: cntC_def cnt_upd)

lemma cntB_pos: "r < barbers (mon s) \<Longrightarrow> P (bpc s r) \<Longrightarrow> 0 < cntB P s"
  by (simp add: cntB_def cnt_pos)

lemma cntC_pos: "i < length (customers (mon s)) \<Longrightarrow> P (cpc s i) \<Longrightarrow> 0 < cntC P s"
  by (simp add: cntC_def cnt_pos)

text \<open>The counts see the threads, the number of barbers and the number of customers only.\<close>

lemma cnt_cong:
  "bpc s' = bpc s \<Longrightarrow> barbers (mon s') = barbers (mon s) \<Longrightarrow> cntB P s' = cntB P s"
  "cpc s' = cpc s \<Longrightarrow> customers (mon s') = customers (mon s) \<Longrightarrow> cntC Q s' = cntC Q s"
  by (simp_all add: cntB_def cntC_def)

section \<open>Every step keeps the counts\<close>

lemma control_b:
  assumes I: "control_ok s" and r: "r < barbers (mon s)"
    and f: "bpc s1 = bpc s" "cpc s1 = cpc s" "barbers (mon s1) = barbers (mon s)" "customers (mon s1) = customers (mon s)"
    and m: "sem_mutex s1 + of_bool (b_holds pc) = sem_mutex s + of_bool (b_holds (bpc s r))"
    and sl: "sem_slots s1 + of_bool (b_slot pc) + length (queue s1)
      = sem_slots s + of_bool (b_slot (bpc s r)) + length (queue s)"
    and it: "length (queue s1) + sem_items s + of_bool (b_called (bpc s r))
      = length (queue s) + sem_items s1 + of_bool (b_called pc)"
    and q: "ring_ok 0 (chairs_ring s1)" "rear (chairs_ring s1) = rear (chairs_ring s)"
      "rmax (chairs_ring s1) = rmax (chairs_ring s)"
  shows "control_ok (goto_b r pc s1)"
proof -
  note d = control_okD[OF I]
  have b: "cntB P (goto_b r pc s1) + of_bool (P (bpc s r)) = cntB P s + of_bool (P pc)" for P
    using cntB_goto_b[of r s1 P pc] r f cnt_cong(1)[OF f(1,3), of P] by simp
  have c: "cntC Q (goto_b r pc s1) = cntC Q s" for Q by (rule cnt_cong) (simp_all add: f)
  show ?thesis
    unfolding control_ok_def goto_b_simps c f(2,4)
    using d b[of b_holds] b[of b_slot] b[of b_called] m sl it q by (intro conjI) (simp, linarith+, auto)
qed

lemma control_c:
  assumes I: "control_ok s" and i: "i < length (customers (mon s))"
    and f: "bpc s1 = bpc s" "cpc s1 = cpc s" "barbers (mon s1) = barbers (mon s)" "customers (mon s1) = customers (mon s)"
    and m: "sem_mutex s1 + of_bool (c_holds pc) = sem_mutex s + of_bool (c_holds (cpc s i))"
    and sl: "sem_slots s1 + of_bool (c_slot pc) + length (queue s1)
      = sem_slots s + of_bool (c_slot (cpc s i)) + length (queue s)"
    and it: "length (queue s1) + sem_items s + of_bool (c_item (cpc s i))
      = length (queue s) + sem_items s1 + of_bool (c_item pc)"
    and q: "ring_ok 0 (chairs_ring s1)"
      "rear (chairs_ring s1) + of_bool (c_past (cpc s i)) = rear (chairs_ring s) + of_bool (c_past pc)"
      "rmax (chairs_ring s1) = rmax (chairs_ring s)" and pc: "pc \<noteq> C_reject"
  shows "control_ok (goto_c i pc s1)"
proof -
  note d = control_okD[OF I]
  have c: "cntC P (goto_c i pc s1) + of_bool (P (cpc s i)) = cntC P s + of_bool (P pc)" for P
    using cntC_goto_c[of i s1 P pc] i f cnt_cong(2)[OF f(2,4), of P] by simp
  have b: "cntB Q (goto_c i pc s1) = cntB Q s" for Q by (rule cnt_cong) (simp_all add: f)
  show ?thesis
    unfolding control_ok_def goto_c_simps b f(2,4)
    using d c[of c_holds] c[of c_slot] c[of c_item] c[of c_past] m sl it q pc
    by (intro conjI) (simp, linarith+, auto)
qed

lemma control_stop: "control_ok s \<Longrightarrow> control_ok (s\<lparr>halted := x\<rparr>)"
  by (simp add: control_ok_def cntB_def cntC_def)

end
