(* ===== verification/Thr_Setup_Props.thy ===== *)
theory Thr_Setup_Props
  imports Thr_Setup
begin

text \<open>The properties of the barbershop's options, allocations, random draws and sleep.\<close>

section \<open>Options\<close>

definition arguments_ok :: "arguments \<Rightarrow> bool" where
  "arguments_ok a \<longleftrightarrow> arg_barbers a \<in> {1..49} \<and> arg_chairs a \<in> {1..1000}
     \<and> arg_customers a \<in> {1..1000} \<and> arg_rate a \<in> {1..10000}"

lemma my_strtonum_range: "my_strtonum s lo hi = (n, None) \<Longrightarrow> n \<in> {lo..hi}"
  by (auto simp: my_strtonum_def split: prod.splits if_splits)

lemma argparse_opt_ok:
  assumes "argparse_opt key arg a = Inr (Some a')" "arguments_ok a" shows "arguments_ok a'"
  using assms unfolding argparse_opt_def length_barber_names Let_def argp_usage_def
  by (auto split: prod.splits if_splits dest!: my_strtonum_range simp: arguments_ok_def)

lemma argparse_opt_error: "argparse_opt key arg a = Inl e \<Longrightarrow> e = Exits 64"
  unfolding argparse_opt_def Let_def argp_usage_def by (auto split: prod.splits if_splits)

lemma argp_parse_outcome:
  "arguments_ok a \<Longrightarrow> (case argp_parse opts a of Inl e \<Rightarrow> e = Exits 64 | Inr a' \<Rightarrow> arguments_ok a')"
proof (induction opts a rule: argp_parse.induct)
  case (2 key arg opts a)
  then show ?case
    by (cases "argparse_opt key arg a" rule: sum.exhaust)
      (auto simp: argp_usage_def dest: argparse_opt_ok argparse_opt_error split: option.splits)
qed simp

lemma argparse_outcome:
  "case argparse opts of Inl e \<Rightarrow> e = Exits 64 | Inr a \<Rightarrow> arguments_ok a"
  unfolding argparse_def by (rule argp_parse_outcome) (simp add: arguments_ok_def)

text \<open>C40. Whatever the command line says, the options are rejected with the usage message and exit
  status 64, or every number is within its range: one to 49 barbers (there is a name for each), one to
  1000 chairs and customers, a rate of one to 10000 milliseconds.\<close>

theorem argparse_range:
  "case argparse opts of Inl e \<Rightarrow> e = Exits 64 | Inr a \<Rightarrow> arguments_ok a"
  by (rule argparse_outcome)

lemma argp_parse_append:
  "argp_parse (os @ [(k, v)]) a =
     (case argp_parse os a of Inl e \<Rightarrow> Inl e | Inr a' \<Rightarrow> argp_parse [(k, v)] a')"
  by (induction os a rule: argp_parse.induct) (auto simp: argp_usage_def split: sum.splits option.splits)

lemma strtoul_digits:
  assumes "n < 2 ^ 64" "\<not> (\<exists>c r. w = c # r \<and> isdigit c)" shows "strtoul (nat_digits n @ w) = (n, False)"
proof -
  have ne: "nat_digits n \<noteq> []" by (subst nat_digits.simps) simp
  then obtain c r where cr: "nat_digits n = c # r" by (cases "nat_digits n") auto
  have d: "isdigit c" using nat_digits_isdigit[of n] cr by simp
  then have c: "48 \<le> (of_char c :: nat)" "(of_char c :: nat) \<le> 57" by (auto simp: isdigit_def)
  have nc: "c \<noteq> CHR '' ''" "c \<noteq> CHR ''-''" "c \<noteq> CHR ''+''" using c by auto
  have "\<not> isspace c" using nc(1) c by (auto simp: isspace_def)
  then have s: "dropWhile isspace (nat_digits n @ w) = nat_digits n @ w" by (simp add: cr)
  have t: "takeWhile isdigit (nat_digits n @ w) = nat_digits n"
    using nat_digits_isdigit[of n] assms(2) by (cases w) (auto simp: takeWhile_append2)
  have "hd (nat_digits n @ w) = c" by (simp add: cr)
  then show ?thesis
    using assms(1) nc ne unfolding strtoul_def s Let_def by (simp add: t digits_value_nat_digits)
qed

text \<open>A number given for an option is the number used: whatever the earlier options were, the
  decimal digits of a number of barbers within the range set the barbers to that number and leave the
  rest. The digits may be followed by any text that does not begin with a digit; it is ignored.\<close>

theorem barbers_option:
  assumes "argparse opts = Inr a" "1 \<le> n" "n \<le> 49" "w = [] \<or> \<not> isdigit (hd w)"
  shows "argparse (opts @ [(CHR ''b'', nat_digits n @ w)]) = Inr (a\<lparr>arg_barbers := n\<rparr>)"
proof -
  have "strtoul (nat_digits n @ w) = (n, False)"
    by (rule strtoul_digits) (use assms in auto)
  then have "my_strtonum (nat_digits n @ w) 1 49 = (n, None)"
    using assms by (simp add: my_strtonum_def)
  then show ?thesis
    using assms(1) by (simp add: argparse_def argp_parse_append argparse_opt_def length_barber_names)
qed

theorem barbers_option_witness:
  "argparse [(CHR ''b'', nat_digits 12 @ ''abc'')] =
     Inr \<lparr>arg_barbers = 12, arg_chairs = 2, arg_customers = 10, arg_rate = 1000\<rparr>"
  using barbers_option[of "[]" "\<lparr>arg_barbers = 3, arg_chairs = 2, arg_customers = 10, arg_rate = 1000\<rparr>" 12 "''abc''"]
  by (simp add: argparse_def isdigit_def)

section \<open>Opening and closing\<close>

abbreviation monitor_blocks :: "block set" where
  "monitor_blocks \<equiv> {B_thrlab, B_customers, B_statuses, B_times, B_occupancy}"

lemma open_monitor_ok: "arguments_ok a \<Longrightarrow> monitor_ok (open_monitor a now)"
  by (auto simp: monitor_ok_def open_monitor_def arguments_ok_def)

lemma free_blocks_all:
  "distinct bs \<Longrightarrow> set bs \<subseteq> live \<Longrightarrow> free_blocks bs live = Inr (live - set bs)"
proof (induction bs arbitrary: live)
  case (Cons b bs)
  then have "free_blocks bs (live - {b}) = Inr (live - {b} - set bs)" by (intro Cons.IH) auto
  moreover have "live - {b} - set bs = live - set (b # bs)" by auto
  ultimately show ?case using Cons.prems by (simp add: free_block_def)
qed simp

lemma setup_cases:
  assumes "argparse opts = Inr a"
  shows "((\<forall>s. \<not> fails s) \<longrightarrow> thrlab_setup opts fails now = Inr (open_monitor a now, monitor_blocks)
      \<and> monitor_ok (open_monitor a now))
    \<and> ((\<exists>s. fails s \<and> s \<noteq> Init_mutex) \<longrightarrow> thrlab_setup opts fails now = Inl (Exits 1, {}))
    \<and> (fails Init_mutex \<and> (\<forall>s. fails s \<longrightarrow> s = Init_mutex) \<longrightarrow>
        thrlab_setup opts fails now = Inl (Undefined ''free'', monitor_blocks))"
proof -
  have ok: "arguments_ok a" using argparse_outcome[of opts] assms by simp
  have f: "fail_after bs live = (Inl (Exits 1, {}) :: _ + monitor \<times> block set)" if "distinct bs" "set bs = live" for bs live
    using that free_blocks_all[of bs live] by (simp add: fail_after_def)
  have e: "(\<exists>s. fails s \<and> s \<noteq> Init_mutex) \<longleftrightarrow> fails Alloc_thrlab \<or> fails Alloc_customers \<or> fails Alloc_statuses
      \<or> fails Alloc_times \<or> fails Alloc_occupancy"
    by (metis setup_step.exhaust setup_step.distinct)
  have d: "fail_after [B_statuses, B_times, B_statuses, B_customers, B_thrlab] monitor_blocks
      = (Inl (Undefined ''free'', monitor_blocks) :: _ + monitor \<times> block set)"
    by (simp add: fail_after_def free_block_def)
  show ?thesis
  proof (intro conjI impI)
    assume "\<exists>s. fails s \<and> s \<noteq> Init_mutex"
    then have "fails Alloc_thrlab \<or> fails Alloc_customers \<or> fails Alloc_statuses
      \<or> fails Alloc_times \<or> fails Alloc_occupancy" unfolding e .
    then show "thrlab_setup opts fails now = Inl (Exits 1, {})"
      using assms by (auto simp: thrlab_setup_def f insert_commute Let_def)
  next
    assume m: "fails Init_mutex \<and> (\<forall>s. fails s \<longrightarrow> s = Init_mutex)"
    then have "\<not> fails Alloc_thrlab" "\<not> fails Alloc_customers" "\<not> fails Alloc_statuses" "\<not> fails Alloc_times"
      "\<not> fails Alloc_occupancy" by auto
    then show "thrlab_setup opts fails now = Inl (Undefined ''free'', monitor_blocks)"
      using assms m by (simp add: thrlab_setup_def d Let_def)
  next
    assume "\<forall>s. \<not> fails s"
    then show "thrlab_setup opts fails now = Inr (open_monitor a now, monitor_blocks)"
      using assms by (simp add: thrlab_setup_def Let_def)
  qed (rule open_monitor_ok[OF ok])
qed

text \<open>C39. Opening the shop either succeeds, with a monitor that counts nobody and its five blocks
  allocated, or exits with status 1 and nothing left allocated when an allocation fails; only when the
  mutex cannot be initialised, the last step, does the error path free a block twice.\<close>

theorem thrlab_setup_outcome:
  assumes "argparse opts = Inr a"
  shows "((\<forall>s. \<not> fails s) \<longrightarrow> thrlab_setup opts fails now = Inr (open_monitor a now, monitor_blocks)
      \<and> monitor_ok (open_monitor a now))
    \<and> ((\<exists>s. fails s \<and> s \<noteq> Init_mutex) \<longrightarrow> thrlab_setup opts fails now = Inl (Exits 1, {}))
    \<and> (fails Init_mutex \<and> (\<forall>s. fails s \<longrightarrow> s = Init_mutex) \<longrightarrow>
        thrlab_setup opts fails now = Inl (Undefined ''free'', monitor_blocks))"
  using assms by (rule setup_cases)

theorem thrlab_setup_outcome_witness:
  "thrlab_setup [] (\<lambda>s. s = Alloc_times) \<lparr>tv_sec = 5, tv_nsec = 0\<rparr> = Inl (Exits 1, {})"
  using thrlab_setup_outcome[of "[]" "\<lparr>arg_barbers = 3, arg_chairs = 2, arg_customers = 10, arg_rate = 1000\<rparr>"
      "\<lambda>s. s = Alloc_times" "\<lparr>tv_sec = 5, tv_nsec = 0\<rparr>"]
  by (simp add: argparse_def)

lemma cleanup_frees:
  "thrlab_cleanup False (m, monitor_blocks \<union> B_customer ` {..<length (customers m)})
    = Inr (''============================'' @ newline @ ''POSIX Barbershop closed! Good bye!'' @ newline
        @ check_complaints m, {})"
proof -
  let ?bs = "map B_customer [0..<length (customers m)] @ [B_customers, B_statuses, B_times, B_occupancy]"
  let ?live = "monitor_blocks \<union> B_customer ` {..<length (customers m)}"
  have "distinct ?bs" by (auto simp: distinct_map inj_on_def)
  then have "free_blocks ?bs ?live = Inr (?live - set ?bs)" by (rule free_blocks_all) auto
  also have "?live - set ?bs = {B_thrlab}" by (auto simp: atLeast0LessThan)
  finally have f: "free_blocks ?bs ?live = Inr {B_thrlab}" .
  have g: "free_block B_thrlab {B_thrlab} = Inr {}" by (simp add: free_block_def)
  show ?thesis unfolding thrlab_cleanup_def prod.case f Let_def sum.case if_False g by (rule refl)
qed

text \<open>Closing the shop frees each customer and each block of the monitor exactly once and leaves
  nothing allocated; what it prints is the closing message and the report.\<close>

theorem thrlab_cleanup_frees_all:
  "thrlab_cleanup False (m, monitor_blocks \<union> B_customer ` {..<length (customers m)})
    = Inr (''============================'' @ newline @ ''POSIX Barbershop closed! Good bye!'' @ newline
        @ check_complaints m, {})"
  by (rule cleanup_frees)

section \<open>Random draws and sleeping\<close>

lemma my_arc4random_uniform_bound:
  assumes "0 < u" shows "\<exists>x. my_arc4random_uniform rs u = Inr x \<and> x < u"
  using assms by (auto simp: my_arc4random_uniform_def word_less_nat_alt unat_mod)

lemma draw_below:
  assumes "0 < n" "n < 2 ^ 31" shows "\<exists>x. my_arc4random_uniform rs (of_nat n) = Inr x \<and> unat x < n"
proof -
  have u: "unat (of_nat n :: u32) = n" using assms(2) by (intro unat_of_nat_u32) simp
  then have "(0 :: u32) < of_nat n" using assms(1) by (simp add: word_less_nat_alt)
  from my_arc4random_uniform_bound[OF this] show ?thesis by (auto simp: word_less_nat_alt u)
qed

lemma draws_in_range:
  "\<exists>name len goal. draw_customer rs = Inr (name, len, goal) \<and> name \<in> set customer_names
     \<and> len \<in> {100..199} \<and> goal \<in> {50..74} \<and> int (uint_sub len goal) = int len - int goal
     \<and> 130 \<le> 5 * (int len - int goal) \<and> 5 * (int len - int goal) \<le> 745"
proof -
  obtain i where i: "my_arc4random_uniform (rs 0) (of_nat (length customer_names)) = Inr i"
    "unat i < length customer_names"
    using draw_below[of "length customer_names" "rs 0"] by (auto simp: length_customer_names)
  obtain l where l: "my_arc4random_uniform (rs (Suc 0)) 100 = Inr l" "unat l < 100"
    using draw_below[of 100 "rs (Suc 0)"] by auto
  obtain g where g: "my_arc4random_uniform (rs 2) 25 = Inr g" "unat g < 25"
    using draw_below[of 25 "rs 2"] by auto
  have "unat (l + 100) = unat l + 100" "unat (g + 50) = unat g + 50"
    using l(2) g(2) by (simp_all add: unat_word_ariths)
  then have "draw_customer rs = Inr (customer_names ! unat i, unat l + 100, unat g + 50)"
    by (simp add: draw_customer_def random_name_def i(1) l(1) g(1))
  moreover have "uint_sub (unat l + 100) (unat g + 50) = unat l + 100 - (unat g + 50)"
    using l(2) g(2) by (simp add: uint_sub_def mod_if)
  moreover have "int (unat l + 100) = int (unat l) + 100" "int (unat g + 50) = int (unat g) + 50"
    by (simp_all only: of_nat_add of_nat_numeral)
  ultimately show ?thesis using l(2) g(2) i(2) nth_mem[OF i(2)] by auto
qed

text \<open>Every arrival gets a name of the table, hair of 100 to 199 millimetres and a wish for 50 to
  74, whatever the random bits are: the difference never wraps around, and a haircut takes between
  130 and 745 milliseconds.\<close>

theorem draw_customer_bounds:
  "\<exists>name len goal. draw_customer rs = Inr (name, len, goal) \<and> name \<in> set customer_names
     \<and> len \<in> {100..199} \<and> goal \<in> {50..74} \<and> int (uint_sub len goal) = int len - int goal
     \<and> 130 \<le> 5 * (int len - int goal) \<and> 5 * (int len - int goal) \<le> 745"
  by (rule draws_in_range)

lemma sleep_loop_at_least:
  "Slept \<in> set naps \<Longrightarrow> \<exists>t. sleep_loop naps ts = Some t \<and> (tv_nsec ts < 1000000000 \<longrightarrow> ns ts \<le> t)"
proof (induction naps arbitrary: ts)
  case (Cons a naps)
  show ?case
  proof (cases "tv_sec ts > 0 \<or> tv_nsec ts > 0")
    case True
    show ?thesis
    proof (cases a)
      case Slept
      with True show ?thesis by (subst sleep_loop.simps) simp
    next
      case (Interrupted k)
      with Cons.prems have "Slept \<in> set naps" by simp
      from Cons.IH[OF this, of "to_timespec (ns ts - k)"] obtain t where
        t: "sleep_loop naps (to_timespec (ns ts - k)) = Some t" "ns (to_timespec (ns ts - k)) \<le> t"
        by (auto simp: to_timespec_def)
      have "ns (to_timespec (ns ts - k)) = ns ts - k" by (simp add: ns_def to_timespec_def)
      with t True Interrupted show ?thesis by (subst sleep_loop.simps) simp
    qed
  qed (subst sleep_loop.simps, simp add: ns_def)
qed simp

lemma sleep_at_least:
  assumes "0 \<le> ms" "Slept \<in> set naps"
  shows "\<exists>t. thrlab_sleep naps ms = Inr (Some t) \<and> ms * 1000000 \<le> t"
proof -
  let ?ts = "\<lparr>tv_sec = ms div 1000, tv_nsec = ms mod 1000 * 1000000\<rparr>"
  have "ns ?ts = ms div 1000 * 1000000000 + ms mod 1000 * 1000000" by (simp add: ns_def)
  moreover have "1000 * (ms div 1000) + ms mod 1000 = ms" by (rule mult_div_mod_eq)
  ultimately have "ns ?ts = ms * 1000000" by linarith
  moreover have "ms mod 1000 < 1000" by simp
  then have "tv_nsec ?ts < 1000000000" by simp
  ultimately show ?thesis
    using sleep_loop_at_least[OF assms(2), of ?ts] assms(1) by (auto simp: thrlab_sleep_def)
qed

text \<open>A sleep lasts at least as long as it was asked for, however often signals interrupt it, and
  it ends as soon as one of the calls of \<open>nanosleep\<close> is not interrupted.\<close>

theorem thrlab_sleep_at_least:
  assumes "0 \<le> ms" "Slept \<in> set naps"
  shows "\<exists>t. thrlab_sleep naps ms = Inr (Some t) \<and> ms * 1000000 \<le> t"
  using assms by (rule sleep_at_least)

theorem thrlab_sleep_at_least_witness:
  "\<exists>t. thrlab_sleep [Interrupted 300000000, Slept] 1250 = Inr (Some t) \<and> 1250000000 \<le> t"
  using thrlab_sleep_at_least[of 1250 "[Interrupted 300000000, Slept]"] by simp

end
