(* ===== verification/Thr_Shop_Inv.thy ===== *)
theory Thr_Shop_Inv
  imports Thr_Shop_Control Thr_Setup_Props
begin

text \<open>
  The whole invariant of the barbershop: besides the counts of the semaphores, where each customer is,
  which status the monitor has for them, and that the waiting room holds exactly the customers who wait.
\<close>

section \<open>What the monitor answers to an orderly call\<close>

lemma accept_orderly:
  assumes "cid c < visitors m" "cid c < length (statuses m)" "statuses m ! cid c = CUSTOMER_PENDING"
    "num_waiting m < chairs m"
  shows "\<exists>m'. thrlab_accept_customer c now m = Inr m' \<and> same_shop m m' \<and> rate m' = rate m
    \<and> complaints m' = complaints m \<and> statuses m' = (statuses m)[cid c := CUSTOMER_WAITING]
    \<and> occupancy m' = occupancy m \<and> num_waiting m' = size_incr (num_waiting m)"
  using assms unfolding thrlab_accept_customer_def with_status_ok
  by (simp add: same_shop_def Let_def time_printf_def set_status_def)

lemma prepare_orderly:
  assumes "cid c < visitors m" "cid c < length (statuses m)" "statuses m ! cid c = CUSTOMER_WAITING"
    "room < barbers m" "occupancy m ! room = None"
  shows "\<exists>m'. thrlab_prepare_customer c room False now at m = Inr m' \<and> same_shop m m' \<and> rate m' = rate m
    \<and> complaints m' = complaints m \<and> statuses m' = (statuses m)[cid c := CUSTOMER_CUTTING]
    \<and> occupancy m' = (occupancy m)[room := Some (cid c)] \<and> num_waiting m' = size_decr (num_waiting m)"
  using assms unfolding thrlab_prepare_customer_def
  by (simp add: with_status_ok same_shop_def Let_def time_printf_def set_status_def)

lemma dismiss_orderly:
  assumes "cid c < visitors m" "cid c < length (statuses m)" "statuses m ! cid c = CUSTOMER_CUTTING"
    "room < barbers m" "occupancy m ! room = Some (cid c)"
  shows "\<exists>m'. thrlab_dismiss_customer c room False now at m = Inr m' \<and> same_shop m m' \<and> rate m' = rate m
    \<and> (\<forall>k. k \<noteq> Cut_fast \<and> k \<noteq> Cut_slow \<longrightarrow> complaints m' k = complaints m k)
    \<and> statuses m' = (statuses m)[cid c := CUSTOMER_DONE]
    \<and> occupancy m' = (occupancy m)[room := None] \<and> num_waiting m' = num_waiting m"
  using assms unfolding thrlab_dismiss_customer_def
  by (simp add: with_status_ok same_shop_def Let_def time_printf_def set_status_def complain_def)

lemma callback_orderly:
  assumes "cid c < visitors m" "cid c < length (statuses m)" "statuses m ! cid c = CUSTOMER_DONE"
  shows "callback_returned c m = Inr m"
  using assms by (simp add: callback_returned_def with_status_ok)

section \<open>The invariant\<close>

fun barber_customer :: "barber_pc \<Rightarrow> customer option" where
  "barber_customer (B_prepare c) = Some c" | "barber_customer (B_cut c) = Some c"
| "barber_customer (B_dismiss c) = Some c" | "barber_customer (B_unblock c) = Some c"
| "barber_customer _ = None"

definition held :: "shop \<Rightarrow> customer \<Rightarrow> bool" where
  "held s c \<longleftrightarrow> (\<exists>r < barbers (mon s). barber_customer (bpc s r) = Some c)"

text \<open>A customer of the shop, known under their id.\<close>

definition known :: "shop \<Rightarrow> customer \<Rightarrow> bool" where
  "known s c \<longleftrightarrow> cid c < length (customers (mon s)) \<and> customers (mon s) ! cid c = c"

abbreviation status_of :: "shop \<Rightarrow> nat \<Rightarrow> customer_status" where
  "status_of s i \<equiv> statuses (mon s) ! i"

definition queue_ok :: "shop \<Rightarrow> bool" where
  "queue_ok s \<longleftrightarrow> distinct (queue s) \<and> (\<forall>c \<in> set (queue s). known s c
     \<and> cpc s (cid c) \<in> {C_unlock, C_items, C_wait} \<and> status_of s (cid c) = CUSTOMER_WAITING
     \<and> customer_mutex s (cid c) = 0)"

definition serving :: "shop \<Rightarrow> customer \<Rightarrow> bool" where
  "serving s c \<longleftrightarrow> known s c \<and> cpc s (cid c) \<in> {C_items, C_wait} \<and> customer_mutex s (cid c) = 0
     \<and> c \<notin> set (queue s)"

fun barber_at :: "shop \<Rightarrow> nat \<Rightarrow> barber_pc \<Rightarrow> bool" where
  "barber_at s r (B_prepare c) \<longleftrightarrow>
     serving s c \<and> status_of s (cid c) = CUSTOMER_WAITING \<and> occupancy (mon s) ! r = None"
| "barber_at s r (B_cut c) \<longleftrightarrow>
     serving s c \<and> status_of s (cid c) = CUSTOMER_CUTTING \<and> occupancy (mon s) ! r = Some (cid c)"
| "barber_at s r (B_dismiss c) \<longleftrightarrow>
     serving s c \<and> status_of s (cid c) = CUSTOMER_CUTTING \<and> occupancy (mon s) ! r = Some (cid c)"
| "barber_at s r (B_unblock c) \<longleftrightarrow>
     serving s c \<and> status_of s (cid c) = CUSTOMER_DONE \<and> occupancy (mon s) ! r = None"
| "barber_at s r _ \<longleftrightarrow> occupancy (mon s) ! r = None"

definition hair_ok :: "customer \<Rightarrow> bool" where
  "hair_ok c \<longleftrightarrow> hair_length c \<in> {100..199} \<and> hair_goal c \<in> {50..74}"

definition served :: "shop \<Rightarrow> nat \<Rightarrow> bool" where
  "served s i \<longleftrightarrow> customers (mon s) ! i \<in> set (queue s) \<or> held s (customers (mon s) ! i)
     \<or> customer_mutex s i = 1 \<and> status_of s i = CUSTOMER_DONE"

fun customer_at :: "shop \<Rightarrow> nat \<Rightarrow> customer_pc \<Rightarrow> bool" where
  "customer_at s i C_try \<longleftrightarrow> status_of s i = CUSTOMER_PENDING"
| "customer_at s i C_lock \<longleftrightarrow> status_of s i = CUSTOMER_PENDING \<and> customer_mutex s i = 0"
| "customer_at s i C_accept \<longleftrightarrow> status_of s i = CUSTOMER_PENDING \<and> customer_mutex s i = 0"
| "customer_at s i C_insert \<longleftrightarrow> status_of s i = CUSTOMER_WAITING \<and> customer_mutex s i = 0"
| "customer_at s i C_reject \<longleftrightarrow> False"
| "customer_at s i C_return \<longleftrightarrow> status_of s i = CUSTOMER_DONE"
| "customer_at s i C_gone \<longleftrightarrow> status_of s i = CUSTOMER_DONE"
| "customer_at s i _ \<longleftrightarrow> served s i"

definition customers_known :: "shop \<Rightarrow> bool" where
  "customers_known s \<longleftrightarrow> (\<forall>i < length (customers (mon s)).
     cid (customers (mon s) ! i) = i \<and> hair_ok (customers (mon s) ! i))"

definition monitor_matches :: "arguments \<Rightarrow> shop \<Rightarrow> bool" where
  "monitor_matches a s \<longleftrightarrow> arguments_ok a \<and> monitor_ok (mon s) \<and> visitors (mon s) = arg_customers a
     \<and> barbers (mon s) = arg_barbers a \<and> chairs (mon s) = arg_chairs a \<and> rate (mon s) = arg_rate a
     \<and> rmax (chairs_ring s) = chairs (mon s)
     \<and> num_waiting (mon s) = cntB b_prep s + cntC (\<lambda>pc. pc = C_insert) s + length (queue s)
     \<and> (\<forall>k. k \<noteq> Cut_fast \<and> k \<noteq> Cut_slow \<longrightarrow> complaints (mon s) k = 0)"

definition blocks_ok :: "shop \<Rightarrow> bool" where
  "blocks_ok s \<longleftrightarrow> live s = monitor_blocks \<union> B_customer ` {..<length (customers (mon s))}"

definition shop_ok :: "arguments \<Rightarrow> shop \<Rightarrow> bool" where
  "shop_ok a s \<longleftrightarrow> control_ok s \<and> monitor_matches a s \<and> queue_ok s
     \<and> (\<forall>r < barbers (mon s). barber_at s r (bpc s r))
     \<and> (\<forall>i < length (customers (mon s)). customer_at s i (cpc s i)) \<and> customers_known s \<and> blocks_ok s"

lemma shop_okD:
  assumes "shop_ok a s"
  shows "control_ok s" "monitor_matches a s" "queue_ok s" "r < barbers (mon s) \<Longrightarrow> barber_at s r (bpc s r)"
    "i < length (customers (mon s)) \<Longrightarrow> customer_at s i (cpc s i)" "customers_known s" "blocks_ok s"
  using assms unfolding shop_ok_def by blast+

section \<open>Who holds the mutex is alone\<close>

lemma sole_barber:
  assumes "control_ok s" "r < barbers (mon s)" "b_holds (bpc s r)"
  shows "q < barbers (mon s) \<Longrightarrow> q \<noteq> r \<Longrightarrow> \<not> b_holds (bpc s q)"
    "i < length (customers (mon s)) \<Longrightarrow> \<not> c_holds (cpc s i)" "sem_mutex s = 0"
proof -
  note d = control_okD(1)[OF assms(1)]
  have b: "0 < cntB b_holds s" using assms(2,3) by (rule cntB_pos)
  show "sem_mutex s = 0" using d b by linarith
  show "\<not> b_holds (bpc s q)" if "q < barbers (mon s)" "q \<noteq> r"
  proof
    assume "b_holds (bpc s q)"
    then have "2 \<le> cntB b_holds s" unfolding cntB_def using that assms(2,3) by (intro cnt_two[of q _ r]) auto
    with d show False by linarith
  qed
  show "\<not> c_holds (cpc s i)" if "i < length (customers (mon s))"
    using cntC_pos[of i s c_holds] that b d by fastforce
qed

lemma sole_customer:
  assumes "control_ok s" "i < length (customers (mon s))" "c_holds (cpc s i)"
  shows "q < barbers (mon s) \<Longrightarrow> \<not> b_holds (bpc s q)"
    "j < length (customers (mon s)) \<Longrightarrow> j \<noteq> i \<Longrightarrow> \<not> c_holds (cpc s j)" "sem_mutex s = 0"
proof -
  note d = control_okD(1)[OF assms(1)]
  have c: "0 < cntC c_holds s" using assms(2,3) by (rule cntC_pos)
  show "sem_mutex s = 0" using d c by linarith
  show "\<not> b_holds (bpc s q)" if "q < barbers (mon s)"
    using cntB_pos[of q s b_holds] that c d by fastforce
  show "\<not> c_holds (cpc s j)" if "j < length (customers (mon s))" "j \<noteq> i"
  proof
    assume "c_holds (cpc s j)"
    then have "2 \<le> cntC c_holds s" unfolding cntC_def using that assms(2,3) by (intro cnt_two[of j _ i]) auto
    with d show False by linarith
  qed
qed

lemma barber_customer_holds: "barber_customer pc = Some c \<Longrightarrow> b_holds pc"
  by (cases pc) auto

lemma b_prep_holds: "b_prep pc \<Longrightarrow> b_holds pc"
  by (cases pc) auto

text \<open>What a thread's place says of the state stays true when the facts it rests on do.\<close>

lemma barber_at_frame:
  assumes "barber_at s r pc" "occupancy (mon s') ! r = occupancy (mon s) ! r"
    "\<And>c. barber_customer pc = Some c \<Longrightarrow> serving s c \<Longrightarrow> serving s' c \<and> status_of s' (cid c) = status_of s (cid c)"
  shows "barber_at s' r pc"
  using assms by (cases pc) auto

lemma customer_at_frame:
  assumes "customer_at s i pc" "status_of s' i = status_of s i" "customer_mutex s' i = customer_mutex s i"
    "served s i \<Longrightarrow> served s' i"
  shows "customer_at s' i pc"
  using assms by (cases pc) auto

lemma shop_okI:
  assumes "control_ok s" "monitor_matches a s" "queue_ok s"
    "\<And>r. r < barbers (mon s) \<Longrightarrow> barber_at s r (bpc s r)"
    "\<And>i. i < length (customers (mon s)) \<Longrightarrow> customer_at s i (cpc s i)" "customers_known s" "blocks_ok s"
  shows "shop_ok a s"
  using assms by (simp add: shop_ok_def)

end
