(* ===== verification/Thr_Shop_Steps.thy ===== *)
theory Thr_Shop_Steps
  imports Thr_Shop_Inv
begin

text \<open>Every step of the barbershop keeps its invariant.\<close>

section \<open>Steps that only move a thread and a semaphore\<close>

lemma cntB_same:
  assumes "r < barbers (mon s)" "P pc = P (bpc s r)" "bpc s1 = bpc s" "barbers (mon s1) = barbers (mon s)"
  shows "cntB P (goto_b r pc s1) = cntB P s"
  using cntB_goto_b[of r s1 P pc] assms cnt_cong(1)[OF assms(3,4), of P] by simp

lemma cntC_same:
  assumes "i < length (customers (mon s))" "P pc = P (cpc s i)" "cpc s1 = cpc s"
    "customers (mon s1) = customers (mon s)"
  shows "cntC P (goto_c i pc s1) = cntC P s"
  using cntC_goto_c[of i s1 P pc] assms cnt_cong(2)[OF assms(3,4), of P] by simp

lemma held_same:
  assumes "barber_customer pc = barber_customer (bpc s r)" "bpc s1 = bpc s" "barbers (mon s1) = barbers (mon s)"
  shows "held (goto_b r pc s1) x = held s x"
proof -
  have "barber_customer (bpc (goto_b r pc s1) p) = barber_customer (bpc s p)" for p
    using assms by simp
  then show ?thesis unfolding held_def by (simp only: goto_b_simps assms(3))
qed

lemma quiet_b:
  assumes I: "shop_ok a s" and r: "r < barbers (mon s)" and c: "control_ok (goto_b r pc s1)"
    and f: "mon s1 = mon s" "chairs_ring s1 = chairs_ring s" "customer_mutex s1 = customer_mutex s"
      "bpc s1 = bpc s" "cpc s1 = cpc s" "live s1 = live s"
    and b: "barber_customer pc = barber_customer (bpc s r)" "b_prep pc = b_prep (bpc s r)"
    and bo: "barber_at s r (bpc s r) \<longrightarrow> barber_at s r pc"
  shows "shop_ok a (goto_b r pc s1)"
proof -
  note d = shop_okD[OF I]
  let ?s = "goto_b r pc s1"
  have h: "held ?s x = held s x" for x using r b f by (auto simp: held_def)
  have k: "known ?s x = known s x" for x by (simp add: known_def f)
  have v: "serving ?s x = serving s x" for x by (simp add: serving_def k f)
  have bf: "barber_at ?s p pc'" if "barber_at s p pc'" for p pc'
    using that by (rule barber_at_frame) (simp_all add: v f)
  show ?thesis
  proof (rule shop_okI)
    show "queue_ok ?s" using d(3) by (simp add: queue_ok_def k f)
    show "barber_at ?s p (bpc ?s p)" if "p < barbers (mon ?s)" for p
      using that d(4)[of p] bo bf f r by (cases "p = r") simp_all
    show "customer_at ?s i (cpc ?s i)" if "i < length (customers (mon ?s))" for i
      using that d(5)[of i] by (simp add: f) (erule customer_at_frame, simp_all add: served_def h f)
    show "monitor_matches a ?s"
      using d(2) cntB_same[OF r b(2) f(4)] cnt_cong(2)[of ?s s "\<lambda>pc. pc = C_insert"]
      by (simp add: monitor_matches_def f)
  qed (use c d(6,7) in \<open>simp_all add: customers_known_def blocks_ok_def f\<close>)
qed

lemma quiet_c:
  assumes I: "shop_ok a s" and i: "i < length (customers (mon s))" and c: "control_ok (goto_c i pc s1)"
    and f: "mon s1 = mon s" "chairs_ring s1 = chairs_ring s" "customer_mutex s1 = customer_mutex s"
      "bpc s1 = bpc s" "cpc s1 = cpc s" "live s1 = live s"
    and p: "(cpc s i, pc) \<in> {(C_lock, C_accept), (C_unlock, C_items), (C_items, C_wait), (C_return, C_gone)}"
  shows "shop_ok a (goto_c i pc s1)"
proof -
  note d = shop_okD[OF I]
  let ?s = "goto_c i pc s1"
  have h: "held ?s x = held s x" for x using f by (simp add: held_def)
  have k: "known ?s x = known s x" for x by (simp add: known_def f)
  have v: "serving ?s x" if "serving s x" for x
    using that p by (auto simp: serving_def k f)
  have cf: "customer_at ?s j pc'" if "customer_at s j pc'" for j pc'
    using that by (rule customer_at_frame) (simp_all add: served_def h f)
  have "customer_at s i pc" using d(5)[OF i] p by auto
  show ?thesis
  proof (rule shop_okI)
    show "queue_ok ?s" using d(3) p by (auto simp: queue_ok_def k f)
    show "barber_at ?s r (bpc ?s r)" if "r < barbers (mon ?s)" for r
      using that d(4)[of r] by (simp add: f) (erule barber_at_frame, simp_all add: v f)
    show "customer_at ?s j (cpc ?s j)" if "j < length (customers (mon ?s))" for j
      using that d(5)[of j] cf \<open>customer_at s i pc\<close> f by (cases "j = i") simp_all
    have "(pc = C_insert) = (cpc s i = C_insert)" using p by auto
    then have "cntC (\<lambda>pc. pc = C_insert) ?s = cntC (\<lambda>pc. pc = C_insert) s"
      by (rule cntC_same[OF i _ f(5)]) (simp add: f)
    moreover have "cntB b_prep ?s = cntB b_prep s" by (rule cnt_cong) (simp_all add: f)
    ultimately show "monitor_matches a ?s" using d(2) by (simp add: monitor_matches_def f)
  qed (use c d(6,7) in \<open>simp_all add: customers_known_def blocks_ok_def f\<close>)
qed

lemma shop_ok_view:
  assumes I: "shop_ok a s" and f: "mon s' = mon s" "chairs_ring s' = chairs_ring s" "customer_mutex s' = customer_mutex s"
      "bpc s' = bpc s" "cpc s' = cpc s" "live s' = live s" "sem_mutex s' = sem_mutex s"
      "sem_slots s' = sem_slots s" "sem_items s' = sem_items s"
  shows "shop_ok a s'"
proof -
  note d = shop_okD[OF I]
  have n: "cntB P s' = cntB P s" "cntC Q s' = cntC Q s" for P Q by (simp_all add: cntB_def cntC_def f)
  have h: "held s' x = held s x" for x by (simp add: held_def f)
  have k: "known s' x = known s x" for x by (simp add: known_def f)
  have v: "serving s' x = serving s x" for x by (simp add: serving_def k f)
  show ?thesis
  proof (rule shop_okI)
    show "control_ok s'" using d(1) by (simp add: control_ok_def n f)
    show "monitor_matches a s'" using d(2) by (simp add: monitor_matches_def n f)
    show "queue_ok s'" using d(3) by (simp add: queue_ok_def k f)
    show "barber_at s' p (bpc s' p)" if "p < barbers (mon s')" for p
      using that d(4)[of p] by (simp add: f) (erule barber_at_frame, simp_all add: v f)
    show "customer_at s' i (cpc s' i)" if "i < length (customers (mon s'))" for i
      using that d(5)[of i] by (simp add: f) (erule customer_at_frame, simp_all add: served_def h f)
  qed (use d(6,7) in \<open>simp_all add: customers_known_def blocks_ok_def f\<close>)
qed

lemma shop_ok_stop: "shop_ok a s \<Longrightarrow> shop_ok a (s\<lparr>halted := x\<rparr>)"
  by (erule shop_ok_view) simp_all

section \<open>The barber takes a customer from the waiting room\<close>

lemma ring_rear_take: "ring_take q = Inr (x, q') \<Longrightarrow> rear q' = rear q"
  by (auto simp: ring_take_def split: sum.splits option.splits)

lemma ring_rear_put: "ring_put x q = Inr q' \<Longrightarrow> rear q' = Suc (rear q)"
  by (auto simp: ring_put_def split: sum.splits)

lemma take_step:
  assumes I: "shop_ok a s" and r: "r < barbers (mon s)" and pc: "bpc s r = B_take"
  shows "\<exists>c q. ring_take (chairs_ring s) = Inr (c, q)
    \<and> shop_ok a (goto_b r (B_prepare c) (s\<lparr>chairs_ring := q\<rparr>))"
proof -
  note d = shop_okD[OF I] and k = control_okD[OF shop_okD(1)[OF I]]
  have "0 < cntB b_called s" using r pc by (intro cntB_pos) auto
  then obtain c cs where cs: "queue s = c # cs" using k(3) by (cases "queue s") auto
  from ring_take_ok[OF k(4) this] obtain q where
    q: "ring_take (chairs_ring s) = Inr (c, q)" "ring_ok 0 q" "contents q = cs" "rmax q = rmax (chairs_ring s)"
    by blast
  let ?s1 = "s\<lparr>chairs_ring := q\<rparr>"
  let ?s = "goto_b r (B_prepare c) ?s1"
  have sole: "p < barbers (mon s) \<Longrightarrow> p \<noteq> r \<Longrightarrow> \<not> b_holds (bpc s p)"
    "i < length (customers (mon s)) \<Longrightarrow> \<not> c_holds (cpc s i)" for p i
    using sole_barber(1)[OF d(1) r, of p] sole_barber(2)[OF d(1) r, of i] pc by auto
  have c: "control_ok ?s"
    using d(1) r pc q cs by (intro control_b[OF d(1) r]) (auto simp: ring_rear_take[OF q(1)])
  have ko: "known ?s x = known s x" for x by (simp add: known_def)
  have qs: "distinct (c # cs)" "\<forall>x \<in> set (c # cs). known s x \<and> cpc s (cid x) \<in> {C_unlock, C_items, C_wait}
      \<and> status_of s (cid x) = CUSTOMER_WAITING \<and> customer_mutex s (cid x) = 0"
    using d(3) unfolding queue_ok_def cs by blast+
  have sv: "serving ?s x" if "serving s x" for x
    using that by (simp add: serving_def ko q(3) cs)
  have h: "held ?s x" if "held s x" for x
  proof -
    from that obtain p where p: "p < barbers (mon s)" "barber_customer (bpc s p) = Some x"
      by (auto simp: held_def)
    with pc have "p \<noteq> r" by auto
    with p show ?thesis by (auto simp: held_def intro!: exI[of _ p])
  qed
  have "held ?s c" using r by (auto simp: held_def)
  then have hs: "served ?s i" if "served s i" for i
    using that h unfolding served_def cs by (auto simp: q(3))
  have "shop_ok a ?s"
  proof (rule shop_okI)
    show "queue_ok ?s" using qs by (auto simp: queue_ok_def ko q(3))
    show "barber_at ?s p (bpc ?s p)" if "p < barbers (mon ?s)" for p
    proof (cases "p = r")
      case True
      have "\<not> c_holds (cpc s (cid c))" using qs(2) sole(2)[of "cid c"] by (simp add: known_def)
      then have "cpc s (cid c) \<in> {C_items, C_wait}" using qs(2) by auto
      then show ?thesis using True qs d(4)[OF r] pc by (simp add: serving_def ko q(3))
    next
      case False
      then show ?thesis using that d(4)[of p] by simp (erule barber_at_frame, simp_all add: sv)
    qed
    show "customer_at ?s i (cpc ?s i)" if "i < length (customers (mon ?s))" for i
      using that d(5)[of i] by simp (erule customer_at_frame, simp_all add: hs)
    have "cntB b_prep ?s = cntB b_prep s + 1"
      using cntB_goto_b[of r ?s1 b_prep "B_prepare c"] r pc cnt_cong(1)[of ?s1 s b_prep] by simp
    moreover have "cntC (\<lambda>pc. pc = C_insert) ?s = cntC (\<lambda>pc. pc = C_insert) s" by (rule cnt_cong) simp_all
    ultimately show "monitor_matches a ?s" using d(2) by (simp add: monitor_matches_def q(3,4) cs)
  qed (use c d(6,7) in \<open>simp_all add: customers_known_def blocks_ok_def\<close>)
  then show ?thesis using q(1) by blast
qed

section \<open>The steps that change a customer's status\<close>

text \<open>A barber's move from \<open>old\<close> to \<open>new\<close> with his customer \<open>c\<close>, in which the monitor gives the
  customer a new status.\<close>

lemma status_step:
  assumes I: "shop_ok a s" and r: "r < barbers (mon s)" and c: "barber_customer (bpc s r) = Some c"
    and pc: "barber_customer pc = Some c" "b_slot pc" "b_holds pc" "\<not> b_called pc" "b_slot (bpc s r)"
    and m: "same_shop (mon s) m" "rate m = rate (mon s)" "monitor_ok m"
      "\<forall>k. k \<noteq> Cut_fast \<and> k \<noteq> Cut_slow \<longrightarrow> complaints m k = complaints (mon s) k"
      "statuses m = (statuses (mon s))[cid c := st]" "occupancy m = (occupancy (mon s))[r := occ]"
      "num_waiting m + of_bool (b_prep (bpc s r)) = num_waiting (mon s) + of_bool (b_prep pc)"
    and b: "serving s c \<Longrightarrow> statuses m ! cid c = st \<Longrightarrow> occupancy m ! r = occ \<Longrightarrow>
      barber_at (goto_b r pc (s\<lparr>mon := m\<rparr>)) r pc"
  shows "shop_ok a (goto_b r pc (s\<lparr>mon := m\<rparr>))"
proof -
  note d = shop_okD[OF I]
  let ?s1 = "s\<lparr>mon := m\<rparr>"
  let ?s = "goto_b r pc ?s1"
  have mm: "monitor_ok (mon s)" using d(2) by (simp add: monitor_matches_def)
  note md = monitor_okD[OF mm]
  have f: "barbers m = barbers (mon s)" "customers m = customers (mon s)" "visitors m = visitors (mon s)"
    "chairs m = chairs (mon s)" using m(1) by (simp_all add: same_shop_def)
  have bh: "b_holds (bpc s r)" using barber_customer_holds[OF c] .
  note sole = sole_barber[OF d(1) r bh]
  have sv: "serving s c" using d(4)[OF r] c by (cases "bpc s r") auto
  then have cc: "cid c < length (customers (mon s))" "cid c < length (statuses (mon s))" "c \<notin> set (queue s)"
    "customers (mon s) ! cid c = c" "cpc s (cid c) \<in> {C_items, C_wait}"
    using md(3) by (auto simp: serving_def known_def)
  have st: "statuses m ! i = (if i = cid c then st else statuses (mon s) ! i)" if "i < length (statuses (mon s))" for i
    using that by (simp add: m(5) nth_list_update)
  have oc: "occupancy m ! p = (if p = r then occ else occupancy (mon s) ! p)" if "p < barbers (mon s)" for p
    using that md(4) by (simp add: m(6) nth_list_update)
  have h: "held ?s x = held s x" for x
    by (rule held_same) (use c pc(1) f in simp_all)
  have k: "known ?s x = known s x" for x by (simp add: known_def f)
  have v: "serving ?s x = serving s x" for x by (simp add: serving_def k)
  have ctl: "control_ok ?s"
    using d(1) pc bh r c f control_okD(4)[OF d(1)]
    by (intro control_b[OF d(1) r]) (cases "bpc s r"; auto)+
  show ?thesis
  proof (rule shop_okI)
    show "queue_ok ?s"
      unfolding queue_ok_def goto_b_simps
    proof (intro conjI ballI)
      fix x assume "x \<in> set (contents (chairs_ring ?s1))"
      then have x: "x \<in> set (queue s)" by simp
      then have kx: "known s x" "statuses (mon s) ! cid x = CUSTOMER_WAITING" "cpc s (cid x) \<in> {C_unlock, C_items, C_wait}"
        "customer_mutex s (cid x) = 0"
        using d(3) by (auto simp: queue_ok_def)
      then have "cid x \<noteq> cid c" using cc x by (auto simp: known_def)
      with kx st[of "cid x"] md(3) show "known ?s x" "cpc ?s1 (cid x) \<in> {C_unlock, C_items, C_wait}"
        "statuses (mon ?s1) ! cid x = CUSTOMER_WAITING" "customer_mutex ?s1 (cid x) = 0"
        by (auto simp: k known_def f)
    qed (use d(3) in \<open>simp add: queue_ok_def\<close>)
    show "barber_at ?s p (bpc ?s p)" if p: "p < barbers (mon ?s)" for p
    proof (cases "p = r")
      case True
      then show ?thesis using b[OF sv] st[of "cid c"] oc[OF r] cc(2) by simp
    next
      case False
      have "barber_customer (bpc s p) = None"
        using sole(1)[of p] p f False barber_customer_holds[of "bpc s p"]
        by (cases "barber_customer (bpc s p)") auto
      then show ?thesis using d(4)[of p] p False f oc[of p] by simp (erule barber_at_frame, simp_all)
    qed
    show "customer_at ?s i (cpc ?s i)" if i: "i < length (customers (mon ?s))" for i
    proof (cases "i = cid c")
      case True
      have "held s c" using r c by (auto simp: held_def)
      then show ?thesis using True cc h by (auto simp: served_def f)
    next
      case False
      have il: "i < length (customers (mon s))" using i f by simp
      from d(5)[OF il] show ?thesis
        using False st[of i] il md(3) f h
        by simp (erule customer_at_frame, auto simp: served_def)
    qed
    have "cntB b_prep ?s + of_bool (b_prep (bpc s r)) = cntB b_prep s + of_bool (b_prep pc)"
      using cntB_goto_b[of r ?s1 b_prep pc] r f cnt_cong(1)[of ?s1 s b_prep] by simp
    moreover have "cntC (\<lambda>pc. pc = C_insert) ?s = cntC (\<lambda>pc. pc = C_insert) s" by (rule cnt_cong) (simp_all add: f)
    ultimately show "monitor_matches a ?s" using d(2) m f by (auto simp: monitor_matches_def)
  qed (use ctl d(6,7) f in \<open>simp_all add: customers_known_def blocks_ok_def\<close>)
qed

section \<open>The other barber steps\<close>

lemma unblock_step:
  assumes I: "shop_ok a s" and r: "r < barbers (mon s)" and pc: "bpc s r = B_unblock c"
  shows "customer_mutex s (cid c) = 0"
    "shop_ok a (goto_b r B_unlock (s\<lparr>customer_mutex := (customer_mutex s)(cid c := 1)\<rparr>))"
proof -
  note d = shop_okD[OF I]
  let ?s1 = "s\<lparr>customer_mutex := (customer_mutex s)(cid c := 1)\<rparr>"
  let ?s = "goto_b r B_unlock ?s1"
  note sole = sole_barber[OF d(1) r]
  have sv: "serving s c" "status_of s (cid c) = CUSTOMER_DONE" using d(4)[OF r] pc by simp_all
  then show "customer_mutex s (cid c) = 0" by (simp add: serving_def)
  have cc: "cid c < length (customers (mon s))" "c \<notin> set (queue s)"
    "customers (mon s) ! cid c = c" "cpc s (cid c) \<in> {C_items, C_wait}"
    using sv by (auto simp: serving_def known_def)
  have k: "known ?s x = known s x" for x by (simp add: known_def)
  have h: "held ?s x" if x: "held s x" "x \<noteq> c" for x
  proof -
    from x(1) obtain p where "p < barbers (mon s)" "barber_customer (bpc s p) = Some x"
      by (auto simp: held_def)
    moreover have "p \<noteq> r" using x(2) calculation pc by auto
    ultimately show ?thesis by (auto simp: held_def intro!: exI[of _ p])
  qed
  have ctl: "control_ok ?s"
    using d(1) pc r control_okD(4)[OF d(1)] by (intro control_b[OF d(1) r]) auto
  show "shop_ok a ?s"
  proof (rule shop_okI)
    show "queue_ok ?s"
      unfolding queue_ok_def goto_b_simps
    proof (intro conjI ballI)
      fix x assume "x \<in> set (contents (chairs_ring ?s1))"
      then have x: "x \<in> set (queue s)" by simp
      then have kx: "known s x" "status_of s (cid x) = CUSTOMER_WAITING" "cpc s (cid x) \<in> {C_unlock, C_items, C_wait}"
        "customer_mutex s (cid x) = 0"
        using d(3) by (auto simp: queue_ok_def)
      then have "cid x \<noteq> cid c" using cc x by (auto simp: known_def)
      with kx show "known ?s x" "cpc ?s1 (cid x) \<in> {C_unlock, C_items, C_wait}"
        "status_of ?s1 (cid x) = CUSTOMER_WAITING" "customer_mutex ?s1 (cid x) = 0"
        by (simp_all add: known_def)
    qed (use d(3) in \<open>simp add: queue_ok_def\<close>)
    show "barber_at ?s p (bpc ?s p)" if p: "p < barbers (mon ?s)" for p
    proof (cases "p = r")
      case False
      have "barber_customer (bpc s p) = None"
        using sole(1)[of p] pc p False barber_customer_holds[of "bpc s p"]
        by (cases "barber_customer (bpc s p)") auto
      then show ?thesis using d(4)[of p] p False by simp (erule barber_at_frame, simp_all)
    qed (use d(4)[OF r] pc in simp)
    show "customer_at ?s i (cpc ?s i)" if i: "i < length (customers (mon ?s))" for i
    proof (cases "i = cid c")
      case True
      then show ?thesis using cc sv by (auto simp: served_def)
    next
      case False
      have "i < length (customers (mon s))" using i by simp
      moreover have "customers (mon s) ! i \<noteq> c"
        using False d(6) calculation by (auto simp: customers_known_def)
      ultimately show ?thesis
        using False d(5)[of i] h
        by simp (erule customer_at_frame, auto simp: served_def)
    qed
    have "cntB b_prep ?s = cntB b_prep s"
      using cntB_same[OF r, of b_prep B_unlock ?s1] pc by simp
    moreover have "cntC (\<lambda>pc. pc = C_insert) ?s = cntC (\<lambda>pc. pc = C_insert) s" by (rule cnt_cong) simp_all
    ultimately show "monitor_matches a ?s" using d(2) by (simp add: monitor_matches_def)
  qed (use ctl d(6,7) in \<open>simp_all add: customers_known_def blocks_ok_def\<close>)
qed

lemma cut_ms_bounds:
  assumes "hair_ok c" shows "130 \<le> cut_ms c \<and> cut_ms c \<le> 745"
proof -
  have b: "100 \<le> hair_length c" "hair_length c \<le> 199" "50 \<le> hair_goal c" "hair_goal c \<le> 74"
    using assms by (simp_all add: hair_ok_def)
  then have u: "uint_sub (hair_length c) (hair_goal c) = hair_length c - hair_goal c"
    by (simp add: uint_sub_def mod_if)
  define n where "n = 5 * (hair_length c - hair_goal c)"
  have n: "130 \<le> n" "n \<le> 745" using b by (simp_all add: n_def)
  have "sint (of_nat n :: u32) = int n"
    using n by (simp add: sint_uint uint_nat unat_of_nat_u32 signed_take_bit_int_eq_self)
  then show ?thesis using n by (simp add: cut_ms_def u n_def[symmetric])
qed

end
