(* ===== verification/Thr_Shop_Safe.thy ===== *)
theory Thr_Shop_Safe
  imports Thr_Shop_Steps
begin

text \<open>
  Every step of every thread keeps the invariant, and no step fails except a customer's attempt to
  find a free chair: no assertion of the monitor, no semaphore and no counter is at fault.
\<close>

section \<open>Barbers\<close>

lemma sem_bounds:
  assumes "control_ok s"
  shows "sem_slots s \<le> 1000" "sem_items s \<le> 1000" "sem_mutex s \<le> 1"
  using control_okD(1-3,7)[OF assms] by linarith+

lemma monitor_bounds:
  assumes "shop_ok a s"
  shows "monitor_ok (mon s)" "length (statuses (mon s)) = length (customers (mon s))"
    "length (customers (mon s)) \<le> visitors (mon s)" "visitors (mon s) \<le> 1000"
  using shop_okD(2)[OF assms] monitor_okD[of "mon s"]
  by (auto simp: monitor_matches_def arguments_ok_def)

lemma prepare_step:
  assumes I: "shop_ok a s" and r: "r < barbers (mon s)" and pc: "bpc s r = B_prepare c"
  shows "\<exists>m. thrlab_prepare_customer c r False now at (mon s) = Inr m
    \<and> shop_ok a (goto_b r (B_cut c) (s\<lparr>mon := m\<rparr>))"
proof -
  note d = shop_okD[OF I] and md = monitor_bounds[OF I]
  have b: "serving s c" "status_of s (cid c) = CUSTOMER_WAITING" "occupancy (mon s) ! r = None"
    using d(4)[OF r] pc by simp_all
  have k: "cid c < length (statuses (mon s))" "cid c < visitors (mon s)"
    using b(1) md by (auto simp: serving_def known_def)
  from prepare_orderly[OF k(2,1) b(2) r b(3)] obtain m where
    m: "thrlab_prepare_customer c r False now at (mon s) = Inr m" "same_shop (mon s) m" "rate m = rate (mon s)"
      "complaints m = complaints (mon s)" "statuses m = (statuses (mon s))[cid c := CUSTOMER_CUTTING]"
      "occupancy m = (occupancy (mon s))[r := Some (cid c)]" "num_waiting m = size_decr (num_waiting (mon s))"
    by blast
  have "num_waiting m = num_waiting (mon s) - 1 \<and> 0 < num_waiting (mon s)"
    using monitor_numbers(2)[OF md(1) k(1) b(2)] m(7) by simp
  moreover have "barber_at (goto_b r (B_cut c) (s\<lparr>mon := m\<rparr>)) r (B_cut c)"
    if "serving s c" "statuses m ! cid c = CUSTOMER_CUTTING" "occupancy m ! r = Some (cid c)"
    using that m(2) by (simp add: serving_def known_def same_shop_def)
  ultimately have "shop_ok a (goto_b r (B_cut c) (s\<lparr>mon := m\<rparr>))"
    using pc m prepare_ok[OF md(1) m(1)]
    by (intro status_step[OF I r, of c _ _ CUSTOMER_CUTTING "Some (cid c)"]) simp_all
  with m(1) show ?thesis by blast
qed

lemma dismiss_step:
  assumes I: "shop_ok a s" and r: "r < barbers (mon s)" and pc: "bpc s r = B_dismiss c"
  shows "\<exists>m. thrlab_dismiss_customer c r False now at (mon s) = Inr m
    \<and> shop_ok a (goto_b r (B_unblock c) (s\<lparr>mon := m\<rparr>))"
proof -
  note d = shop_okD[OF I] and md = monitor_bounds[OF I]
  have b: "serving s c" "status_of s (cid c) = CUSTOMER_CUTTING" "occupancy (mon s) ! r = Some (cid c)"
    using d(4)[OF r] pc by simp_all
  have k: "cid c < length (statuses (mon s))" "cid c < visitors (mon s)"
    using b(1) md by (auto simp: serving_def known_def)
  from dismiss_orderly[OF k(2,1) b(2) r b(3)] obtain m where
    m: "thrlab_dismiss_customer c r False now at (mon s) = Inr m" "same_shop (mon s) m" "rate m = rate (mon s)"
      "\<forall>k. k \<noteq> Cut_fast \<and> k \<noteq> Cut_slow \<longrightarrow> complaints m k = complaints (mon s) k"
      "statuses m = (statuses (mon s))[cid c := CUSTOMER_DONE]"
      "occupancy m = (occupancy (mon s))[r := None]" "num_waiting m = num_waiting (mon s)"
    by blast
  have "barber_at (goto_b r (B_unblock c) (s\<lparr>mon := m\<rparr>)) r (B_unblock c)"
    if "serving s c" "statuses m ! cid c = CUSTOMER_DONE" "occupancy m ! r = None"
    using that m(2) by (simp add: serving_def known_def same_shop_def)
  then have "shop_ok a (goto_b r (B_unblock c) (s\<lparr>mon := m\<rparr>))"
    using pc m dismiss_ok[OF md(1) m(1)]
    by (intro status_step[OF I r, of c _ _ CUSTOMER_DONE None]) simp_all
  with m(1) show ?thesis by blast
qed

lemma Sem_post_ok: "v \<le> 1000 \<Longrightarrow> Sem_post v = Inr (Suc v)"
  by (simp add: Sem_post_def SEM_VALUE_MAX_def)

lemma Sem_wait_Some: "Sem_wait v = Some v' \<longleftrightarrow> v = Suc v'"
  by (auto simp: Sem_wait_def)

text \<open>A barber's step succeeds or blocks; it does not stop the program.\<close>

lemma barber_keeps:
  assumes I: "shop_ok a s" and r: "r < barbers (mon s)" and st: "barber_work e r s = Some s'"
  shows "shop_ok a s' \<and> halted s' = halted s"
proof -
  note d = shop_okD[OF I] and sb = sem_bounds[OF shop_okD(1)[OF I]] and q = control_okD(4)[OF shop_okD(1)[OF I]]
  show ?thesis
  proof (cases "bpc s r")
    case B_items
    from st obtain v where v: "sem_items s = Suc v" "s' = goto_b r B_lock (s\<lparr>sem_items := v\<rparr>)"
      unfolding barber_work_def B_items by (auto simp: Sem_wait_Some)
    then show ?thesis using B_items q
      by (auto intro!: quiet_b[OF I r] control_b[OF d(1) r])
  next
    case B_lock
    from st obtain v where v: "sem_mutex s = Suc v" "s' = goto_b r B_take (s\<lparr>sem_mutex := v\<rparr>)"
      unfolding barber_work_def B_lock by (auto simp: wait_mutex_def Sem_wait_Some)
    then show ?thesis using B_lock q
      by (auto intro!: quiet_b[OF I r] control_b[OF d(1) r])
  next
    case B_take
    then show ?thesis using st take_step[OF I r B_take] by (auto simp: barber_work_def)
  next
    case (B_prepare c)
    then show ?thesis using st prepare_step[OF I r B_prepare, of "env_now e" "env_at e"]
      by (auto simp: barber_work_def with_mon_def)
  next
    case (B_cut c)
    have "hair_ok c" using d(4)[OF r] d(6) B_cut by (auto simp: serving_def known_def customers_known_def)
    then obtain t where "thrlab_sleep (env_naps e) (cut_ms c) = Inr t"
      using cut_ms_bounds[of c] by (simp add: thrlab_sleep_def)
    then have "s' = goto_b r (B_dismiss c) s" using st B_cut by (auto simp: barber_work_def)
    then show ?thesis using B_cut q
      by (auto intro!: quiet_b[OF I r] control_b[OF d(1) r])
  next
    case (B_dismiss c)
    then show ?thesis using st dismiss_step[OF I r B_dismiss, of "env_now e" "env_at e"]
      by (auto simp: barber_work_def with_mon_def)
  next
    case (B_unblock c)
    then show ?thesis using st unblock_step[OF I r B_unblock] Sem_post_ok[of 0] by (auto simp: barber_work_def)
  next
    case B_unlock
    have "s' = goto_b r B_slots (s\<lparr>sem_mutex := Suc (sem_mutex s)\<rparr>)"
      using st B_unlock Sem_post_ok[of "sem_mutex s"] sb by (auto simp: barber_work_def post_mutex_def)
    then show ?thesis using B_unlock q
      by (auto intro!: quiet_b[OF I r] control_b[OF d(1) r])
  next
    case B_slots
    have "s' = goto_b r B_items (s\<lparr>sem_slots := Suc (sem_slots s)\<rparr>)"
      using st B_slots Sem_post_ok[of "sem_slots s"] sb by (auto simp: barber_work_def)
    then show ?thesis using B_slots q
      by (auto intro!: quiet_b[OF I r] control_b[OF d(1) r])
  qed
qed

section \<open>Customers\<close>

lemma accept_step:
  assumes I: "shop_ok a s" and i: "i < length (customers (mon s))" and pc: "cpc s i = C_accept"
  shows "\<exists>m. thrlab_accept_customer (customers (mon s) ! i) now (mon s) = Inr m
    \<and> shop_ok a (goto_c i C_insert (s\<lparr>mon := m\<rparr>))"
proof -
  note d = shop_okD[OF I] and md = monitor_bounds[OF I] and k = control_okD[OF shop_okD(1)[OF I]]
  let ?c = "customers (mon s) ! i"
  have ci: "cid ?c = i" using d(6) i by (simp add: customers_known_def)
  have b: "status_of s i = CUSTOMER_PENDING" using d(5)[OF i] pc by simp
  have il: "i < length (statuses (mon s))" "i < visitors (mon s)" using i md by auto
  note sole = sole_customer[OF d(1) i]
  have "num_waiting (mon s) < chairs (mon s)"
  proof -
    have "0 < cntC c_slot s" using i pc by (intro cntC_pos) auto
    moreover have "cntB b_prep s = 0"
      using sole(1) pc b_prep_holds by (auto simp: cntB_def cnt_zero)
    moreover have "cntC (\<lambda>pc. pc = C_insert) s = 0"
    proof -
      have "cpc s j \<noteq> C_insert" if "j < length (customers (mon s))" for j
        using sole(2)[of j] that pc by (cases "j = i") auto
      then show ?thesis by (simp add: cntC_def cnt_zero)
    qed
    ultimately show ?thesis using k(2) d(2) by (simp add: monitor_matches_def)
  qed
  then obtain m where
    m: "thrlab_accept_customer ?c now (mon s) = Inr m" "same_shop (mon s) m" "rate m = rate (mon s)"
      "complaints m = complaints (mon s)" "statuses m = (statuses (mon s))[i := CUSTOMER_WAITING]"
      "occupancy m = occupancy (mon s)" "num_waiting m = size_incr (num_waiting (mon s))"
    using accept_orderly[of ?c "mon s" now] il b ci by auto
  have f: "barbers m = barbers (mon s)" "customers m = customers (mon s)" "visitors m = visitors (mon s)"
    "chairs m = chairs (mon s)" using m(2) by (simp_all add: same_shop_def)
  have nw: "num_waiting m = Suc (num_waiting (mon s))" using monitor_numbers(5)[OF md(1) il(1)] m(7) by simp
  let ?s1 = "s\<lparr>mon := m\<rparr>"
  let ?s = "goto_c i C_insert ?s1"
  have st: "statuses m ! j = (if j = i then CUSTOMER_WAITING else status_of s j)" if "j < length (statuses (mon s))" for j
    using that by (simp add: m(5) nth_list_update)
  have kn: "known ?s x = known s x" for x by (simp add: known_def f)
  have h: "held ?s x = held s x" for x by (simp add: held_def f)
  have ctl: "control_ok ?s" using f i pc k(4) by (intro control_c[OF d(1) i]) auto
  have v: "serving ?s x \<and> statuses m ! cid x = status_of s (cid x)" if "serving s x" for x
    using that pc st[of "cid x"] md(2) by (auto simp: serving_def known_def f)
  have "shop_ok a ?s"
  proof (rule shop_okI)
    have "known s x \<Longrightarrow> cpc s (cid x) \<in> {C_unlock, C_items, C_wait} \<Longrightarrow> cid x \<noteq> i
        \<and> statuses m ! cid x = status_of s (cid x)" for x
      using pc st[of "cid x"] md(2) by (auto simp: known_def)
    then show "queue_ok ?s" using d(3) by (simp add: queue_ok_def kn)
    show "barber_at ?s r (bpc ?s r)" if "r < barbers (mon ?s)" for r
      using that d(4)[of r] by (simp add: f) (erule barber_at_frame, simp_all add: v m(6))
    show "customer_at ?s j (cpc ?s j)" if j: "j < length (customers (mon ?s))" for j
    proof (cases "j = i")
      case True
      then show ?thesis using d(5)[OF i] pc st[of i] il by simp
    next
      case False
      have jl: "j < length (customers (mon s))" using j f by simp
      from d(5)[OF jl] show ?thesis
        using False st[of j] jl md(2) f h by simp (erule customer_at_frame, auto simp: served_def)
    qed
    have "cntC (\<lambda>pc. pc = C_insert) ?s = cntC (\<lambda>pc. pc = C_insert) s + 1"
      using cntC_goto_c[of i ?s1 "\<lambda>pc. pc = C_insert" C_insert] i pc f
        cnt_cong(2)[of ?s1 s "\<lambda>pc. pc = C_insert"] by simp
    moreover have "cntB b_prep ?s = cntB b_prep s" by (rule cnt_cong) (simp_all add: f)
    ultimately show "monitor_matches a ?s"
      using d(2) m f nw accept_ok[OF md(1) m(1)] by (simp add: monitor_matches_def)
  qed (use ctl d(6,7) f in \<open>simp_all add: customers_known_def blocks_ok_def\<close>)
  with m(1) show ?thesis by blast
qed

lemma insert_step:
  assumes I: "shop_ok a s" and i: "i < length (customers (mon s))" and pc: "cpc s i = C_insert"
  shows "\<exists>q. ring_put (customers (mon s) ! i) (chairs_ring s) = Inr q
    \<and> shop_ok a (goto_c i C_unlock (s\<lparr>chairs_ring := q\<rparr>))"
proof -
  note d = shop_okD[OF I] and md = monitor_bounds[OF I] and k = control_okD[OF shop_okD(1)[OF I]]
  let ?c = "customers (mon s) ! i"
  have ci: "cid ?c = i" using d(6) i by (simp add: customers_known_def)
  note sole = sole_customer[OF d(1) i]
  have b: "status_of s i = CUSTOMER_WAITING" "customer_mutex s i = 0" using d(5)[OF i] pc by simp_all
  have "0 < cntC c_slot s" using i pc by (intro cntC_pos) auto
  then have room: "length (queue s) < rmax (chairs_ring s)" using k(2) by linarith
  have "rear (chairs_ring s) \<le> 1000" using k(5,8) cnt_le[of c_past "cpc s"] unfolding cntC_def by (metis order.trans)
  then have "ring_ok (Suc 0) (chairs_ring s)" using k(4) by (simp add: ring_ok_def)
  from ring_put_ok[OF this room, of ?c] obtain q where
    q: "ring_put ?c (chairs_ring s) = Inr q" "ring_ok 0 q" "contents q = queue s @ [?c]" "rmax q = rmax (chairs_ring s)"
    by blast
  let ?s1 = "s\<lparr>chairs_ring := q\<rparr>"
  let ?s = "goto_c i C_unlock ?s1"
  have kn: "known ?s x = known s x" for x by (simp add: known_def)
  have h: "held ?s x = held s x" for x by (simp add: held_def)
  have nq: "?c \<notin> set (queue s)" using d(3) ci pc by (auto simp: queue_ok_def)
  have ctl: "control_ok ?s"
    using i pc q by (intro control_c[OF d(1) i]) (auto simp: ring_rear_put[OF q(1)])
  have "shop_ok a ?s"
  proof (rule shop_okI)
    have "known ?s x \<and> cpc ?s (cid x) \<in> {C_unlock, C_items, C_wait}
        \<and> status_of ?s (cid x) = CUSTOMER_WAITING \<and> customer_mutex ?s (cid x) = 0"
      if "x \<in> set (queue s @ [?c])" for x
      using that d(3) b ci i by (auto simp: queue_ok_def kn known_def)
    moreover have "distinct (queue s @ [?c])" using d(3) nq by (simp add: queue_ok_def)
    ultimately show "queue_ok ?s" by (simp add: queue_ok_def q(3))
    have v: "serving ?s x" if "serving s x" for x
      using that pc ci by (auto simp: serving_def kn q(3))
    show "barber_at ?s r (bpc ?s r)" if "r < barbers (mon ?s)" for r
      using that d(4)[of r] by simp (erule barber_at_frame, simp_all add: v)
    show "customer_at ?s j (cpc ?s j)" if j: "j < length (customers (mon ?s))" for j
    proof (cases "j = i")
      case True
      then show ?thesis by (simp add: served_def q(3))
    next
      case False
      from j d(5)[of j] show ?thesis
        using False h by simp (erule customer_at_frame, auto simp: served_def q(3))
    qed
    have "cntC (\<lambda>pc. pc = C_insert) ?s + 1 = cntC (\<lambda>pc. pc = C_insert) s"
      using cntC_goto_c[of i ?s1 "\<lambda>pc. pc = C_insert" C_unlock] i pc
        cnt_cong(2)[of ?s1 s "\<lambda>pc. pc = C_insert"] by simp
    moreover have "cntB b_prep ?s = cntB b_prep s" by (rule cnt_cong) simp_all
    ultimately show "monitor_matches a ?s"
      using d(2) by (simp add: monitor_matches_def q(3,4))
  qed (use ctl d(6,7) in \<open>simp_all add: customers_known_def blocks_ok_def\<close>)
  with q(1) show ?thesis by blast
qed

text \<open>A customer's move that changes only their own semaphore.\<close>

lemma own_mutex_step:
  assumes I: "shop_ok a s" and i: "i < length (customers (mon s))" and c: "control_ok (goto_c i pc s1)"
    and f: "mon s1 = mon s" "chairs_ring s1 = chairs_ring s" "customer_mutex s1 = (customer_mutex s)(i := v)"
      "bpc s1 = bpc s" "cpc s1 = cpc s" "live s1 = live s"
    and p: "cpc s i = C_try \<and> pc \<in> {C_try, C_lock} \<and> v = 0 \<or> (cpc s i, pc) = (C_wait, C_return) \<and> customer_mutex s i \<noteq> 0"
  shows "shop_ok a (goto_c i pc s1)"
proof -
  note d = shop_okD[OF I]
  let ?s = "goto_c i pc s1"
  have h: "held ?s x = held s x" for x using f by (simp add: held_def)
  have k: "known ?s x = known s x" for x by (simp add: known_def f)
  have ci: "cid (customers (mon s) ! i) = i" using d(6) i by (simp add: customers_known_def)
  have nq: "cid x \<noteq> i" if "x \<in> set (queue s)" for x
    using that d(3) p by (auto simp: queue_ok_def)
  have ns: "cid x \<noteq> i" if "serving s x" for x
    using that p by (auto simp: serving_def)
  have v: "serving ?s x" if "serving s x" for x
    using that ns[OF that] by (simp add: serving_def k f)
  have "customer_at ?s i pc"
  proof (cases "cpc s i = C_try")
    case False
    with p have w: "cpc s i = C_wait" "pc = C_return" "customer_mutex s i \<noteq> 0" by auto
    have "held s (customers (mon s) ! i) \<Longrightarrow> serving s (customers (mon s) ! i)"
    proof -
      assume "held s (customers (mon s) ! i)"
      then obtain r where "r < barbers (mon s)" "barber_customer (bpc s r) = Some (customers (mon s) ! i)"
        by (auto simp: held_def)
      then show "serving s (customers (mon s) ! i)" using d(4)[of r] by (cases "bpc s r") auto
    qed
    then have "status_of s i = CUSTOMER_DONE"
      using d(5)[OF i] w ns nq ci by (auto simp: served_def)
    then show ?thesis using w f by simp
  qed (use p d(5)[OF i] f in auto)
  show ?thesis
  proof (rule shop_okI)
    show "queue_ok ?s" using d(3) nq by (auto simp: queue_ok_def k f)
    show "barber_at ?s r (bpc ?s r)" if "r < barbers (mon ?s)" for r
      using that d(4)[of r] by (simp add: f) (erule barber_at_frame, simp_all add: v f)
    show "customer_at ?s j (cpc ?s j)" if "j < length (customers (mon ?s))" for j
    proof (cases "j = i")
      case False
      with that d(5)[of j] show ?thesis by (simp add: f) (erule customer_at_frame, simp_all add: served_def h f)
    qed (use \<open>customer_at ?s i pc\<close> in simp)
    have "(pc = C_insert) = (cpc s i = C_insert)" using p by auto
    then have "cntC (\<lambda>pc. pc = C_insert) ?s = cntC (\<lambda>pc. pc = C_insert) s"
      by (rule cntC_same[OF i _ f(5)]) (simp add: f)
    moreover have "cntB b_prep ?s = cntB b_prep s" by (rule cnt_cong) (simp_all add: f)
    ultimately show "monitor_matches a ?s" using d(2) by (simp add: monitor_matches_def f)
  qed (use c d(6,7) in \<open>simp_all add: customers_known_def blocks_ok_def f\<close>)
qed

text \<open>A customer's step succeeds or blocks, or it ends the program: when the customer finds no free
  chair. A customer is never rejected.\<close>

lemma customer_keeps:
  assumes I: "shop_ok a s" and i: "i < length (customers (mon s))" and st: "customer_arrived e i s = Some s'"
  shows "shop_ok a s' \<and> (halted s' = halted s
    \<or> cpc s i = C_try \<and> sem_slots s = 0 \<and> halted s' = Some (Exits 1))"
proof -
  note d = shop_okD[OF I] and sb = sem_bounds[OF shop_okD(1)[OF I]] and q = control_okD(4)[OF shop_okD(1)[OF I]]
  show ?thesis
  proof (cases "cpc s i")
    case C_try
    let ?s1 = "s\<lparr>customer_mutex := (customer_mutex s)(i := 0)\<rparr>"
    show ?thesis
    proof (cases "sem_slots s = 0")
      case True
      have e: "goto_c i C_try ?s1 = ?s1" using C_try by (simp add: goto_c_def fun_upd_idem)
      have "control_ok (goto_c i C_try ?s1)" using C_try q by (intro control_c[OF d(1) i]) auto
      then have "shop_ok a (goto_c i C_try ?s1)"
        by (rule own_mutex_step[OF I i]) (use C_try in auto)
      then have "shop_ok a ?s1" by (simp only: e)
      then show ?thesis
        using st C_try True shop_ok_stop[of a ?s1 "Some (Exits 1)"]
        by (simp add: customer_arrived_def Sem_trywait_def sem_trywait_def unix_error_def stop_def) auto
    next
      case False
      have s': "s' = goto_c i C_lock (?s1\<lparr>sem_slots := sem_slots s - 1\<rparr>)"
        using st C_try False by (simp add: customer_arrived_def Sem_trywait_def sem_trywait_def)
      have "control_ok s'" unfolding s' using C_try q False by (intro control_c[OF d(1) i]) auto
      then have "shop_ok a s'" unfolding s' by (rule own_mutex_step[OF I i]) (use C_try in auto)
      then show ?thesis by (simp add: s')
    qed
  next
    case C_lock
    from st obtain v where v: "sem_mutex s = Suc v" "s' = goto_c i C_accept (s\<lparr>sem_mutex := v\<rparr>)"
      unfolding customer_arrived_def C_lock by (auto simp: wait_mutex_def Sem_wait_Some)
    then show ?thesis using C_lock q
      by (auto intro!: quiet_c[OF I i] control_c[OF d(1) i])
  next
    case C_accept
    then show ?thesis using st accept_step[OF I i C_accept, of "env_now e"]
      by (auto simp: customer_arrived_def with_mon_def)
  next
    case C_insert
    then show ?thesis using st insert_step[OF I i C_insert] by (auto simp: customer_arrived_def)
  next
    case C_unlock
    have "s' = goto_c i C_items (s\<lparr>sem_mutex := Suc (sem_mutex s)\<rparr>)"
      using st C_unlock Sem_post_ok[of "sem_mutex s"] sb by (auto simp: customer_arrived_def post_mutex_def)
    then show ?thesis using C_unlock q
      by (auto intro!: quiet_c[OF I i] control_c[OF d(1) i])
  next
    case C_items
    have "s' = goto_c i C_wait (s\<lparr>sem_items := Suc (sem_items s)\<rparr>)"
      using st C_items Sem_post_ok[of "sem_items s"] sb by (auto simp: customer_arrived_def)
    then show ?thesis using C_items q
      by (auto intro!: quiet_c[OF I i] control_c[OF d(1) i])
  next
    case C_wait
    from st obtain v where v: "customer_mutex s i = Suc v"
      "s' = goto_c i C_return (s\<lparr>customer_mutex := (customer_mutex s)(i := v)\<rparr>)"
      unfolding customer_arrived_def C_wait by (auto simp: Sem_wait_Some)
    have "control_ok s'" unfolding v using C_wait q by (intro control_c[OF d(1) i]) auto
    then have "shop_ok a s'" unfolding v by (rule own_mutex_step[OF I i]) (use C_wait v in auto)
    then show ?thesis by (simp add: v)
  next
    case C_reject
    then show ?thesis using d(5)[OF i] by simp
  next
    case C_return
    have "cid (customers (mon s) ! i) = i" using d(6) i by (simp add: customers_known_def)
    moreover have "i < length (statuses (mon s))" "i < visitors (mon s)" using monitor_bounds[OF I] i by auto
    ultimately have "callback_returned (customers (mon s) ! i) (mon s) = Inr (mon s)"
      using d(5)[OF i] C_return by (intro callback_orderly) auto
    then have s': "s' = goto_c i C_gone (s\<lparr>mon := mon s\<rparr>)"
      using st C_return by (simp add: customer_arrived_def with_mon_def)
    then show ?thesis using C_return q
      by (auto intro!: quiet_c[OF I i] control_c[OF d(1) i])
  next
    case C_gone
    then show ?thesis using st by (simp add: customer_arrived_def)
  qed
qed

section \<open>The main thread\<close>

lemma draw_customer_ok: "\<exists>name len goal. draw_customer rs = Inr (name, len, goal) \<and> len \<in> {100..199} \<and> goal \<in> {50..74}"
  using draws_in_range[of rs] by blast

end
