(* ===== verification/Thr_Shop_Main.thy ===== *)
theory Thr_Shop_Main
  imports Thr_Shop_Safe
begin

text \<open>The main thread's steps, and the invariant over all reachable states of the barbershop.\<close>

section \<open>A customer arrives\<close>

lemma arrives_orderly:
  assumes "length (customers m) < visitors m"
  shows "\<exists>c m'. customer_arrives name len goal now m = Inr (c, m') \<and> hair_length c = len \<and> hair_goal c = goal
    \<and> rate m' = rate m \<and> num_waiting m' = num_waiting m \<and> occupancy m' = occupancy m
    \<and> statuses m' = statuses m @ [CUSTOMER_PENDING]"
  using assms unfolding customer_arrives_def add_customer_def Let_def by (simp add: time_printf_def)

lemma sleep_until_customer_ok:
  assumes "1 \<le> rate m" "rate m \<le> 10000"
  shows "\<exists>t. sleep_until_customer rs naps m = Inr t \<and> (Slept \<in> set naps \<longrightarrow> t \<noteq> None)"
proof -
  have "0 < rate m * 2" "rate m * 2 < 2 ^ 31" using assms by simp_all
  from draw_below[OF this] obtain x where
    x: "my_arc4random_uniform rs (of_nat (rate m * 2)) = Inr x" "unat x < rate m * 2" by blast
  have "unat x < 2147483648" using x(2) assms by linarith
  then have "int (unat x) < 2147483648" by linarith
  then have u: "uint x < 2 ^ 31" by simp
  have "signed_take_bit 31 (uint x) = uint x"
    by (rule signed_take_bit_int_eq_self[OF _ u]) (rule order.trans[of _ 0], simp_all)
  moreover have "sint x = signed_take_bit 31 (uint x)" by (simp add: sint_uint)
  ultimately have "0 \<le> sint x" by simp
  then have "sleep_until_customer rs naps m = Inr (sleep_loop naps \<lparr>tv_sec = sint x div 1000, tv_nsec = sint x mod 1000 * 1000000\<rparr>)"
    unfolding sleep_until_customer_def x(1) sum.case thrlab_sleep_def by simp
  then show ?thesis using sleep_loop_at_least[of naps] by blast
qed

lemma control_grow:
  assumes I: "control_ok s" and c: "customers m = customers (mon s) @ [c]" "barbers m = barbers (mon s)"
    and l: "length (customers (mon s)) < 1000"
  shows "control_ok (goto_c (length (customers (mon s))) C_try (s\<lparr>mon := m, live := bs\<rparr>))"
proof -
  let ?s = "goto_c (length (customers (mon s))) C_try (s\<lparr>mon := m, live := bs\<rparr>)"
  have n: "cntB P ?s = cntB P s" "\<not> Q C_try \<Longrightarrow> cntC Q ?s = cntC Q s" for P Q
    by (simp_all add: cntB_def cntC_def c cnt_grow)
  show ?thesis using I l by (auto simp: control_ok_def n c less_Suc_eq)
qed

lemma arrival_step:
  assumes I: "shop_ok a s" and l: "length (customers (mon s)) < visitors (mon s)"
    and h: "len \<in> {100..199}" "goal \<in> {50..74}"
  shows "\<exists>c m. customer_arrives name len goal now (mon s) = Inr (c, m)
    \<and> cid c = length (customers (mon s)) \<and> customers m = customers (mon s) @ [c]
    \<and> visitors m = visitors (mon s) \<and> barbers m = barbers (mon s)
    \<and> shop_ok a (goto_c (cid c) C_try (s\<lparr>mon := m, live := insert (B_customer (cid c)) (live s)\<rparr>))"
proof -
  note d = shop_okD[OF I] and md = monitor_bounds[OF I]
  obtain c m where cm: "customer_arrives name len goal now (mon s) = Inr (c, m)" "hair_length c = len"
    "hair_goal c = goal" "rate m = rate (mon s)" "num_waiting m = num_waiting (mon s)"
    "occupancy m = occupancy (mon s)" "statuses m = statuses (mon s) @ [CUSTOMER_PENDING]"
    using arrives_orderly[OF l, of name len goal now] by blast
  note v = arrives_view[OF cm(1)]
  let ?n = "length (customers (mon s))"
  let ?s = "goto_c ?n C_try (s\<lparr>mon := m, live := insert (B_customer ?n) (live s)\<rparr>)"
  have st: "statuses m ! i = status_of s i" if "i < ?n" for i
    using that md(2) by (simp add: cm(7) nth_append)
  have cu: "customers m ! i = customers (mon s) ! i" if "i < ?n" for i
    using that by (simp add: v(3) nth_append)
  have k: "known ?s x" if "known s x" for x
    using that cu[of "cid x"] by (simp add: known_def v(3))
  have pc: "cpc ?s (cid x) = cpc s (cid x)" if "known s x" for x using that by (simp add: known_def)
  have sv: "serving ?s x" if "serving s x" for x
    using that k[of x] pc[of x] by (simp add: serving_def known_def)
  have hd: "held ?s x = held s x" for x by (simp add: held_def v(5))
  have "shop_ok a ?s"
  proof (rule shop_okI)
    show "control_ok ?s" by (rule control_grow[OF d(1) v(3,5)]) (use l md in simp)
    show "queue_ok ?s"
      unfolding queue_ok_def
    proof (intro conjI ballI)
      fix x assume "x \<in> set (queue ?s)"
      then have "known s x" "cpc s (cid x) \<in> {C_unlock, C_items, C_wait}" "status_of s (cid x) = CUSTOMER_WAITING"
        "customer_mutex s (cid x) = 0" using d(3) by (auto simp: queue_ok_def)
      then show "known ?s x" "cpc ?s (cid x) \<in> {C_unlock, C_items, C_wait}"
        "status_of ?s (cid x) = CUSTOMER_WAITING" "customer_mutex ?s (cid x) = 0"
        using k[of x] pc[of x] st[of "cid x"] by (auto simp: known_def)
    qed (use d(3) in \<open>simp add: queue_ok_def\<close>)
    show "barber_at ?s r (bpc ?s r)" if "r < barbers (mon ?s)" for r
      using that d(4)[of r] by (simp add: v(5))
        (erule barber_at_frame, use sv st in \<open>auto simp: cm(6) serving_def known_def\<close>)
    show "customer_at ?s i (cpc ?s i)" if i: "i < length (customers (mon ?s))" for i
    proof (cases "i = ?n")
      case True
      then show ?thesis using md(2) by (simp add: cm(7) nth_append)
    next
      case False
      then have il: "i < ?n" using i v(3) by simp
      from d(5)[OF il] show ?thesis
        using False st[OF il] cu[OF il] hd by simp (erule customer_at_frame, auto simp: served_def)
    qed
    have "cntB b_prep ?s = cntB b_prep s" "cntC (\<lambda>pc. pc = C_insert) ?s = cntC (\<lambda>pc. pc = C_insert) s"
      by (simp_all add: cntB_def cntC_def v(3,5) cnt_grow)
    then show "monitor_matches a ?s"
      using d(2) arrives_ok[OF md(1) cm(1)] v cm by (simp add: monitor_matches_def)
    show "customers_known ?s"
      using d(6) cu v(2,3) h cm(2,3) by (auto simp: customers_known_def hair_ok_def nth_append less_Suc_eq)
    show "blocks_ok ?s" using d(7) by (auto simp: blocks_ok_def v(3) lessThan_Suc)
  qed
  with cm(1) v show ?thesis by auto
qed

lemma wait_for_customer_keeps:
  assumes I: "shop_ok a s" and l: "length (customers (mon s)) < visitors (mon s)"
    and st: "wait_for_customer e s = Some s'"
  shows "shop_ok a s' \<and> (halted s' = halted s \<and> length (customers (mon s')) = Suc (length (customers (mon s)))
      \<and> sem_slots s' = sem_slots s \<and> cpc s' (length (customers (mon s))) = C_try
    \<or> env_fails e \<and> halted s' = Some (Exits 1))"
proof -
  have "rate (mon s) \<in> {1..10000}" using shop_okD(2)[OF I] by (simp add: monitor_matches_def arguments_ok_def)
  then obtain t where t: "sleep_until_customer (env_random e 0) (env_naps e) (mon s) = Inr t"
    using sleep_until_customer_ok[of "mon s"] by fastforce
  show ?thesis
  proof (cases "env_fails e")
    case True
    then show ?thesis using st t shop_ok_stop[OF I]
      by (auto simp: wait_for_customer_def stop_def split: option.splits)
  next
    case False
    obtain name len goal where dr: "draw_customer (\<lambda>k. env_random e (Suc k)) = Inr (name, len, goal)"
      "len \<in> {100..199}" "goal \<in> {50..74}" using draw_customer_ok by blast
    from arrival_step[OF I l dr(2,3), of name "env_now e"] st t dr(1) False show ?thesis
      by (auto simp: wait_for_customer_def split: option.splits)
  qed
qed

lemma wait_for_customer_cpc:
  assumes "wait_for_customer e s = Some s'" "halted s' = None"
  shows "cpc s' = (cpc s)(length (customers (mon s)) := C_try)"
proof -
  obtain name len goal where dr: "draw_customer (\<lambda>k. env_random e (Suc k)) = Inr (name, len, goal)"
    using draw_customer_ok by blast
  then show ?thesis using assms
    by (auto simp: wait_for_customer_def stop_def dest!: arrives_view(2) split: sum.splits option.splits if_splits)
qed

section \<open>The day ends\<close>

definition day_over :: "arguments \<Rightarrow> shop \<Rightarrow> bool" where
  "day_over a s \<longleftrightarrow> halted s = Some (Exits 0) \<and> live s = {} \<and> monitor_matches a s
     \<and> length (customers (mon s)) = arg_customers a
     \<and> (\<forall>i < arg_customers a. status_of s i = CUSTOMER_DONE)
     \<and> printed s = ''============================'' @ newline @ ''POSIX Barbershop closed! Good bye!'' @ newline
         @ check_complaints (mon s)"

lemma main_close_over:
  assumes I: "shop_ok a s" and l: "\<not> length (customers (mon s)) < visitors (mon s)" and st: "main_close s = Some s'"
  shows "day_over a s'"
proof -
  note d = shop_okD[OF I] and md = monitor_bounds[OF I]
  have g: "\<forall>i < length (customers (mon s)). cpc s i = C_gone"
    using st by (auto simp: main_close_def split: if_splits)
  have n: "length (customers (mon s)) = arg_customers a"
    using l md d(2) by (simp add: monitor_matches_def)
  have "status_of s i = CUSTOMER_DONE" if "i < arg_customers a" for i
    using d(5)[of i] g that n by simp
  moreover have "s' = s\<lparr>printed := ''============================'' @ newline @ ''POSIX Barbershop closed! Good bye!'' @ newline
         @ check_complaints (mon s), live := {}, halted := Some (Exits 0)\<rparr>"
    using st unfolding main_close_def if_P[OF g] d(7)[unfolded blocks_ok_def] cleanup_frees stop_def
    by simp
  ultimately show ?thesis
    using d(2) n by (simp add: day_over_def monitor_matches_def cntB_def cntC_def)
qed

section \<open>Reachable states\<close>

lemma start_barbers_ok: "bpc s = (\<lambda>_. B_items) \<Longrightarrow> start_barbers (\<lambda>_. 0) rs s = Inr s"
proof (induction rs)
  case (Cons r rs)
  have "s\<lparr>bpc := (bpc s)(r := B_items)\<rparr> = s" using Cons.prems by (simp add: fun_upd_idem)
  then show ?case using Cons by (simp add: Pthread_create_def Pthread_detach_def)
qed simp

lemma opened_ok:
  assumes a: "argparse opts = Inr a" and t: "thrlab_setup opts (\<lambda>_. False) now = Inr st"
    and s: "shop_setup (\<lambda>_. 0) st = Inr s"
  shows "shop_ok a s \<and> halted s = None"
proof -
  have ok: "arguments_ok a" using argparse_outcome[of opts] a by simp
  have st: "st = (open_monitor a now, monitor_blocks)"
    using t setup_cases[OF a, of "\<lambda>_. False" now] by simp
  let ?m = "open_monitor a now"
  have g: "thrlab_get_num_barbers ?m = arg_barbers a" "thrlab_get_num_chairs ?m = arg_chairs a"
    using ok by (simp_all add: thrlab_get_num_barbers_def thrlab_get_num_chairs_def open_monitor_def arguments_ok_def)
  have e: "s = \<lparr>mon = ?m, chairs_ring = \<lparr>seat = (\<lambda>_. None), rmax = arg_chairs a, front = 0, rear = 0\<rparr>,
        sem_mutex = 1, sem_slots = arg_chairs a, sem_items = 0,
        customer_mutex = (\<lambda>_. 0), bpc = (\<lambda>_. B_items), cpc = (\<lambda>_. C_gone),
        live = monitor_blocks, printed = '''', halted = None\<rparr>"
    using s by (simp add: shop_setup_def st g start_barbers_ok)
  have b: "cntB P s = 0" if "\<not> P B_items" for P using that by (simp add: cntB_def cnt_def e)
  have c: "cntC Q s = 0" for Q by (simp add: cntC_def cnt_def e open_monitor_def)
  have "shop_ok a s"
  proof (rule shop_okI)
    show "control_ok s" using ok by (simp add: control_ok_def b c) (auto simp: e contents_def ring_ok_def open_monitor_def arguments_ok_def)
    show "monitor_matches a s"
      using ok open_monitor_ok[OF ok, of now]
      by (simp add: monitor_matches_def b c) (simp add: e contents_def open_monitor_def)
    show "barber_at s r (bpc s r)" if "r < barbers (mon s)" for r
      using that by (simp add: e open_monitor_def)
  qed (simp_all add: queue_ok_def customers_known_def blocks_ok_def e contents_def open_monitor_def)
  then show ?thesis by (simp add: e)
qed

text \<open>Every step keeps the invariant or ends the day.\<close>

lemma step_keeps:
  assumes "shop_ok a s" "shop_step s s'"
  shows "day_over a s' \<or> shop_ok a s' \<and> (halted s' = None \<or> halted s' = Some (Exits 1))"
  using assms(2)
proof (cases rule: shop_step.cases)
  case (barber r e)
  then show ?thesis using barber_keeps[OF assms(1)] by auto
next
  case (customer i e)
  then show ?thesis using customer_keeps[OF assms(1)] by auto
next
  case (main e)
  show ?thesis
  proof (cases "length (customers (mon s)) < visitors (mon s)")
    case True
    then show ?thesis using main wait_for_customer_keeps[OF assms(1) True, of e s']
      by (auto simp: main_thread_def)
  next
    case False
    then show ?thesis using main main_close_over[OF assms(1) False, of s'] by (simp add: main_thread_def)
  qed
qed

lemma shop_reach_ok:
  "shop_reach a s \<Longrightarrow> day_over a s \<or> shop_ok a s \<and> (halted s = None \<or> halted s = Some (Exits 1))"
proof (induction rule: shop_reach.induct)
  case (opened opts now st s)
  then show ?case using opened_ok by blast
next
  case (stepped s s')
  have "halted s = None" using stepped.hyps(2) by (cases rule: shop_step.cases) auto
  then have "shop_ok a s" using stepped.IH by (auto simp: day_over_def)
  from step_keeps[OF this stepped.hyps(2)] show ?case .
qed

end
