(* ===== verification/Thr_Shop_Live.thy ===== *)
theory Thr_Shop_Live
  imports Thr_Shop_Main
begin

text \<open>
  The barbershop never gets stuck and always comes to an end: some thread can move in every reachable
  state in which the program runs, and every step of any thread uses up some of the day's work.
\<close>

section \<open>Some thread can move\<close>

definition calm :: env where
  "calm = \<lparr>env_now = \<lparr>tv_sec = 0, tv_nsec = 0\<rparr>, env_at = \<lparr>tv_sec = 0, tv_nsec = 0\<rparr>,
     env_random = (\<lambda>_ _. 0), env_naps = [Slept], env_fails = False\<rparr>"

lemma stop_or_go: "\<exists>s'. with_mon f k s = Some s'"
  by (cases "f (mon s)") (simp_all add: with_mon_def stop_def)

lemma barber_moves:
  assumes I: "shop_ok a s" and r: "r < barbers (mon s)"
    and pc: "bpc s r \<noteq> B_items \<or> 0 < sem_items s" "bpc s r \<noteq> B_lock \<or> 0 < sem_mutex s"
  shows "\<exists>s'. barber_work calm r s = Some s'"
proof (cases "bpc s r")
  case (B_cut c)
  have "hair_ok c" using shop_okD(4)[OF I r] shop_okD(6)[OF I] B_cut
    by (auto simp: serving_def known_def customers_known_def)
  then have "\<exists>t. thrlab_sleep (env_naps calm) (cut_ms c) = Inr (Some t)"
    using sleep_at_least[of "cut_ms c" "[Slept]"] cut_ms_bounds[of c] by (auto simp: calm_def)
  then show ?thesis by (auto simp: barber_work_def B_cut)
next
  case B_take
  then show ?thesis using take_step[OF I r B_take] by (auto simp: barber_work_def)
qed (use pc in \<open>auto simp: barber_work_def wait_mutex_def Sem_wait_def post_mutex_def stop_def stop_or_go
      split: sum.splits option.splits\<close>)

lemma customer_moves:
  assumes pc: "cpc s i \<noteq> C_gone" "cpc s i \<noteq> C_lock \<or> 0 < sem_mutex s" "cpc s i \<noteq> C_wait \<or> 0 < customer_mutex s i"
  shows "\<exists>s'. customer_arrived calm i s = Some s'"
  using pc by (cases "cpc s i")
    (auto simp: customer_arrived_def wait_mutex_def Sem_wait_def post_mutex_def stop_def stop_or_go Let_def
      split: sum.splits option.splits)

lemma main_moves:
  assumes I: "shop_ok a s" and l: "length (customers (mon s)) < visitors (mon s)"
  shows "\<exists>s'. main_thread calm s = Some s'"
proof -
  have "rate (mon s) \<in> {1..10000}" using shop_okD(2)[OF I] by (simp add: monitor_matches_def arguments_ok_def)
  then obtain t where "sleep_until_customer (env_random calm 0) (env_naps calm) (mon s) = Inr (Some t)"
    using sleep_until_customer_ok[of "mon s" "env_random calm 0" "env_naps calm"] by (auto simp: calm_def)
  then show ?thesis using l
    by (auto simp: main_thread_def wait_for_customer_def calm_def stop_def split: sum.splits)
qed

text \<open>A step in which the environment does nothing bad: no interruption, no failure.\<close>

inductive calm_step :: "shop \<Rightarrow> shop \<Rightarrow> bool" where
  calm_barber: "halted s = None \<Longrightarrow> r < barbers (mon s) \<Longrightarrow> barber_work calm r s = Some s' \<Longrightarrow> calm_step s s'"
| calm_customer: "halted s = None \<Longrightarrow> i < length (customers (mon s)) \<Longrightarrow> customer_arrived calm i s = Some s'
    \<Longrightarrow> calm_step s s'"
| calm_main: "halted s = None \<Longrightarrow> main_thread calm s = Some s' \<Longrightarrow> calm_step s s'"

lemma calm_step_step: "calm_step s s' \<Longrightarrow> shop_step s s'"
  by (induction rule: calm_step.induct) (auto intro: shop_step.intros)

lemma progress:
  assumes I: "shop_ok a s" and h: "halted s = None"
  shows "\<exists>s'. calm_step s s'"
proof (rule ccontr)
  assume n: "\<nexists>s'. calm_step s s'"
  note d = shop_okD[OF I] and k = control_okD[OF shop_okD(1)[OF I]]
  have b: "bpc s r = B_items \<and> sem_items s = 0 \<or> bpc s r = B_lock \<and> sem_mutex s = 0" if "r < barbers (mon s)" for r
    using barber_moves[OF I that] calm_barber[OF h that] n by blast
  have c: "cpc s i = C_gone \<or> cpc s i = C_lock \<and> sem_mutex s = 0 \<or> cpc s i = C_wait \<and> customer_mutex s i = 0"
    if "i < length (customers (mon s))" for i
    using customer_moves[of s i] calm_customer[OF h that] n by blast
  have "cntB b_holds s = 0" "cntC c_holds s = 0"
    using b c by (auto simp: cntB_def cntC_def cnt_zero) (metis b_holds.simps(1,2), metis c_holds.simps)
  then have m: "sem_mutex s = 1" using k(1) by simp
  have b': "bpc s r = B_items \<and> sem_items s = 0" if "r < barbers (mon s)" for r
    using b[OF that] m by simp
  have "0 < barbers (mon s)" using d(2) by (auto simp: monitor_matches_def arguments_ok_def)
  then have "sem_items s = 0" using b' by blast
  moreover have "cntB b_called s = 0" using b' by (auto simp: cntB_def cnt_zero)
  moreover have "cntC c_item s = 0" using c by (auto simp: cntC_def cnt_zero) (metis c_item.simps)
  ultimately have q: "queue s = []" using k(3) by simp
  show False
  proof (cases "length (customers (mon s)) < visitors (mon s)")
    case True
    then show ?thesis using main_moves[OF I True] calm_main[OF h] n by blast
  next
    case False
    have "\<exists>i < length (customers (mon s)). cpc s i \<noteq> C_gone"
    proof (rule ccontr)
      assume "\<not> ?thesis"
      then have "\<exists>s'. main_close s = Some s'"
        by (auto simp: main_close_def stop_def split: sum.splits)
      then show False using False calm_main[OF h] n by (auto simp: main_thread_def)
    qed
    then obtain i where i: "i < length (customers (mon s))" "cpc s i = C_wait" "customer_mutex s i = 0"
      using c m by fastforce
    then have "held s (customers (mon s) ! i)" using d(5)[OF i(1)] q by (simp add: served_def)
    then show False using b' by (auto simp: held_def)
  qed
qed

section \<open>The day's work\<close>

fun barber_work_left :: "barber_pc \<Rightarrow> nat" where
  "barber_work_left B_items = 0" | "barber_work_left B_lock = 8" | "barber_work_left B_take = 7"
| "barber_work_left (B_prepare _) = 6" | "barber_work_left (B_cut _) = 5" | "barber_work_left (B_dismiss _) = 4"
| "barber_work_left (B_unblock _) = 3" | "barber_work_left B_unlock = 2" | "barber_work_left B_slots = 1"

fun customer_work_left :: "customer_pc \<Rightarrow> nat" where
  "customer_work_left C_try = 17" | "customer_work_left C_lock = 16" | "customer_work_left C_accept = 15"
| "customer_work_left C_insert = 14" | "customer_work_left C_unlock = 13" | "customer_work_left C_items = 12"
| "customer_work_left C_wait = 2" | "customer_work_left C_reject = 2" | "customer_work_left C_return = 1"
| "customer_work_left C_gone = 0"

definition work :: "shop \<Rightarrow> nat" where
  "work s = 18 * (visitors (mon s) - length (customers (mon s))) + 9 * sem_items s
     + (\<Sum>r < barbers (mon s). barber_work_left (bpc s r))
     + (\<Sum>i < length (customers (mon s)). customer_work_left (cpc s i))
     + (if halted s = None then 1 else 0)"

lemma sum_upd:
  fixes w :: "'a \<Rightarrow> nat" and k n :: nat
  assumes "k < n" shows "(\<Sum>i<n. w ((f(k := y)) i)) + w (f k) = (\<Sum>i<n. w (f i)) + w y"
proof -
  have "(\<Sum>i\<in>{..<n} - {k}. w ((f(k := y)) i)) = (\<Sum>i\<in>{..<n} - {k}. w (f i))"
    by (rule sum.cong) auto
  moreover have k: "k \<in> {..<n}" using assms by simp
  ultimately show ?thesis
    unfolding sum.remove[OF finite_lessThan k, of "\<lambda>i. w ((f(k := y)) i)"]
      sum.remove[OF finite_lessThan k, of "\<lambda>i. w (f i)"] by simp
qed

lemma work_b:
  assumes "r < barbers (mon s)" "halted s = None" "mon s1 = mon s \<or> same_shop (mon s) (mon s1)"
    "bpc s1 = bpc s" "cpc s1 = cpc s" "halted s1 = halted s"
    "9 * sem_items s1 + barber_work_left pc < 9 * sem_items s + barber_work_left (bpc s r)"
  shows "work (goto_b r pc s1) < work s"
proof -
  have "barbers (mon s1) = barbers (mon s)" "customers (mon s1) = customers (mon s)" "visitors (mon s1) = visitors (mon s)"
    using assms(3) by (auto simp: same_shop_def)
  then show ?thesis
    using assms sum_upd[of r "barbers (mon s)" barber_work_left "bpc s" pc] by (simp add: work_def)
qed

lemma work_c:
  assumes "i < length (customers (mon s))" "halted s = None" "mon s1 = mon s \<or> same_shop (mon s) (mon s1)"
    "bpc s1 = bpc s" "cpc s1 = cpc s" "halted s1 = halted s"
    "9 * sem_items s1 + customer_work_left pc < 9 * sem_items s + customer_work_left (cpc s i)"
  shows "work (goto_c i pc s1) < work s"
proof -
  have "barbers (mon s1) = barbers (mon s)" "customers (mon s1) = customers (mon s)" "visitors (mon s1) = visitors (mon s)"
    using assms(3) by (auto simp: same_shop_def)
  then show ?thesis
    using assms sum_upd[of i "length (customers (mon s))" customer_work_left "cpc s" pc] by (simp add: work_def)
qed

lemma work_stop:
  assumes "halted s = None" "stop x s1 = Some s'" "mon s1 = mon s" "bpc s1 = bpc s" "cpc s1 = cpc s" "sem_items s1 = sem_items s"
  shows "work s' < work s"
proof -
  have "s' = s1\<lparr>halted := Some x\<rparr>" using assms(2) by (simp add: stop_def)
  then show ?thesis using assms by (simp add: work_def)
qed

section \<open>Every step uses up work\<close>

lemma same_shop_refl: "same_shop m m"
  by (simp add: same_shop_def)

lemma barber_works:
  assumes "halted s = None" "r < barbers (mon s)" "barber_work e r s = Some s'"
  shows "work s' < work s"
proof -
  note st = assms(3)[unfolded barber_work_def]
  have m: "work s' < work s"
    if "with_mon f (goto_b r pc) s = Some s'" "\<And>m. f (mon s) = Inr m \<Longrightarrow> same_shop (mon s) m"
      "barber_work_left pc < barber_work_left (bpc s r)" for f pc
    using that assms(1,2) by (auto simp: with_mon_def split: sum.splits intro: work_stop intro!: work_b)
  show ?thesis
  proof (cases "bpc s r")
    case (B_prepare c)
    with st show ?thesis by (intro m) (auto dest: prepare_view(1))
  next
    case (B_dismiss c)
    with st show ?thesis by (intro m) (auto dest: dismiss_view(1))
  qed (use st assms in \<open>auto simp: Sem_wait_Some wait_mutex_def post_mutex_def Sem_post_def unix_error_def
         split: sum.splits prod.splits if_splits intro: work_stop intro!: work_b\<close>)
qed

lemma customer_works:
  assumes "halted s = None" "i < length (customers (mon s))" "customer_arrived e i s = Some s'"
  shows "work s' < work s"
proof -
  note st = assms(3)[unfolded customer_arrived_def Let_def]
  have m: "work s' < work s"
    if "with_mon f (goto_c i pc) s = Some s'" "\<And>m. f (mon s) = Inr m \<Longrightarrow> same_shop (mon s) m"
      "customer_work_left pc < customer_work_left (cpc s i)" for f pc
    using that assms(1,2) by (auto simp: with_mon_def split: sum.splits intro: work_stop intro!: work_c)
  show ?thesis
  proof (cases "cpc s i")
    case C_try
    with st assms show ?thesis
      by (auto simp: Sem_trywait_def split: sum.splits prod.splits if_splits intro: work_stop intro!: work_c)
  next
    case C_accept
    with st show ?thesis by (intro m) (auto dest: accept_view(1))
  next
    case C_reject
    with st show ?thesis by (intro m) (auto dest: reject_view(1))
  next
    case C_return
    with st show ?thesis by (intro m) (auto dest: callback_view(1))
  qed (use st assms in \<open>auto simp: Sem_wait_Some wait_mutex_def post_mutex_def Sem_post_def unix_error_def
         split: sum.splits prod.splits if_splits intro: work_stop intro!: work_c\<close>)
qed

lemma main_works:
  assumes "halted s = None" "main_thread e s = Some s'"
  shows "work s' < work s"
proof (cases "length (customers (mon s)) < visitors (mon s)")
  case False
  then have "main_close s = Some s'" using assms(2) by (simp add: main_thread_def)
  then show ?thesis using assms(1)
    by (auto simp: main_close_def split: sum.splits prod.splits if_splits intro: work_stop)
next
  case True
  then have st: "wait_for_customer e s = Some s'" using assms(2) by (simp add: main_thread_def)
  have arrive: "work (goto_c (cid c) C_try (s\<lparr>mon := m, live := bs\<rparr>)) < work s"
    if a: "customer_arrives name len goal now (mon s) = Inr (c, m)" for name len goal now c m bs
  proof -
    note v = arrives_view[OF a]
    let ?n = "length (customers (mon s))"
    have "(\<Sum>i < ?n. customer_work_left (((cpc s)(?n := C_try)) i)) = (\<Sum>i < ?n. customer_work_left (cpc s i))"
      by (rule sum.cong) auto
    then have "(\<Sum>i < Suc ?n. customer_work_left (((cpc s)(?n := C_try)) i))
        = (\<Sum>i < ?n. customer_work_left (cpc s i)) + 17"
      by simp
    then show ?thesis using True v(2-5) assms(1) by (simp add: work_def)
  qed
  have go: "work s1 < work s"
    if "(case customer_arrives name len goal (env_now e) (mon s) of Inl x \<Rightarrow> stop x s
      | Inr (c, m) \<Rightarrow> Some (goto_c (cid c) C_try (s\<lparr>mon := m, live := insert (B_customer (cid c)) (live s)\<rparr>))) = Some s1"
    for name len goal s1
  proof (cases "customer_arrives name len goal (env_now e) (mon s)")
    case (Inl x)
    with that show ?thesis by (auto intro: work_stop[OF assms(1)])
  next
    case (Inr cm)
    obtain c m where cm: "cm = (c, m)" by (cases cm)
    with that Inr have "s1 = goto_c (cid c) C_try (s\<lparr>mon := m, live := insert (B_customer (cid c)) (live s)\<rparr>)" by simp
    with arrive[OF Inr[unfolded cm]] show ?thesis by simp
  qed
  have dr: "work s' < work s" if "(case draw_customer rs of Inl x \<Rightarrow> stop x s
      | Inr (name, len, goal) \<Rightarrow>
          (case customer_arrives name len goal (env_now e) (mon s) of Inl x \<Rightarrow> stop x s
           | Inr (c, m) \<Rightarrow> Some (goto_c (cid c) C_try (s\<lparr>mon := m, live := insert (B_customer (cid c)) (live s)\<rparr>)))) = Some s'"
    for rs
    using that by (cases "draw_customer rs") (auto intro: work_stop[OF assms(1)] simp: split_beta dest!: go)
  show ?thesis using st
    unfolding wait_for_customer_def
    by (cases "sleep_until_customer (env_random e 0) (env_naps e) (mon s)")
      (auto intro: work_stop[OF assms(1)] split: option.splits if_splits dest!: dr)
qed

lemma step_works: "shop_step s s' \<Longrightarrow> work s' < work s"
  by (induction rule: shop_step.induct) (auto intro: barber_works customer_works main_works)

lemma steps_work: "(shop_step ^^ k) s s' \<Longrightarrow> work s' + k \<le> work s"
proof (induction k arbitrary: s')
  case (Suc k)
  then obtain u where "(shop_step ^^ k) s u" "shop_step u s'" by auto
  with Suc.IH[of u] step_works[of u s'] show ?case by simp
qed simp

end
