(* ===== verification/Thr_Shop_Props.thy ===== *)
theory Thr_Shop_Props
  imports Thr_Shop_Live
begin

text \<open>The properties of the barbershop simulation: \<^verbatim>\<open>thrlab/main.c\<close> on the monitor of \<^verbatim>\<open>help.c\<close>.\<close>

section \<open>Concrete days\<close>

definition default_day :: arguments where
  "default_day = \<lparr>arg_barbers = 3, arg_chairs = 2, arg_customers = 10, arg_rate = 1000\<rparr>"

lemma argparse_default: "argparse [] = Inr default_day"
  by (simp add: argparse_def default_day_def)

text \<open>A day can be opened with all options that the parser accepts.\<close>

lemma day_opens:
  assumes a: "argparse opts = Inr a"
  shows "\<exists>s. shop_reach a s \<and> shop_ok a s \<and> halted s = None \<and> customers (mon s) = []
    \<and> sem_slots s = arg_chairs a \<and> visitors (mon s) = arg_customers a \<and> work s \<le> 18 * arg_customers a + 1"
proof -
  fix now
  let ?st = "(open_monitor a now, monitor_blocks)"
  have ok: "arguments_ok a" using argparse_outcome[of opts] a by simp
  have t: "thrlab_setup opts (\<lambda>_. False) now = Inr ?st"
    using setup_cases[OF a, of "\<lambda>_. False" now] by simp
  obtain s where s: "shop_setup (\<lambda>_. 0) ?st = Inr s" "mon s = open_monitor a now" "sem_slots s = arg_chairs a"
    "sem_items s = 0" "bpc s = (\<lambda>_. B_items)"
    using ok by (simp add: shop_setup_def start_barbers_ok thrlab_get_num_chairs_def open_monitor_def arguments_ok_def)
  have "work s \<le> 18 * arg_customers a + 1" by (simp add: work_def s open_monitor_def)
  with shop_reach.opened[OF a t s(1)] opened_ok[OF a t s(1)] s show ?thesis
    by (auto simp: open_monitor_def)
qed

text \<open>The first \<open>k\<close> customers can arrive and take a slot each before any barber moves.\<close>

lemma slots_taken:
  assumes a: "argparse opts = Inr a"
  shows "k \<le> arg_chairs a \<Longrightarrow> k \<le> arg_customers a \<Longrightarrow>
    \<exists>s. shop_reach a s \<and> shop_ok a s \<and> halted s = None \<and> length (customers (mon s)) = k
      \<and> sem_slots s + k = arg_chairs a"
proof (induction k)
  case 0
  then show ?case using day_opens[OF a] by auto
next
  case (Suc k)
  then obtain s where s: "shop_reach a s" "shop_ok a s" "halted s = None" "length (customers (mon s)) = k"
    "sem_slots s + k = arg_chairs a" by auto
  have l: "length (customers (mon s)) < visitors (mon s)"
    using Suc.prems s(4) shop_okD(2)[OF s(2)] by (simp add: monitor_matches_def)
  obtain s1 where m: "main_thread calm s = Some s1" using main_moves[OF s(2) l] by blast
  then have s1: "shop_ok a s1" "halted s1 = None" "length (customers (mon s1)) = Suc k" "sem_slots s1 = sem_slots s"
    "cpc s1 k = C_try"
    using wait_for_customer_keeps[OF s(2) l, of calm s1] l s(3,4) by (auto simp: main_thread_def calm_def)
  have r1: "shop_reach a s1" using shop_reach.stepped[OF s(1) shop_step.main[OF s(3) m]] .
  let ?s2 = "goto_c k C_lock (s1\<lparr>customer_mutex := (customer_mutex s1)(k := 0), sem_slots := sem_slots s1 - 1\<rparr>)"
  have pos: "0 < sem_slots s1" using Suc.prems s(5) s1(4) by simp
  then have c: "customer_arrived calm k s1 = Some ?s2"
    by (simp add: customer_arrived_def s1(5) Sem_trywait_def sem_trywait_def)
  have k: "k < length (customers (mon s1))" using s1(3) by simp
  have "shop_reach a ?s2" using shop_reach.stepped[OF r1 shop_step.customer[OF s1(2) k c]] .
  moreover have "shop_ok a ?s2" using customer_keeps[OF s1(1) k c] by blast
  ultimately show ?case using s1 s(5) pos by (intro exI[of _ ?s2]) auto
qed

section \<open>Safety\<close>

text \<open>C4. At every moment of every day at most one thread is between its wait and its post on the
  chairs' mutex, so the ring buffer is never accessed by two threads; there are never more customers
  waiting than chairs; and the monitor has no complaint but about the speed of a haircut: nobody is
  accepted twice or into a full room, cut by a busy barber, cut twice, dismissed from the wrong room
  or lost. The program has not failed: it runs, or it ended with status 0, or with the status 1 of a
  failed library call.\<close>

theorem shop_safe:
  assumes "shop_reach a s"
  shows "(halted s = None \<or> halted s = Some (Exits 0) \<or> halted s = Some (Exits 1))
    \<and> (halted s \<noteq> Some (Exits 0) \<longrightarrow> cntB b_holds s + cntC c_holds s \<le> 1)
    \<and> num_waiting (mon s) \<le> chairs (mon s)
    \<and> (\<forall>k. k \<noteq> Cut_fast \<and> k \<noteq> Cut_slow \<longrightarrow> complaints (mon s) k = 0)"
  using shop_reach_ok[OF assms]
proof
  assume o: "day_over a s"
  then have m: "monitor_matches a s" and n: "monitor_ok (mon s)" by (simp_all add: day_over_def monitor_matches_def)
  have "statuses (mon s) ! i = CUSTOMER_DONE" if "i < length (statuses (mon s))" for i
    using that o monitor_okD(3)[OF n] by (simp add: day_over_def)
  then have "num_waiting (mon s) = 0"
    unfolding monitor_okD(6)[OF n] count_list_0_iff by (auto simp: in_set_conv_nth)
  with o m show ?thesis by (simp add: day_over_def monitor_matches_def)
next
  assume "shop_ok a s \<and> (halted s = None \<or> halted s = Some (Exits 1))"
  then have ok: "shop_ok a s" and h: "halted s = None \<or> halted s = Some (Exits 1)" by blast+
  note d = shop_okD[OF ok] and k = control_okD[OF shop_okD(1)[OF ok]]
  have "b_prep pc \<Longrightarrow> b_slot pc" for pc by (cases pc) auto
  then have "cntB b_prep s \<le> cntB b_slot s" unfolding cntB_def by (rule cnt_mono)
  moreover have "cntC (\<lambda>pc. pc = C_insert) s \<le> cntC c_slot s" unfolding cntC_def by (rule cnt_mono) simp
  ultimately have "num_waiting (mon s) \<le> chairs (mon s)"
    using k(2) d(2) by (simp add: monitor_matches_def)
  then show ?thesis using h k(1) d(2) by (auto simp: monitor_matches_def)
qed

theorem shop_safe_witness:
  "\<exists>s. shop_reach default_day s \<and> num_waiting (mon s) \<le> chairs (mon s)"
  using shop_safe day_opens[OF argparse_default] by blast

text \<open>C37. Two barbers never cut at the same time, whatever the number of barbers: the barber keeps the
  mutex of the waiting room during the haircut.\<close>

theorem one_haircut_at_a_time:
  assumes "shop_reach a s" "halted s \<noteq> Some (Exits 0)"
  shows "card {r. r < barbers (mon s) \<and> (\<exists>c. bpc s r \<in> {B_cut c, B_dismiss c})} \<le> 1"
proof -
  let ?cutting = "{r. r < barbers (mon s) \<and> (\<exists>c. bpc s r \<in> {B_cut c, B_dismiss c})}"
  have ok: "control_ok s"
    using shop_reach_ok[OF assms(1)] assms(2) shop_okD(1)[of a s] by (auto simp: day_over_def)
  have h: "b_holds (bpc s r)" if "r \<in> ?cutting" for r using that by auto
  have "r = q" if "r \<in> ?cutting" "q \<in> ?cutting" for r q
    using sole_barber(1)[OF ok, of r q] h[OF that(1)] h[OF that(2)] that by blast
  moreover have "finite ?cutting" by simp
  ultimately show ?thesis by (simp add: card_le_Suc0_iff_eq)
qed

theorem one_haircut_at_a_time_witness:
  "\<exists>s. shop_reach default_day s
     \<and> card {r. r < barbers (mon s) \<and> (\<exists>c. bpc s r \<in> {B_cut c, B_dismiss c})} \<le> 1"
proof -
  obtain s where "shop_reach default_day s" "halted s = None" using day_opens[OF argparse_default] by blast
  with one_haircut_at_a_time[of default_day s] show ?thesis by auto
qed

section \<open>Progress and termination\<close>



text \<open>C3. Every day ends, whatever the scheduler does: from any state, there are at most \<open>work s\<close>
  further steps, 18 for each customer still to come and one more at the opening, and a run that cannot
  be continued has ended the program, with status 0 or 1.\<close>

theorem day_ends:
  assumes "shop_reach a s" "(shop_step ^^ k) s s'"
  shows "k \<le> work s \<and> ((\<nexists>s''. shop_step s' s'') \<longrightarrow> halted s' = Some (Exits 0) \<or> halted s' = Some (Exits 1))"
proof -
  have "shop_reach a s'"
    using assms(2)
  proof (induction k arbitrary: s')
    case (Suc k)
    then show ?case using shop_reach.stepped by auto
  qed (use assms(1) in simp)
  from shop_reach_ok[OF this] have "(\<nexists>s''. shop_step s' s'') \<longrightarrow> halted s' = Some (Exits 0) \<or> halted s' = Some (Exits 1)"
    using progress[of a s'] calm_step_step[of s'] unfolding day_over_def by blast
  then show ?thesis using steps_work[OF assms(2)] by simp
qed

theorem day_ends_witness: "\<exists>s. shop_reach default_day s \<and> (\<forall>k s'. (shop_step ^^ k) s s' \<longrightarrow> k \<le> 181)"
proof -
  obtain s where s: "shop_reach default_day s" "work s \<le> 18 * arg_customers default_day + 1"
    using day_opens[OF argparse_default] by blast
  have "k \<le> 181" if "(shop_step ^^ k) s s'" for k s'
    using day_ends[OF s(1) that] s(2) by (simp add: default_day_def)
  with s(1) show ?thesis by blast
qed

section \<open>How a day can end\<close>





section \<open>A day with enough chairs\<close>

text \<open>A slot is taken only by a customer who found it: with enough chairs nobody finds the room full.\<close>

definition slots_ok :: "arguments \<Rightarrow> shop \<Rightarrow> bool" where
  "slots_ok a s \<longleftrightarrow> arg_chairs a \<le> sem_slots s + cntC (\<lambda>pc. pc \<noteq> C_try) s"

lemma barber_slots:
  assumes "barber_work e r s = Some s'"
  shows "sem_slots s \<le> sem_slots s' \<and> cpc s' = cpc s \<and> customers (mon s') = customers (mon s)"
proof -
  have m: "sem_slots s' = sem_slots s \<and> cpc s' = cpc s \<and> customers (mon s') = customers (mon s)"
    if "with_mon f (goto_b r pc) s = Some s'" "\<And>m. f (mon s) = Inr m \<Longrightarrow> same_shop (mon s) m" for f pc
    using that by (auto simp: with_mon_def stop_def same_shop_def split: sum.splits)
  show ?thesis
  proof (cases "bpc s r")
    case (B_prepare c)
    then show ?thesis using assms m[of _ "B_cut c"] prepare_view(1) unfolding barber_work_def by fastforce
  next
    case (B_dismiss c)
    then show ?thesis using assms m[of _ "B_unblock c"] dismiss_view(1) unfolding barber_work_def by fastforce
  qed (use assms in \<open>auto simp: barber_work_def wait_mutex_def post_mutex_def stop_def Sem_post_def unix_error_def
         split: sum.splits prod.splits if_splits\<close>)
qed

lemma customer_slots:
  assumes "customer_arrived e i s = Some s'" "halted s' = None" "i < length (customers (mon s))"
  shows "sem_slots s + cntC (\<lambda>pc. pc \<noteq> C_try) s \<le> sem_slots s' + cntC (\<lambda>pc. pc \<noteq> C_try) s'
    \<and> length (customers (mon s')) = length (customers (mon s))"
proof -
  let ?P = "\<lambda>pc. pc \<noteq> C_try"
  have g: "cntC ?P (goto_c i pc s1) = cntC ?P s + of_bool (cpc s i = C_try)"
    if "pc \<noteq> C_try" "cpc s1 = cpc s" "customers (mon s1) = customers (mon s)" for pc s1
    using cntC_goto_c[of i s1 ?P pc] cnt_cong(2)[of s1 s ?P] that assms(3) by auto
  have m: "sem_slots s' = sem_slots s \<and> cntC ?P s' = cntC ?P s \<and> customers (mon s') = customers (mon s)"
    if "with_mon f (goto_c i pc) s = Some s'" "\<And>m. f (mon s) = Inr m \<Longrightarrow> same_shop (mon s) m"
      "pc \<noteq> C_try" "cpc s i \<noteq> C_try" for f pc
    using that assms(2) g[of pc] by (auto simp: with_mon_def stop_def same_shop_def split: sum.splits)
  note st = assms(1)[unfolded customer_arrived_def Let_def]
  show ?thesis
  proof (cases "cpc s i")
    case C_accept
    then show ?thesis using st m[of _ C_insert] accept_view(1) by fastforce
  next
    case C_reject
    then show ?thesis using st m[of _ C_return] reject_view(1) by fastforce
  next
    case C_return
    then show ?thesis using st m[of _ C_gone] callback_view(1) by fastforce
  qed (use st assms(2) in \<open>auto simp: wait_mutex_def post_mutex_def stop_def Sem_post_def Sem_trywait_def sem_trywait_def
         unix_error_def Let_def g split: sum.splits prod.splits if_splits\<close>)
qed

lemma step_slots:
  assumes ok: "shop_ok a s" "slots_ok a s" and st: "shop_step s s'" "halted s' = None"
  shows "slots_ok a s'"
  using st(1)
proof (cases rule: shop_step.cases)
  case (barber r e)
  have "cntC P s' = cntC P s" for P using barber_slots[OF barber(3)] by (simp add: cntC_def)
  then show ?thesis using ok(2) barber_slots[OF barber(3)] by (simp add: slots_ok_def)
next
  case (customer i e)
  then show ?thesis using ok(2) customer_slots[OF customer(3) st(2)] by (simp add: slots_ok_def)
next
  case (main e)
  show ?thesis
  proof (cases "length (customers (mon s)) < visitors (mon s)")
    case True
    then have w: "wait_for_customer e s = Some s'" using main by (simp add: main_thread_def)
    note k = wait_for_customer_keeps[OF ok(1) True w]
    have "cntC P s' = cntC P s" if "\<not> P C_try" for P
      using wait_for_customer_cpc[OF w st(2)] that k st(2) by (simp add: cntC_def cnt_grow)
    then show ?thesis using ok(2) k st(2) by (simp add: slots_ok_def)
  next
    case False
    then show ?thesis using main main_close_over[OF ok(1) False, of s'] st(2) by (simp add: main_thread_def day_over_def)
  qed
qed

lemma reach_slots: "shop_reach a s \<Longrightarrow> halted s = None \<Longrightarrow> slots_ok a s"
proof (induction rule: shop_reach.induct)
  case (opened opts now st s)
  have "arguments_ok a" using argparse_outcome[of opts] opened.hyps(1) by simp
  moreover have "st = (open_monitor a now, monitor_blocks)"
    using opened.hyps(2) setup_cases[OF opened.hyps(1), of "\<lambda>_. False" now] by simp
  ultimately have "sem_slots s = arg_chairs a"
    using opened.hyps(3) by (auto simp: shop_setup_def start_barbers_ok thrlab_get_num_chairs_def open_monitor_def
        arguments_ok_def)
  then show ?case by (simp add: slots_ok_def)
next
  case (stepped s s')
  have h: "halted s = None" using stepped.hyps(2) by (cases rule: shop_step.cases) auto
  then have "shop_ok a s" using shop_reach_ok[OF stepped.hyps(1)] by (auto simp: day_over_def)
  from step_slots[OF this stepped.IH[OF h] stepped.hyps(2) stepped.prems] show ?case .
qed

lemma enough_chairs_aux:
  assumes "shop_reach a s" "arg_customers a \<le> arg_chairs a" "halted s = None"
    and i: "i < length (customers (mon s))" and st: "customer_arrived e i s = Some s'"
  shows "halted s' = None"
proof -
  have ok: "shop_ok a s" using shop_reach_ok[OF assms(1)] assms(3) by (auto simp: day_over_def)
  have "0 < sem_slots s" if "cpc s i = C_try"
  proof -
    have "cntC (\<lambda>pc. pc = C_try) s + cntC (\<lambda>pc. pc \<noteq> C_try) s = length (customers (mon s))"
      unfolding cntC_def by (rule cnt_split)
    moreover have "0 < cntC (\<lambda>pc. pc = C_try) s" using i that by (rule cntC_pos)
    moreover have "length (customers (mon s)) \<le> arg_customers a"
      using monitor_bounds(3)[OF ok] shop_okD(2)[OF ok] by (simp add: monitor_matches_def)
    ultimately show ?thesis using reach_slots[OF assms(1,3)] assms(2) unfolding slots_ok_def by linarith
  qed
  then show ?thesis using customer_keeps[OF ok i st] assms(3) by auto
qed



definition quiet_day :: arguments where
  "quiet_day = \<lparr>arg_barbers = 3, arg_chairs = 10, arg_customers = 10, arg_rate = 1000\<rparr>"

lemma argparse_quiet: "argparse [(CHR ''w'', nat_digits 10)] = Inr quiet_day"
proof -
  have "strtoul (nat_digits 10 @ []) = (10, False)" by (rule strtoul_digits) simp_all
  then have "my_strtonum (nat_digits 10) 1 1000 = (10, None)" by (simp add: my_strtonum_def)
  then show ?thesis by (simp add: argparse_def argparse_opt_def quiet_day_def)
qed


text \<open>C36. With at least as many chairs as customers no customer ends the program: every step of a
  customer's thread leaves it running, on every schedule.\<close>

theorem enough_chairs:
  assumes "shop_reach a s" "arg_customers a \<le> arg_chairs a" "halted s = None"
    and "i < length (customers (mon s))" "customer_arrived e i s = Some s'"
  shows "halted s' = None"
  using assms by (rule enough_chairs_aux)

theorem enough_chairs_witness:
  "\<exists>s. shop_reach quiet_day s \<and> length (customers (mon s)) = 1
     \<and> (\<forall>e s'. customer_arrived e 0 s = Some s' \<longrightarrow> halted s' = None)"
proof -
  obtain s where "shop_reach quiet_day s" "halted s = None" "length (customers (mon s)) = 1"
    using slots_taken[OF argparse_quiet, of 1] by (auto simp: quiet_day_def)
  with enough_chairs[of quiet_day s 0] show ?thesis by (auto simp: quiet_day_def)
qed

end
