(* ===== verification/Spec2Isabelle.thy ===== *)
theory Spec2Isabelle
  imports Driver_Main_Props Mm_Realloc_Props Tsh_Props Thr_Props Thr_Shop_Props
begin

text \<open>
  A verification library for the three systems programs of this repository: the malloc lab
  (\<^verbatim>\<open>src/malloclab-handout2\<close>: a simulated memory system, two heap allocators and the driver that tests
  them), the tiny shell (\<^verbatim>\<open>src/shlab-handout2/tsh.c\<close>) and the barbershop (\<^verbatim>\<open>src/thrlab\<close>: a simulation with
  threads and the monitor that watches it). Each C function is a definition of the same name. State is
  passed explicitly as a record; what does not return is a value of \<open>c_stop\<close> (the program exits, an
  assertion fails, the behaviour is undefined, or a loop never ends).

  The machine (\<open>C_Prelude\<close>, \<open>C_Text\<close>) is the one of the Makefile of the malloc lab, \<^verbatim>\<open>-m32\<close>: 32-bit words
  with wrap-around for pointers, \<open>size_t\<close> and \<open>unsigned\<close>, a byte-addressed memory with the low byte first.
  A number that the code computes in \<open>int\<close> is an \<open>int\<close> with the overflow written out where it can occur.
  The fields of words and the counters of \<^verbatim>\<open>help.c\<close> (64-bit \<open>size_t\<close>) wrap around as in the code.
\<close>

section \<open>The malloc lab\<close>

text \<open>
  Programs.
  \<^item> \<open>Memlib\<close>: \<^verbatim>\<open>memlib.c\<close>. The region of \<open>MAX_HEAP\<close> bytes lies anywhere in the address space;
    \<open>arena s lo u\<close> says that it starts at \<open>lo\<close> and \<open>u\<close> bytes of it are in use.
  \<^item> \<open>Mm_Macros\<close>, \<open>Mm\<close>, \<open>Mm_Realloc\<close>: \<^verbatim>\<open>mm.c\<close>, its macros on tags and links, all its functions and the branches
    of \<open>mm_realloc\<close>. The walks over blocks and over the free list are partial functions into \<open>option\<close>,
    as a damaged heap can make them run forever; that they return on a correct heap is proved.
  \<^item> \<open>Ff\<close>: \<^verbatim>\<open>mm-firstfit.c\<close>, with the prefix \<open>ff_\<close>, on the same macros.
  \<^item> \<open>Checkers\<close> has no model of its own: it proves what the \<open>mm_checkheap\<close> functions print.
  \<^item> \<open>Driver\<close>, \<open>Driver_Trace\<close>, \<open>Driver_Main\<close>: \<^verbatim>\<open>mdriver.c\<close>, the list of payload ranges, the runs of a trace
    (\<open>eval_mm_valid\<close>, \<open>eval_mm_util\<close>, \<open>eval_mm_speed\<close> and those for the C library), \<open>read_trace\<close>, and \<open>main\<close> with
    the timer of \<^verbatim>\<open>fsecs.c\<close> and \<^verbatim>\<open>ftimer.c\<close> that \<^verbatim>\<open>config.h\<close> selects.

  Proofs.
  \<^item> \<open>Mm_Layout\<close>, \<open>Mm_Heap\<close>, \<open>Mm_Links\<close>, \<open>Mm_Coalesce\<close>: the abstract heap is the list \<open>us\<close> of blocks (size,
    allocated) and the list \<open>fl\<close> of free addresses; \<open>heap_raw\<close> says that tags and links in memory are these.
    Each pointer function is a lemma on these lists.
  \<^item> \<open>Mm_Correct\<close>, \<open>Mm_Alloc\<close>, \<open>Mm_Malloc\<close>, \<open>Mm_Spec\<close>: the invariant \<open>mm_inv\<close> (blocks fill the heap, no two
    free neighbours, the free list holds exactly the free blocks) is kept, \<open>mm_malloc\<close> refines the choice of
    the first fitting block of the free list, \<open>mm_free\<close> refines \<open>coalesced\<close>. \<open>Mm_Realloc_Props\<close>: the contents
    survive \<open>mm_realloc\<close>, and the branch in which \<open>memcpy\<close> gets overlapping regions.
  \<^item> \<open>Ff_Correct\<close>, \<open>Ff_Malloc\<close>, \<open>Ff_Alloc\<close>, \<open>Ff_Props\<close>: the same for the other allocator. Its invariant has the
    same layout with no free list, so the lemmas on layouts serve both.
  \<^item> \<open>Alloc_Interface\<close> states the contract of \<^verbatim>\<open>mm.h\<close>, on sets of live payloads, as the locales \<open>allocator\<close> and
    \<open>reallocator\<close>. \<open>Mm_Interface\<close> interprets the first on \<^verbatim>\<open>mm.c\<close>, \<open>Ff_Interface\<close> both on \<^verbatim>\<open>mm-firstfit.c\<close>;
    \<open>Live_Blocks\<close> relates block lists to live payloads. (\<^verbatim>\<open>mm.c\<close> does not satisfy \<open>reallocator\<close>.)
  \<^item> \<open>Driver_Correct\<close>, \<open>Driver_Runs\<close>, \<open>Driver_Util\<close>, \<open>Driver_Speed\<close> prove the driver correct once, in \<open>driver_client\<close> and
    \<open>realloc_client\<close>, against any allocator that keeps the contract; \<open>Driver_Props\<close> interprets them on both
    allocators. \<open>Driver_Trace\<close> ends with the round trip of a trace file.
    \<open>Driver_Main_Props\<close> puts the runs together: from the text of the files to the performance index.

  Bounds. \<open>heap_limit\<close> is 20 MB. \<open>request_ok lo n\<close> are the sizes the theorems on allocation cover: positive,
  rounded up without wrap-around, and either such that \<open>mem_brk + incr\<close> in \<open>mem_sbrk\<close> stays below \<open>2 ^ 32\<close> or so
  large that \<open>incr\<close> is negative and refused. Walks end because block and free lists are finite: no fuel is used.
\<close>

section \<open>The tiny shell\<close>

text \<open>
  \<^item> \<open>Tsh_Jobs\<close>: the job list, an array of slots. \<open>Tsh_Parse\<close>: \<open>parseline\<close>.
  \<^item> \<open>Tsh\<close>: \<open>eval\<close>, the builtins, \<open>waitfg\<close>, the handlers. The main program and the handlers interleave in the
    inductive relation \<open>tsh_step\<close>, the handlers being blocked where the code blocks \<open>SIGCHLD\<close>; the operating
    system (what \<open>fork\<close> and \<open>waitpid\<close> report) is an argument of the steps.
  \<^item> \<open>Tsh_Inv\<close>: invariants of all reachable states by rule induction. \<open>Tsh_Props\<close>: the properties, with the job
    table as an interface (locale \<open>job_table\<close>) interpreted on \<open>addjob\<close>, \<open>deletejob\<close> and \<open>getjobpid\<close>.
\<close>

section \<open>The barbershop\<close>

text \<open>
  \<^item> \<open>Thr_Names\<close>, \<open>Thr_Monitor\<close>, \<open>Thr_Setup\<close>: \<^verbatim>\<open>help.c\<close>. An entry point holds the monitor's lock throughout and
    is one function; clock, random bits and failures of the C library are arguments.
  \<^item> \<open>Thr_Correct\<close>, \<open>Thr_Props\<close>, \<open>Thr_Setup_Props\<close>: a customer's status only moves forward, the counters count
    the statuses, the options stay in their ranges, the allocations are released on the failure paths.
  \<^item> \<open>Thr_Ring\<close>: the ring of chairs of \<^verbatim>\<open>main.c\<close> is a bounded queue (locale \<open>waiting_room\<close>).
  \<^item> \<open>Thr_Shop\<close>: the threads of \<^verbatim>\<open>main.c\<close>; each has a program counter, and \<open>shop_step\<close> lets any thread do one
    operation on a semaphore, on the chairs or on the monitor.
  \<^item> \<open>Thr_Shop_Control\<close> counts what the semaphores stand for, \<open>Thr_Shop_Inv\<close> adds where each customer is,
    \<open>Thr_Shop_Steps\<close>, \<open>Thr_Shop_Safe\<close> and \<open>Thr_Shop_Main\<close> prove it for all reachable states,
    \<open>Thr_Shop_Live\<close> that some thread can always move and that every step uses up a part of \<open>work\<close>, a bound
    linear in the customers still to come; hence every day ends. \<open>Thr_Shop_Props\<close> states the properties.
\<close>

section \<open>Not modelled\<close>

text \<open>
  \<^item> \<^verbatim>\<open>mdriver.c\<close>: \<open>usage\<close>, and the layout of the tables. A \<open>double\<close> (utilization, seconds, index) is the exact
    number, \<open>None\<close> after a division by zero. The driver's own records are assumed to find room; \<open>malloc\<close> can fail
    in \<open>read_trace\<close> and \<open>main\<close> only.
  \<^item> \<^verbatim>\<open>clock.c\<close> and \<^verbatim>\<open>fcyc.c\<close> (cycle counters in assembly, calibration) and the interval timer of \<^verbatim>\<open>ftimer.c\<close>:
    \<^verbatim>\<open>config.h\<close> switches them off.
  \<^item> \<open>mem_deinit\<close> and \<open>mem_pagesize\<close>, the wrappers of system calls in \<^verbatim>\<open>tsh.c\<close>, and \<open>cleanup\<close> of the barbershop
    only call the C library. \<^verbatim>\<open>myspin.c\<close>, \<^verbatim>\<open>mysplit.c\<close>, \<^verbatim>\<open>mystop.c\<close>, \<^verbatim>\<open>myint.c\<close> are input of the shell.
  \<^item> The branches of \<open>mm_realloc\<close> that join two free neighbours or grow the heap are modelled, but no theorem says
    that they keep the invariant. They do not always: the last block grows by \<open>CHUNKSIZE\<close> whatever is needed.
\<close>

end
